(* ===== verification/Kaniko_Prelude.thy ===== *)
theory Kaniko_Prelude
  imports Main "HOL-Library.AList" "HOL-Library.Sublist" "HOL-Library.Char_ord"
    "HOL-Library.List_Lexorder" "HOL-Library.Multiset" "HOL-Library.Code_Target_Nat"
begin

text \<open>
  The vocabulary every component of the development shares.

  \<^item> Errors are values. A Go function that returns \<open>(T, error)\<close> becomes a function into
    \<open>err + T\<close>; the constructors of \<open>err\<close> are the kinds of error the code tells apart
    (\<open>os.IsNotExist\<close>, the typed errors of \<open>pkg/cache\<close>, wrapped errors) and \<open>Panic\<close> for a
    run-time panic of the Go program (an index out of range).
  \<^item> A Go map is an association list with distinct keys (\<^typ>\<open>('k \<times> 'v) list\<close>), read with
    \<^const>\<open>map_of\<close>, written with \<^const>\<open>AList.update\<close> and \<^const>\<open>AList.delete\<close>. Go leaves the
    order of a \<open>range\<close> loop over a map unspecified; the model follows insertion order, and the
    theorems about results built by such a loop speak of sets, or of the list after the sort the
    code applies.
  \<^item> Strings are byte strings. Case conversion and the one-character wildcards of
    \<open>filepath.Match\<close> are modelled for ASCII.
\<close>

subsection \<open>Collections of facts\<close>

named_theorems go_defs \<open>definitions of the model that a proof unfolds as a group\<close>
named_theorems path_simps \<open>rewrite rules for path strings\<close>

subsection \<open>Errors and results\<close>

datatype errno = ENOENT | ENOTDIR | EEXIST | EISDIR | ELOOP | ENOTEMPTY | EINVAL | EACCES | EPERM | EBUSY

datatype err =
    Msg string
  | Sys errno
  | Wrap string err
  | NotFoundErr string
  | ExpiredErr string
  | AlreadyCachedErr string
  | Panic string
  | Hang

type_synonym 'a res = "err + 'a"

text \<open>\<open>os.IsNotExist\<close> looks at the error itself, not through the layers that
  \<open>errors.Wrap\<close> adds; \<open>cause\<close> is what \<open>errors.Is\<close> and \<open>errors.As\<close> see.\<close>

fun is_not_exist :: "err \<Rightarrow> bool" where
  "is_not_exist (Sys ENOENT) = True"
| "is_not_exist _ = False"

fun cause :: "err \<Rightarrow> err" where
  "cause (Wrap _ e) = cause e"
| "cause e = e"

text \<open>The two ways the code hands an error on: \<open>return err\<close> and
  \<open>return errors.Wrap(err, msg)\<close>.\<close>

definition rbind :: "'a res \<Rightarrow> ('a \<Rightarrow> 'b res) \<Rightarrow> 'b res" where
  "rbind r f = (case r of Inl e \<Rightarrow> Inl e | Inr x \<Rightarrow> f x)"

definition wrap :: "string \<Rightarrow> 'a res \<Rightarrow> 'a res" where
  "wrap msg r = (case r of Inl e \<Rightarrow> Inl (Wrap msg e) | Inr x \<Rightarrow> Inr x)"

text \<open>A loop whose body may fail, collecting what it produces; it stops at the first error.\<close>

fun rmap :: "('a \<Rightarrow> 'b res) \<Rightarrow> 'a list \<Rightarrow> 'b list res" where
  "rmap f [] = Inr []"
| "rmap f (x # xs) = rbind (f x) (\<lambda>y. rbind (rmap f xs) (\<lambda>ys. Inr (y # ys)))"

text \<open>A loop that threads a state through a body that may fail.\<close>

fun rfold :: "('a \<Rightarrow> 's \<Rightarrow> 's res) \<Rightarrow> 'a list \<Rightarrow> 's \<Rightarrow> 's res" where
  "rfold f [] s = Inr s"
| "rfold f (x # xs) s = rbind (f x s) (rfold f xs)"

text \<open>The same loop over a state that keeps its changes when the body fails.\<close>

fun sfold :: "('a \<Rightarrow> 's \<Rightarrow> unit res \<times> 's) \<Rightarrow> 'a list \<Rightarrow> 's \<Rightarrow> unit res \<times> 's" where
  "sfold f [] s = (Inr (), s)"
| "sfold f (x # xs) s =
     (case f x s of (Inl e, t) \<Rightarrow> (Inl e, t) | (Inr _, t) \<Rightarrow> sfold f xs t)"

definition is_ok :: "'a res \<Rightarrow> bool" where
  "is_ok r = (case r of Inl _ \<Rightarrow> False | Inr _ \<Rightarrow> True)"

lemma rbind_simps [simp]:
  "rbind (Inl e) f = Inl e"
  "rbind (Inr x) f = f x"
  by (simp_all add: rbind_def)

lemma wrap_simps [simp]:
  "wrap m (Inl e) = Inl (Wrap m e)"
  "wrap m (Inr x) = Inr x"
  by (simp_all add: wrap_def)

lemma is_ok_simps [simp]: "\<not> is_ok (Inl e)" "is_ok (Inr x)"
  by (simp_all add: is_ok_def)

lemma rbind_Inr_iff [simp]: "rbind r f = Inr y \<longleftrightarrow> (\<exists>x. r = Inr x \<and> f x = Inr y)"
  by (cases r) simp_all

lemma rbind_Inl_iff: "rbind r f = Inl e \<longleftrightarrow> r = Inl e \<or> (\<exists>x. r = Inr x \<and> f x = Inl e)"
  by (cases r) auto

lemma wrap_Inr_iff [simp]: "wrap m r = Inr y \<longleftrightarrow> r = Inr y"
  by (cases r) simp_all

lemma is_ok_iff: "is_ok r \<longleftrightarrow> (\<exists>x. r = Inr x)"
  by (cases r) simp_all

lemma rmap_Inr_length: "rmap f xs = Inr ys \<Longrightarrow> length ys = length xs"
  by (induction xs arbitrary: ys) auto

lemma rmap_Inr_iff: "rmap f xs = Inr ys \<longleftrightarrow> list_all2 (\<lambda>x y. f x = Inr y) xs ys"
  by (induction xs arbitrary: ys) (auto simp: list_all2_Cons1)

lemma rmap_Inr_elem1: "rmap f xs = Inr ys \<Longrightarrow> x \<in> set xs \<Longrightarrow> \<exists>y \<in> set ys. f x = Inr y"
  by (induction xs arbitrary: ys) auto

lemma rmap_Inr_elem2: "rmap f xs = Inr ys \<Longrightarrow> y \<in> set ys \<Longrightarrow> \<exists>x \<in> set xs. f x = Inr y"
  by (induction xs arbitrary: ys) auto

lemma rmap_cong [fundef_cong]:
  "xs = ys \<Longrightarrow> (\<And>x. x \<in> set ys \<Longrightarrow> f x = g x) \<Longrightarrow> rmap f xs = rmap g ys"
proof (induction xs arbitrary: ys)
  case Nil
  then show ?case by simp
next
  case (Cons x xs)
  then have "rmap f xs = rmap g xs" by auto
  with Cons.prems show ?case by (auto intro: arg_cong2 [where f = rbind])
qed

lemma rmap_total: "(\<And>x. x \<in> set xs \<Longrightarrow> f x = Inr (g x)) \<Longrightarrow> rmap f xs = Inr (map g xs)"
  by (induction xs) auto

text \<open>The loop rule: an invariant that every successful step keeps holds at the end.\<close>

lemma rfold_invariant:
  assumes "rfold f xs s = Inr s'" and "P s"
    and "\<And>x t t'. x \<in> set xs \<Longrightarrow> P t \<Longrightarrow> f x t = Inr t' \<Longrightarrow> P t'"
  shows "P s'"
  using assms
proof (induction xs arbitrary: s)
  case Nil
  then show ?case by simp
next
  case (Cons x xs)
  from Cons.prems(1) obtain t where t: "f x s = Inr t" "rfold f xs t = Inr s'" by auto
  have "P t" by (rule Cons.prems(3) [OF _ Cons.prems(2) t(1)]) simp
  with t(2) show ?case
  proof (rule Cons.IH)
    fix y u u'
    assume "y \<in> set xs" "P u" "f y u = Inr u'"
    then show "P u'" by (intro Cons.prems(3) [of y u u']) simp_all
  qed
qed

lemma sfold_append: "sfold f (xs @ ys) s = (case sfold f xs s of (Inl e, t) \<Rightarrow> (Inl e, t) | (Inr _, t) \<Rightarrow> sfold f ys t)"
  by (induction xs arbitrary: s) (auto split: prod.splits sum.splits)

lemma sfold_Inr_append:
  "sfold f xs s = (Inr u, s') \<Longrightarrow> f y s' = (Inr u', s'') \<Longrightarrow> sfold f (xs @ [y]) s = (Inr (), s'')"
  by (simp add: sfold_append)

lemma sfold_map: "sfold f (map h xs) s = sfold (\<lambda>x. f (h x)) xs s"
  by (induction xs arbitrary: s) (auto split: prod.splits sum.splits)

lemma sfold_total: "(\<And>x s. x \<in> set xs \<Longrightarrow> \<exists>s'. f x s = (Inr (), s')) \<Longrightarrow> \<exists>s'. sfold f xs s = (Inr (), s')"
proof (induction xs arbitrary: s)
  case (Cons x xs)
  obtain t where "f x s = (Inr (), t)" using Cons.prems [of x s] by auto
  moreover obtain s' where "sfold f xs t = (Inr (), s')" using Cons.IH [of t] Cons.prems by auto
  ultimately show ?case by simp
qed simp

lemma sfold_invariant:
  assumes "sfold f xs s = (Inr u, s')" and "P s"
    and "\<And>x t t'. x \<in> set xs \<Longrightarrow> P t \<Longrightarrow> f x t = (Inr (), t') \<Longrightarrow> P t'"
  shows "P s'"
  using assms
proof (induction xs arbitrary: s)
  case (Cons x xs)
  from Cons.prems(1) obtain t where t: "f x s = (Inr (), t)" "sfold f xs t = (Inr u, s')"
    by (auto split: prod.splits sum.splits)
  have "P t" by (rule Cons.prems(3) [OF _ Cons.prems(2) t(1)]) simp
  with t(2) show ?case
  proof (rule Cons.IH)
    fix y v v'
    assume "y \<in> set xs" "P v" "f y v = (Inr (), v')"
    then show "P v'" by (intro Cons.prems(3) [of y v v']) simp_all
  qed
qed simp

lemma rfold_append: "rfold f (xs @ ys) s = rbind (rfold f xs s) (rfold f ys)"
proof (induction xs arbitrary: s)
  case (Cons x xs)
  then show ?case by (cases "f x s") auto
qed simp

subsection \<open>Actions on a state\<close>

text \<open>Code that changes state and may fail: the changes made before an error stay.\<close>

type_synonym ('s, 'a) act = "'s \<Rightarrow> 'a res \<times> 's"

definition sret :: "'a \<Rightarrow> ('s, 'a) act" where
  "sret x s = (Inr x, s)"

definition sfail :: "err \<Rightarrow> ('s, 'a) act" where
  "sfail e s = (Inl e, s)"

definition sbind :: "('s, 'a) act \<Rightarrow> ('a \<Rightarrow> ('s, 'b) act) \<Rightarrow> ('s, 'b) act" where
  "sbind m f s = (case m s of (r, t) \<Rightarrow> (case r of Inl e \<Rightarrow> (Inl e, t) | Inr x \<Rightarrow> f x t))"

definition sthen :: "('s, 'a) act \<Rightarrow> ('s, 'b) act \<Rightarrow> ('s, 'b) act" where
  "sthen m n = sbind m (\<lambda>_. n)"

text \<open>A result computed from the state, and a value read off it.\<close>

definition sreads :: "('s \<Rightarrow> 'a res) \<Rightarrow> ('s, 'a) act" where
  "sreads f s = (f s, s)"

definition sgets :: "('s \<Rightarrow> 'a) \<Rightarrow> ('s, 'a) act" where
  "sgets f s = (Inr (f s), s)"

definition smodify :: "('s \<Rightarrow> 's) \<Rightarrow> ('s, unit) act" where
  "smodify f s = (Inr (), f s)"

text \<open>\<open>errors.Wrap\<close> around a call, an error kept as a value, and a call whose error is dropped.\<close>

definition swrap :: "string \<Rightarrow> ('s, 'a) act \<Rightarrow> ('s, 'a) act" where
  "swrap msg m s = (case m s of (r, t) \<Rightarrow> (wrap msg r, t))"

definition stry :: "('s, 'a) act \<Rightarrow> ('s, 'a res) act" where
  "stry m s = (case m s of (r, t) \<Rightarrow> (Inr r, t))"

definition signore :: "('s, 'a) act \<Rightarrow> ('s, unit) act" where
  "signore m s = (Inr (), snd (m s))"

definition swhen :: "bool \<Rightarrow> ('s, unit) act \<Rightarrow> ('s, unit) act" where
  "swhen b m = (if b then m else sret ())"

fun smap :: "('a \<Rightarrow> ('s, 'b) act) \<Rightarrow> 'a list \<Rightarrow> ('s, 'b list) act" where
  "smap f [] = sret []"
| "smap f (x # xs) = sbind (f x) (\<lambda>y. sbind (smap f xs) (\<lambda>ys. sret (y # ys)))"

lemmas act_defs = sret_def sfail_def sbind_def sthen_def sreads_def sgets_def smodify_def swrap_def
  stry_def signore_def swhen_def

text \<open>An action keeps a property of the state, whether it fails or not.\<close>

definition keeps :: "('s \<Rightarrow> bool) \<Rightarrow> ('s, 'a) act \<Rightarrow> bool" where
  "keeps P m \<longleftrightarrow> (\<forall>s. P s \<longrightarrow> P (snd (m s)))"

named_theorems keeps_rules \<open>one rule per action for the preservation of an invariant\<close>

lemma keepsD: "keeps P m \<Longrightarrow> P s \<Longrightarrow> P (snd (m s))"
  by (simp add: keeps_def)

lemma keeps_basic [keeps_rules, simp]:
  "keeps P (sret x)" "keeps P (sfail e)" "keeps P (sreads f)" "keeps P (sgets g)"
  by (simp_all add: keeps_def act_defs)

lemma keeps_bind [keeps_rules]:
  "keeps P m \<Longrightarrow> (\<And>x. keeps P (f x)) \<Longrightarrow> keeps P (sbind m f)"
  by (auto simp: keeps_def sbind_def split: prod.splits sum.splits)

lemma keeps_then [keeps_rules]: "keeps P m \<Longrightarrow> keeps P n \<Longrightarrow> keeps P (sthen m n)"
  unfolding sthen_def by (rule keeps_bind)

lemma keeps_wrap [keeps_rules]: "keeps P m \<Longrightarrow> keeps P (swrap msg m)"
  by (auto simp: keeps_def swrap_def split: prod.splits)

lemma keeps_try [keeps_rules]: "keeps P m \<Longrightarrow> keeps P (stry m)"
  by (auto simp: keeps_def stry_def split: prod.splits)

lemma keeps_ignore [keeps_rules]: "keeps P m \<Longrightarrow> keeps P (signore m)"
  by (auto simp: keeps_def signore_def split: prod.splits)

lemma keeps_when [keeps_rules]: "keeps P m \<Longrightarrow> keeps P (swhen b m)"
  by (simp add: swhen_def)

lemma keeps_if [keeps_rules]: "keeps P m \<Longrightarrow> keeps P n \<Longrightarrow> keeps P (if b then m else n)"
  by simp

lemma keeps_sum [keeps_rules]:
  "(\<And>e. keeps P (f e)) \<Longrightarrow> (\<And>x. keeps P (g x)) \<Longrightarrow>
   keeps P (case r of Inl e \<Rightarrow> f e | Inr x \<Rightarrow> g x)"
  by (cases r) simp_all

lemma keeps_option [keeps_rules]:
  "keeps P m \<Longrightarrow> (\<And>x. keeps P (g x)) \<Longrightarrow> keeps P (case r of None \<Rightarrow> m | Some x \<Rightarrow> g x)"
  by (cases r) simp_all

lemma keeps_prod [keeps_rules]:
  "(\<And>a b. keeps P (f a b)) \<Longrightarrow> keeps P (case r of (a, b) \<Rightarrow> f a b)"
  by (cases r) simp_all

lemma keeps_sfold [keeps_rules]:
  assumes "\<And>x. keeps P (f x)"
  shows "keeps P (sfold f xs)"
proof -
  have "P s \<Longrightarrow> P (snd (sfold f xs s))" for s
  proof (induction xs arbitrary: s)
    case (Cons x xs)
    obtain r t where f: "f x s = (r, t)" by fastforce
    then have "P t" using keepsD [OF assms [of x] Cons.prems] by simp
    with Cons.IH f show ?case by (cases r) simp_all
  qed simp
  then show ?thesis by (simp add: keeps_def)
qed

lemma keeps_smap [keeps_rules]: "(\<And>x. keeps P (f x)) \<Longrightarrow> keeps P (smap f xs)"
  by (induction xs) (auto intro!: keeps_rules)

text \<open>What a successful action did.\<close>

lemma sbind_Inr:
  "sbind m f s = (Inr y, t) \<longleftrightarrow> (\<exists>x u. m s = (Inr x, u) \<and> f x u = (Inr y, t))"
  by (auto simp: sbind_def split: prod.splits sum.splits)

lemma sthen_Inr: "sthen m n s = (Inr y, t) \<longleftrightarrow> (\<exists>x u. m s = (Inr x, u) \<and> n u = (Inr y, t))"
  by (simp add: sthen_def sbind_Inr)

lemma swrap_Inr: "swrap msg m s = (Inr y, t) \<longleftrightarrow> m s = (Inr y, t)"
  by (auto simp: swrap_def split: prod.splits)

lemma sreads_Inr: "sreads f s = (Inr y, t) \<longleftrightarrow> f s = Inr y \<and> t = s"
  by (auto simp: sreads_def)

lemma sret_Inr: "sret x s = (Inr y, t) \<longleftrightarrow> y = x \<and> t = s"
  by (auto simp: sret_def)

lemma sfail_Inr: "sfail e s \<noteq> (Inr y, t)"
  by (simp add: sfail_def)

lemma sgets_Inr: "sgets f s = (Inr y, t) \<longleftrightarrow> y = f s \<and> t = s"
  by (auto simp: sgets_def)

lemmas act_Inr = sbind_Inr sthen_Inr swrap_Inr sreads_Inr sret_Inr sfail_Inr sgets_Inr

subsection \<open>Go maps\<close>

type_synonym ('k, 'v) gomap = "('k \<times> 'v) list"

definition gm_get :: "('k, 'v) gomap \<Rightarrow> 'k \<Rightarrow> 'v option" where
  "gm_get m k = map_of m k"

definition gm_set :: "('k, 'v) gomap \<Rightarrow> 'k \<Rightarrow> 'v \<Rightarrow> ('k, 'v) gomap" where
  "gm_set m k v = AList.update k v m"

definition gm_del :: "('k, 'v) gomap \<Rightarrow> 'k \<Rightarrow> ('k, 'v) gomap" where
  "gm_del m k = AList.delete k m"

definition gm_has :: "('k, 'v) gomap \<Rightarrow> 'k \<Rightarrow> bool" where
  "gm_has m k = (gm_get m k \<noteq> None)"

definition gm_keys :: "('k, 'v) gomap \<Rightarrow> 'k list" where
  "gm_keys m = map fst m"

definition gm_wf :: "('k, 'v) gomap \<Rightarrow> bool" where
  "gm_wf m = distinct (map fst m)"

lemma gm_get_empty [simp]: "gm_get [] k = None"
  by (simp add: gm_get_def)

lemma gm_get_set [simp]: "gm_get (gm_set m k v) j = (if j = k then Some v else gm_get m j)"
  by (simp add: gm_get_def gm_set_def update_conv')

lemma gm_get_del [simp]: "gm_get (gm_del m k) j = (if j = k then None else gm_get m j)"
  by (simp add: gm_get_def gm_del_def delete_conv')

lemma gm_has_set [simp]: "gm_has (gm_set m k v) j \<longleftrightarrow> j = k \<or> gm_has m j"
  by (simp add: gm_has_def)

lemma gm_has_del [simp]: "gm_has (gm_del m k) j \<longleftrightarrow> j \<noteq> k \<and> gm_has m j"
  by (simp add: gm_has_def)

lemma gm_has_empty [simp]: "\<not> gm_has [] k"
  by (simp add: gm_has_def)

lemma gm_keys_iff: "k \<in> set (gm_keys m) \<longleftrightarrow> gm_has m k"
  by (auto simp: gm_keys_def gm_has_def gm_get_def map_of_eq_None_iff)

lemma gm_wf_empty [simp]: "gm_wf []"
  by (simp add: gm_wf_def)

lemma gm_wf_set [simp]: "gm_wf m \<Longrightarrow> gm_wf (gm_set m k v)"
  by (simp add: gm_wf_def gm_set_def distinct_update)

lemma gm_wf_del [simp]: "gm_wf m \<Longrightarrow> gm_wf (gm_del m k)"
  by (simp add: gm_wf_def gm_del_def distinct_delete)

lemma gm_wf_keys: "gm_wf m \<Longrightarrow> distinct (gm_keys m)"
  by (simp add: gm_wf_def gm_keys_def)

text \<open>Copying a map by a \<open>range\<close> loop and deleting a list of keys.\<close>

definition gm_set_all :: "('k, 'v) gomap \<Rightarrow> ('k \<times> 'v) list \<Rightarrow> ('k, 'v) gomap" where
  "gm_set_all m kvs = fold (\<lambda>(k, v) m. gm_set m k v) kvs m"

definition gm_del_all :: "('k, 'v) gomap \<Rightarrow> 'k list \<Rightarrow> ('k, 'v) gomap" where
  "gm_del_all m ks = fold (\<lambda>k m. gm_del m k) ks m"

lemma gm_del_all_simps [simp]:
  "gm_del_all m [] = m"
  "gm_del_all m (k # ks) = gm_del_all (gm_del m k) ks"
  by (simp_all add: gm_del_all_def)

lemma gm_set_all_simps [simp]:
  "gm_set_all m [] = m"
  "gm_set_all m ((k, v) # kvs) = gm_set_all (gm_set m k v) kvs"
  by (simp_all add: gm_set_all_def)

lemma gm_get_del_all [simp]:
  "gm_get (gm_del_all m ks) k = (if k \<in> set ks then None else gm_get m k)"
  by (induction ks arbitrary: m) auto

lemma gm_wf_del_all [simp]: "gm_wf m \<Longrightarrow> gm_wf (gm_del_all m ks)"
  by (induction ks arbitrary: m) auto

lemma gm_wf_set_all [simp]: "gm_wf m \<Longrightarrow> gm_wf (gm_set_all m kvs)"
  by (induction kvs arbitrary: m) (auto split: prod.splits)

lemma gm_get_set_all:
  "distinct (map fst kvs) \<Longrightarrow>
   gm_get (gm_set_all m kvs) k = (case map_of kvs k of None \<Rightarrow> gm_get m k | Some v \<Rightarrow> Some v)"
proof (induction kvs arbitrary: m)
  case Nil
  then show ?case by simp
next
  case (Cons kv kvs)
  obtain k' v' where kv: "kv = (k', v')" by (cases kv)
  with Cons.prems have "map_of kvs k' = None" by (simp add: map_of_eq_None_iff)
  with Cons kv show ?case by (auto split: option.splits)
qed

lemma gm_get_set_all_wf:
  "gm_wf n \<Longrightarrow> gm_get (gm_set_all m n) k = (case gm_get n k of None \<Rightarrow> gm_get m k | Some v \<Rightarrow> Some v)"
  using gm_get_set_all [of n m k] by (simp add: gm_wf_def gm_get_def [of n])

subsection \<open>Lists\<close>

text \<open>Equal up to the order of a map's \<open>range\<close> loop, hence equal after \<open>sort.Strings\<close>.\<close>

lemma sort_perm_eq: "mset xs = mset ys \<Longrightarrow> sort xs = sort (ys :: 'a :: linorder list)"
  by (metis properties_for_sort sorted_sort mset_sort)

lemma sort_set_eq:
  "distinct xs \<Longrightarrow> distinct ys \<Longrightarrow> set xs = set ys \<Longrightarrow> sort xs = sort (ys :: 'a :: linorder list)"
  by (metis set_eq_iff_mset_eq_distinct sort_perm_eq)

text \<open>The loop \<open>for i, x := range xs\<close> that stops at the first hit.\<close>

fun find_index :: "('a \<Rightarrow> bool) \<Rightarrow> 'a list \<Rightarrow> nat option" where
  "find_index P [] = None"
| "find_index P (x # xs) = (if P x then Some 0 else map_option Suc (find_index P xs))"

lemma find_index_Some:
  "find_index P xs = Some j \<longleftrightarrow> j < length xs \<and> P (xs ! j) \<and> (\<forall>k < j. \<not> P (xs ! k))"
proof (induction xs arbitrary: j)
  case (Cons x xs)
  show ?case
  proof (cases j)
    case (Suc i)
    have "(\<forall>k < Suc i. \<not> P ((x # xs) ! k)) \<longleftrightarrow> \<not> P x \<and> (\<forall>k < i. \<not> P (xs ! k))"
      by (auto simp: less_Suc_eq_0_disj)
    with Suc Cons.IH [of i] show ?thesis by auto
  qed auto
qed simp

lemma find_index_None: "find_index P xs = None \<longleftrightarrow> (\<forall>x \<in> set xs. \<not> P x)"
  by (induction xs) auto

text \<open>Appending \<open>x\<close> to a list that is used as an ordered set.\<close>

definition add_new :: "'a \<Rightarrow> 'a list \<Rightarrow> 'a list" where
  "add_new x xs = (if x \<in> set xs then xs else xs @ [x])"

lemma set_add_new [simp]: "set (add_new x xs) = insert x (set xs)"
  by (auto simp: add_new_def)

lemma distinct_add_new [simp]: "distinct xs \<Longrightarrow> distinct (add_new x xs)"
  by (auto simp: add_new_def)

lemma set_fold_add_new [simp]: "set (fold add_new ys xs) = set xs \<union> set ys"
  by (induction ys arbitrary: xs) auto

lemma distinct_fold_add_new [simp]: "distinct xs \<Longrightarrow> distinct (fold add_new ys xs)"
  by (induction ys arbitrary: xs) auto

end
