(* ===== verification/Layered_Map.thy ===== *)
theory Layered_Map
  imports Go_Strings
begin

text \<open>
  \<open>pkg/snapshot/layered_map.go\<close>: the record of which file, with which hash, every layer added and
  which files it deleted, with a cached merge of all layers but the newest. The hasher reads the file
  system, so it is an argument of the operations that call it. An operation that can fail returns its
  result together with the map, because the fields it wrote before the failure stay written.

  The specification is the image as a partial function from paths to hashes; \<open>lm_inv\<close> relates the
  cached merge to it, and the interface the snapshotter uses is the locale \<open>file_image\<close>.
\<close>

subsection \<open>State and operations\<close>

record LayeredMap =
  adds :: "(string, string) gomap list"
  deletes :: "(string, unit) gomap list"
  currentImage :: "(string, string) gomap"
  isCurrentImageValid :: bool
  layerHashCache :: "(string, string) gomap"

type_synonym hasher = "string \<Rightarrow> string res"

definition NewLayeredMap :: LayeredMap where
  "NewLayeredMap =
     \<lparr>adds = [], deletes = [], currentImage = [], isCurrentImageValid = False, layerHashCache = []\<rparr>"

definition getCurrentImage :: "LayeredMap \<Rightarrow> (string, string) gomap" where
  "getCurrentImage l =
     (if isCurrentImageValid l \<or> adds l = [] then currentImage l
      else gm_del_all (gm_set_all (gm_set_all [] (currentImage l)) (last (adds l)))
             (gm_keys (last (deletes l))))"

definition updateCurrentImage :: "LayeredMap \<Rightarrow> LayeredMap" where
  "updateCurrentImage l =
     (if isCurrentImageValid l then l
      else l\<lparr>currentImage := getCurrentImage l, isCurrentImageValid := True\<rparr>)"

definition lm_Snapshot :: "LayeredMap \<Rightarrow> LayeredMap" where
  "lm_Snapshot l =
     (let l = updateCurrentImage l
      in l\<lparr>adds := adds l @ [[]], deletes := deletes l @ [[]], layerHashCache := []\<rparr>)"

definition lm_get :: "LayeredMap \<Rightarrow> string \<Rightarrow> string option" where
  "lm_get l s = gm_get (currentImage l) s"

definition GetCurrentPaths :: "LayeredMap \<Rightarrow> (string, unit) gomap" where
  "GetCurrentPaths l = gm_set_all [] (map (\<lambda>f. (f, ())) (gm_keys (getCurrentImage l)))"

definition AddDelete :: "string \<Rightarrow> LayeredMap \<Rightarrow> unit res \<times> LayeredMap" where
  "AddDelete s l =
     (let l = l\<lparr>isCurrentImageValid := False\<rparr>
      in if deletes l = [] then (Inl (Panic ''index out of range''), l)
         else (Inr (), l\<lparr>deletes := butlast (deletes l) @ [gm_set (last (deletes l)) s ()]\<rparr>))"

definition lm_Add :: "hasher \<Rightarrow> string \<Rightarrow> LayeredMap \<Rightarrow> unit res \<times> LayeredMap" where
  "lm_Add hasher s l =
     (let l = l\<lparr>isCurrentImageValid := False\<rparr>;
          newV = (case gm_get (layerHashCache l) s of Some v \<Rightarrow> Inr v | None \<Rightarrow> hasher s)
      in case newV of
           Inl e \<Rightarrow> (Inl (Wrap ''Error creating hash'' e), l)
         | Inr v \<Rightarrow>
             if adds l = [] then (Inl (Panic ''index out of range''), l)
             else (Inr (), l\<lparr>adds := butlast (adds l) @ [gm_set (last (adds l)) s v]\<rparr>))"

definition CheckFileChange :: "hasher \<Rightarrow> string \<Rightarrow> LayeredMap \<Rightarrow> bool res \<times> LayeredMap" where
  "CheckFileChange hasher s l =
     (case hasher s of
        Inl e \<Rightarrow> (Inl e, l)
      | Inr newV \<Rightarrow>
          let l = l\<lparr>layerHashCache := gm_set (layerHashCache l) s newV\<rparr>
          in (Inr (lm_get l s \<noteq> Some newV), l))"

subsection \<open>The cache key of a layer\<close>

text \<open>\<open>encoding/json\<close> on the two maps of the newest layer: keys in sorted order, strings quoted with
  the escapes of Go's encoder (bytes above 127 pass through), a newline after each value, \<open>null\<close> for
  the nil maps of a layered map without layers. SHA-256 is an argument.\<close>

definition hex_digit :: "nat \<Rightarrow> char" where
  "hex_digit n = (if n < 10 then char_of (48 + n) else char_of (87 + n))"

definition json_char :: "char \<Rightarrow> string" where
  "json_char c =
     (let n = of_char c :: nat in
      if c = CHR 0x22 then [CHR 0x5C, CHR 0x22]
      else if c = CHR 0x5C then [CHR 0x5C, CHR 0x5C]
      else if n = 8 then [CHR 0x5C, CHR ''b'']
      else if n = 9 then [CHR 0x5C, CHR ''t'']
      else if n = 10 then [CHR 0x5C, CHR ''n'']
      else if n = 12 then [CHR 0x5C, CHR ''f'']
      else if n = 13 then [CHR 0x5C, CHR ''r'']
      else if n < 32 \<or> c = CHR ''<'' \<or> c = CHR ''>'' \<or> c = CHR ''&'' then
        [CHR 0x5C] @ ''u00'' @ [hex_digit (n div 16), hex_digit (n mod 16)]
      else [c])"

definition json_string :: "string \<Rightarrow> string" where
  "json_string s = [CHR 0x22] @ concat (map json_char s) @ [CHR 0x22]"

definition json_object :: "(string \<Rightarrow> string) \<Rightarrow> string list \<Rightarrow> string" where
  "json_object val keys =
     ''{'' @ join '','' (map (\<lambda>k. json_string k @ '':'' @ val k) (sort keys)) @ ''}''"

definition lm_Key :: "(string \<Rightarrow> string) \<Rightarrow> LayeredMap \<Rightarrow> string" where
  "lm_Key sha256 l =
     (let encAdds = (if adds l = [] then ''null''
                     else json_object (\<lambda>k. json_string (case gm_get (last (adds l)) k of Some v \<Rightarrow> v | None \<Rightarrow> []))
                            (gm_keys (last (adds l))));
          encDeletes = (if adds l = [] then ''null''
                        else json_object (\<lambda>_. ''{}'') (gm_keys (last (deletes l))))
      in sha256 (encAdds @ [CHR 0x0A] @ encDeletes @ [CHR 0x0A]))"

subsection \<open>Specification: the image as a partial function\<close>

type_synonym image = "string \<Rightarrow> string option"

definition apply_layer :: "(string, string) gomap \<times> (string, unit) gomap \<Rightarrow> image \<Rightarrow> image" where
  "apply_layer ad img =
     (\<lambda>p. if gm_has (snd ad) p then None
          else case gm_get (fst ad) p of Some v \<Rightarrow> Some v | None \<Rightarrow> img p)"

definition image_of :: "((string, string) gomap \<times> (string, unit) gomap) list \<Rightarrow> image" where
  "image_of ls = fold apply_layer ls Map.empty"

definition lm_layers :: "LayeredMap \<Rightarrow> ((string, string) gomap \<times> (string, unit) gomap) list" where
  "lm_layers l = zip (adds l) (deletes l)"

definition lm_image :: "LayeredMap \<Rightarrow> image" where
  "lm_image l = image_of (lm_layers l)"

definition lm_started :: "LayeredMap \<Rightarrow> bool" where
  "lm_started l \<longleftrightarrow> adds l \<noteq> []"

definition lm_pending :: "LayeredMap \<Rightarrow> string set" where
  "lm_pending l = (if deletes l = [] then {} else set (gm_keys (last (deletes l))))"

text \<open>The cached image is the merge of all layers but the newest; it may be marked valid only while
  the newest layer is empty.\<close>

definition lm_inv :: "LayeredMap \<Rightarrow> bool" where
  "lm_inv l \<longleftrightarrow>
     length (adds l) = length (deletes l) \<and>
     list_all gm_wf (adds l) \<and> list_all gm_wf (deletes l) \<and> gm_wf (currentImage l) \<and>
     gm_get (currentImage l) = image_of (butlast (lm_layers l)) \<and>
     (isCurrentImageValid l \<longrightarrow> adds l \<noteq> [] \<and> last (adds l) = [] \<and> last (deletes l) = [])"

lemma apply_layer_empty [simp]: "apply_layer ([], []) img = img"
  by (simp add: apply_layer_def)

lemma image_of_snoc [simp]: "image_of (ls @ [x]) = apply_layer x (image_of ls)"
  by (simp add: image_of_def)

lemma lm_layers_last:
  "lm_inv l \<Longrightarrow> adds l \<noteq> [] \<Longrightarrow>
   lm_layers l = butlast (lm_layers l) @ [(last (adds l), last (deletes l))]"
proof -
  assume inv: "lm_inv l" and ne: "adds l \<noteq> []"
  obtain as a where a: "adds l = as @ [a]" using ne by (cases "adds l" rule: rev_cases) auto
  moreover obtain ds d where d: "deletes l = ds @ [d]"
    using ne inv by (cases "deletes l" rule: rev_cases) (auto simp: lm_inv_def)
  moreover have "length as = length ds" using inv a d by (simp add: lm_inv_def)
  ultimately show ?thesis by (simp add: lm_layers_def)
qed

lemma lm_image_last:
  "lm_inv l \<Longrightarrow> adds l \<noteq> [] \<Longrightarrow>
   lm_image l = apply_layer (last (adds l), last (deletes l)) (gm_get (currentImage l))"
  unfolding lm_image_def by (subst lm_layers_last) (simp_all add: lm_inv_def)

lemma lm_image_unstarted: "lm_inv l \<Longrightarrow> adds l = [] \<Longrightarrow> lm_image l = gm_get (currentImage l)"
  by (simp add: lm_inv_def lm_image_def lm_layers_def image_of_def)

text \<open>The merge the code computes is the image of the specification.\<close>

lemma getCurrentImage_image: "lm_inv l \<Longrightarrow> gm_get (getCurrentImage l) = lm_image l"
proof (cases "adds l = []")
  case True
  then show "lm_inv l \<Longrightarrow> ?thesis" by (simp add: getCurrentImage_def lm_image_unstarted)
next
  case ne: False
  assume inv: "lm_inv l"
  show ?thesis
  proof (cases "isCurrentImageValid l")
    case True
    with inv ne show ?thesis by (simp add: getCurrentImage_def lm_image_last) (simp add: lm_inv_def)
  next
    case False
    have "gm_wf (last (adds l))" using inv ne by (simp add: lm_inv_def list_all_iff)
    moreover have "gm_wf (currentImage l)" using inv by (simp add: lm_inv_def)
    ultimately show ?thesis using inv ne False
      by (auto simp: getCurrentImage_def lm_image_last apply_layer_def gm_get_set_all_wf gm_keys_iff
          fun_eq_iff split: option.splits)
  qed
qed

lemma getCurrentImage_wf: "lm_inv l \<Longrightarrow> gm_wf (getCurrentImage l)"
  by (simp add: getCurrentImage_def lm_inv_def)

lemma gm_has_set_all_unit: "gm_has (gm_set_all m (map (\<lambda>f. (f, ())) ks)) k \<longleftrightarrow> gm_has m k \<or> k \<in> set ks"
  by (induction ks arbitrary: m) auto

lemma GetCurrentPaths_iff: "lm_inv l \<Longrightarrow> gm_has (GetCurrentPaths l) p \<longleftrightarrow> lm_image l p \<noteq> None"
  by (simp add: GetCurrentPaths_def gm_has_set_all_unit gm_keys_iff)
    (simp add: gm_has_def getCurrentImage_image)

lemma GetCurrentPaths_wf: "gm_wf (GetCurrentPaths l)"
  by (simp add: GetCurrentPaths_def)

subsection \<open>The operations keep the invariant and act on the image as specified\<close>

lemma NewLayeredMap_inv [simp]: "lm_inv NewLayeredMap" "lm_image NewLayeredMap = Map.empty"
  by (simp_all add: lm_inv_def NewLayeredMap_def lm_layers_def image_of_def lm_image_def fun_eq_iff)

lemma updateCurrentImage_image:
  assumes "lm_inv l"
  shows "gm_get (currentImage (updateCurrentImage l)) = lm_image l"
    and "gm_wf (currentImage (updateCurrentImage l))"
    and "isCurrentImageValid (updateCurrentImage l)"
    and "adds (updateCurrentImage l) = adds l" and "deletes (updateCurrentImage l) = deletes l"
proof -
  have "lm_image l = gm_get (currentImage l)" if "isCurrentImageValid l"
    using assms that by (simp add: lm_image_last lm_inv_def)
  then show "gm_get (currentImage (updateCurrentImage l)) = lm_image l"
    using assms by (simp add: updateCurrentImage_def getCurrentImage_image)
  show "gm_wf (currentImage (updateCurrentImage l))"
    using assms getCurrentImage_wf [OF assms] by (simp add: updateCurrentImage_def lm_inv_def)
qed (simp_all add: updateCurrentImage_def)

lemma lm_Snapshot_spec:
  assumes "lm_inv l"
  shows "lm_inv (lm_Snapshot l)" and "lm_image (lm_Snapshot l) = lm_image l"
    and "lm_started (lm_Snapshot l)" and "lm_pending (lm_Snapshot l) = {}"
    and "layerHashCache (lm_Snapshot l) = []" and "lm_get (lm_Snapshot l) = lm_image l"
proof -
  note u = updateCurrentImage_image [OF assms]
  have layers: "lm_layers (lm_Snapshot l) = lm_layers l @ [([], [])]"
    using assms by (simp add: lm_Snapshot_def lm_layers_def Let_def u lm_inv_def)
  then show image: "lm_image (lm_Snapshot l) = lm_image l" by (simp add: lm_image_def)
  have cur: "gm_get (currentImage (lm_Snapshot l)) = lm_image l"
    by (simp add: lm_Snapshot_def Let_def u)
  then show "lm_get (lm_Snapshot l) = lm_image l" by (simp add: lm_get_def fun_eq_iff)
  have "gm_wf (currentImage (lm_Snapshot l))" by (simp add: lm_Snapshot_def Let_def u)
  moreover have "list_all gm_wf (adds l)" "list_all gm_wf (deletes l)" "length (adds l) = length (deletes l)"
    using assms by (simp_all add: lm_inv_def)
  ultimately show "lm_inv (lm_Snapshot l)" using cur layers
    by (simp add: lm_inv_def lm_image_def) (simp add: lm_Snapshot_def Let_def u)
qed (simp_all add: lm_Snapshot_def Let_def lm_started_def lm_pending_def gm_keys_def)

definition lm_value :: "hasher \<Rightarrow> LayeredMap \<Rightarrow> string \<Rightarrow> string res" where
  "lm_value h l s = (case gm_get (layerHashCache l) s of Some v \<Rightarrow> Inr v | None \<Rightarrow> h s)"

lemma lm_Add_ok:
  assumes inv: "lm_inv l" and st: "lm_started l" and v: "lm_value h l s = Inr v"
  shows "fst (lm_Add h s l) = Inr ()"
    and "lm_inv (snd (lm_Add h s l))" and "lm_started (snd (lm_Add h s l))"
    and "lm_image (snd (lm_Add h s l)) =
           (if s \<in> lm_pending l then lm_image l else (lm_image l)(s \<mapsto> v))"
    and "lm_pending (snd (lm_Add h s l)) = lm_pending l"
    and "layerHashCache (snd (lm_Add h s l)) = layerHashCache l"
proof -
  let ?l = "snd (lm_Add h s l)"
  have eq: "lm_Add h s l =
      (Inr (), l\<lparr>isCurrentImageValid := False, adds := butlast (adds l) @ [gm_set (last (adds l)) s v]\<rparr>)"
    using st v by (auto simp: lm_Add_def lm_value_def lm_started_def Let_def)
  show "fst (lm_Add h s l) = Inr ()" "lm_started ?l" "layerHashCache ?l = layerHashCache l"
    "lm_pending ?l = lm_pending l"
    by (simp_all add: eq lm_started_def lm_pending_def)
  have ne: "adds l \<noteq> []" "deletes l \<noteq> []" using inv st by (auto simp: lm_started_def lm_inv_def)
  obtain as a where a: "adds l = as @ [a]" using ne by (cases "adds l" rule: rev_cases) auto
  obtain ds d where d: "deletes l = ds @ [d]" using ne by (cases "deletes l" rule: rev_cases) auto
  have len: "length as = length ds" using inv a d by (simp add: lm_inv_def)
  show inv': "lm_inv ?l" using inv a d len
    by (auto simp: eq lm_inv_def lm_layers_def list_all_iff)
  have "lm_started ?l" by (simp add: eq lm_started_def)
  then show "lm_image ?l = (if s \<in> lm_pending l then lm_image l else (lm_image l)(s \<mapsto> v))"
    using lm_image_last [OF inv ne(1)] lm_image_last [OF inv'] ne a d
    by (auto simp: eq lm_started_def apply_layer_def lm_pending_def gm_keys_iff fun_eq_iff)
qed

lemma lm_Add_error:
  assumes inv: "lm_inv l" and e: "lm_value h l s = Inl e"
  shows "fst (lm_Add h s l) = Inl (Wrap ''Error creating hash'' e)" and "lm_inv (snd (lm_Add h s l))"
    and "lm_image (snd (lm_Add h s l)) = lm_image l"
  using assms by (auto simp: lm_Add_def lm_value_def Let_def lm_inv_def lm_layers_def lm_image_def
      split: option.splits)

lemma AddDelete_ok:
  assumes inv: "lm_inv l" and st: "lm_started l"
  shows "fst (AddDelete s l) = Inr ()"
    and "lm_inv (snd (AddDelete s l))" and "lm_started (snd (AddDelete s l))"
    and "lm_image (snd (AddDelete s l)) = (lm_image l)(s := None)"
    and "lm_pending (snd (AddDelete s l)) = insert s (lm_pending l)"
    and "layerHashCache (snd (AddDelete s l)) = layerHashCache l"
proof -
  let ?l = "snd (AddDelete s l)"
  have ne: "adds l \<noteq> []" "deletes l \<noteq> []" using inv st by (auto simp: lm_started_def lm_inv_def)
  have eq: "AddDelete s l =
      (Inr (), l\<lparr>isCurrentImageValid := False, deletes := butlast (deletes l) @ [gm_set (last (deletes l)) s ()]\<rparr>)"
    using ne by (auto simp: AddDelete_def Let_def)
  show "fst (AddDelete s l) = Inr ()" "lm_started ?l" "layerHashCache ?l = layerHashCache l"
    using st by (simp_all add: eq lm_started_def)
  show "lm_pending ?l = insert s (lm_pending l)"
    using ne by (auto simp: eq lm_pending_def gm_keys_iff set_eq_iff)
  obtain as a where a: "adds l = as @ [a]" using ne by (cases "adds l" rule: rev_cases) auto
  obtain ds d where d: "deletes l = ds @ [d]" using ne by (cases "deletes l" rule: rev_cases) auto
  have len: "length as = length ds" using inv a d by (simp add: lm_inv_def)
  show inv': "lm_inv ?l" using inv a d len by (auto simp: eq lm_inv_def lm_layers_def)
  show "lm_image ?l = (lm_image l)(s := None)"
    using lm_image_last [OF inv ne(1)] lm_image_last [OF inv'] ne a d
    by (auto simp: eq apply_layer_def gm_keys_iff fun_eq_iff)
qed

lemma CheckFileChange_spec:
  assumes "h s = Inr v"
  shows "fst (CheckFileChange h s l) = Inr (lm_get l s \<noteq> Some v)"
    and "layerHashCache (snd (CheckFileChange h s l)) = gm_set (layerHashCache l) s v"
    and "lm_inv (snd (CheckFileChange h s l)) = lm_inv l"
    and "lm_image (snd (CheckFileChange h s l)) = lm_image l"
    and "lm_get (snd (CheckFileChange h s l)) = lm_get l"
    and "lm_started (snd (CheckFileChange h s l)) = lm_started l"
    and "lm_pending (snd (CheckFileChange h s l)) = lm_pending l"
  using assms
  by (simp_all add: CheckFileChange_def Let_def lm_get_def lm_inv_def lm_layers_def lm_image_def
      lm_started_def lm_pending_def fun_eq_iff)

lemma CheckFileChange_error: "h s = Inl e \<Longrightarrow> CheckFileChange h s l = (Inl e, l)"
  by (simp add: CheckFileChange_def)

subsection \<open>The interface of the snapshotter\<close>

text \<open>What the snapshotter relies on: a new layer starts without deletions and leaves the image as it
  is; adding a file records its hash unless the layer already deleted it; deleting removes it.\<close>

locale file_image =
  fixes image :: "'l \<Rightarrow> string \<Rightarrow> string option"
    and pending :: "'l \<Rightarrow> string set"
    and inv :: "'l \<Rightarrow> bool"
    and started :: "'l \<Rightarrow> bool"
    and val :: "hasher \<Rightarrow> 'l \<Rightarrow> string \<Rightarrow> string res"
    and snapshot :: "'l \<Rightarrow> 'l"
    and add :: "hasher \<Rightarrow> string \<Rightarrow> 'l \<Rightarrow> unit res \<times> 'l"
    and del :: "string \<Rightarrow> 'l \<Rightarrow> unit res \<times> 'l"
  assumes snapshot_inv: "inv l \<Longrightarrow> inv (snapshot l) \<and> started (snapshot l)"
    and snapshot_image: "inv l \<Longrightarrow> image (snapshot l) = image l \<and> pending (snapshot l) = {}"
    and add_ok: "inv l \<Longrightarrow> started l \<Longrightarrow> val h l s = Inr v \<Longrightarrow>
      fst (add h s l) = Inr () \<and> inv (snd (add h s l)) \<and> started (snd (add h s l)) \<and>
      image (snd (add h s l)) = (if s \<in> pending l then image l else (image l)(s \<mapsto> v)) \<and>
      pending (snd (add h s l)) = pending l \<and> (\<forall>g t. val g (snd (add h s l)) t = val g l t)"
    and del_ok: "inv l \<Longrightarrow> started l \<Longrightarrow>
      fst (del s l) = Inr () \<and> inv (snd (del s l)) \<and> started (snd (del s l)) \<and>
      image (snd (del s l)) = (image l)(s := None)"
begin

lemma add_all:
  assumes "inv l" and "started l" and "pending l = {}"
    and "\<And>f. f \<in> set fs \<Longrightarrow> val h l f = Inr (v f)"
  shows "fst (sfold (add h) fs l) = Inr () \<and> inv (snd (sfold (add h) fs l)) \<and>
    started (snd (sfold (add h) fs l)) \<and>
    image (snd (sfold (add h) fs l)) = (\<lambda>p. if p \<in> set fs then Some (v p) else image l p)"
  using assms
proof (induction fs arbitrary: l)
  case (Cons f fs)
  obtain r m where m: "add h f l = (r, m)" by (cases "add h f l")
  have step: "r = Inr ()" "inv m" "started m" "image m = (image l)(f \<mapsto> v f)" "pending m = {}"
    "\<And>g t. val g m t = val g l t"
    using add_ok [OF Cons.prems(1,2), of h f "v f"] Cons.prems(3) Cons.prems(4) [of f] m by auto
  then have "val h m g = Inr (v g)" if "g \<in> set fs" for g using Cons.prems(4) that by simp
  with Cons.IH [OF step(2,3,5)] step m show ?case by (auto simp: fun_eq_iff)
qed simp

lemma del_all:
  assumes "inv l" and "started l"
  shows "fst (sfold del ds l) = Inr () \<and> inv (snd (sfold del ds l)) \<and>
    image (snd (sfold del ds l)) = (\<lambda>p. if p \<in> set ds then None else image l p)"
  using assms
proof (induction ds arbitrary: l)
  case (Cons d ds)
  obtain r m where m: "del d l = (r, m)" by (cases "del d l")
  have step: "r = Inr ()" "inv m" "started m" "image m = (image l)(d := None)"
    using del_ok [OF Cons.prems, of d] m by auto
  with Cons.IH [OF step(2,3)] m show ?case by (auto simp: fun_eq_iff)
qed simp

text \<open>One whole layer, as both kinds of snapshot record it.\<close>

lemma layer_image:
  assumes "inv l" and "\<And>f. f \<in> set fs \<Longrightarrow> val h (snapshot l) f = Inr (v f)"
    and "sfold (add h) fs (snapshot l) = (r, m)" and "sfold del ds m = (r', m')"
  shows "r = Inr () \<and> r' = Inr () \<and> inv m' \<and>
    image m' = (\<lambda>p. if p \<in> set ds then None else if p \<in> set fs then Some (v p) else image l p)"
proof -
  have "r = Inr () \<and> inv m \<and> started m \<and> image m = (\<lambda>p. if p \<in> set fs then Some (v p) else image l p)"
    using add_all [of "snapshot l" fs h v] snapshot_inv [OF assms(1)] snapshot_image [OF assms(1)]
      assms(2,3) by (simp add: fun_eq_iff)
  with del_all [of m ds] assms(4) show ?thesis by (simp add: fun_eq_iff)
qed

end

interpretation lmap: file_image lm_image lm_pending lm_inv lm_started lm_value lm_Snapshot lm_Add AddDelete
proof unfold_locales
  fix l assume "lm_inv l"
  then show "lm_inv (lm_Snapshot l) \<and> lm_started (lm_Snapshot l)"
    "lm_image (lm_Snapshot l) = lm_image l \<and> lm_pending (lm_Snapshot l) = {}"
    by (simp_all add: lm_Snapshot_spec)
next
  fix l h s v assume "lm_inv l" "lm_started l" "lm_value h l s = Inr v"
  then show "fst (lm_Add h s l) = Inr () \<and> lm_inv (snd (lm_Add h s l)) \<and> lm_started (snd (lm_Add h s l)) \<and>
      lm_image (snd (lm_Add h s l)) = (if s \<in> lm_pending l then lm_image l else (lm_image l)(s \<mapsto> v)) \<and>
      lm_pending (snd (lm_Add h s l)) = lm_pending l \<and>
      (\<forall>g t. lm_value g (snd (lm_Add h s l)) t = lm_value g l t)"
    using lm_Add_ok [of l h s v] by (simp add: lm_value_def)
next
  fix l s assume "lm_inv l" "lm_started l"
  then show "fst (AddDelete s l) = Inr () \<and> lm_inv (snd (AddDelete s l)) \<and>
      lm_started (snd (AddDelete s l)) \<and> lm_image (snd (AddDelete s l)) = (lm_image l)(s := None)"
    using AddDelete_ok [of l s] by simp
qed

subsection \<open>Reachable layered maps\<close>

text \<open>The states a client can bring a new layered map into, with the image it should then hold.\<close>

inductive lm_reach :: "hasher \<Rightarrow> LayeredMap \<Rightarrow> bool" for h where
  new: "lm_reach h NewLayeredMap"
| snapshot: "lm_reach h l \<Longrightarrow> lm_reach h (lm_Snapshot l)"
| add: "lm_reach h l \<Longrightarrow> lm_reach h (snd (lm_Add h s l))"
| delete: "lm_reach h l \<Longrightarrow> lm_reach h (snd (AddDelete s l))"
| check: "lm_reach h l \<Longrightarrow> lm_reach h (snd (CheckFileChange h s l))"

lemma lm_Add_inv: "lm_inv l \<Longrightarrow> lm_inv (snd (lm_Add h s l))"
proof (cases "lm_value h l s")
  case (Inl e)
  then show "lm_inv l \<Longrightarrow> ?thesis" by (simp add: lm_Add_error)
next
  case (Inr v)
  show "lm_inv l \<Longrightarrow> ?thesis"
  proof (cases "lm_started l")
    case True
    with Inr show "lm_inv l \<Longrightarrow> ?thesis" by (simp add: lm_Add_ok)
  next
    case False
    with Inr show "lm_inv l \<Longrightarrow> ?thesis"
      by (auto simp: lm_Add_def lm_value_def lm_started_def Let_def lm_inv_def lm_layers_def
          split: option.splits)
  qed
qed

lemma AddDelete_inv: "lm_inv l \<Longrightarrow> lm_inv (snd (AddDelete s l))"
proof (cases "lm_started l")
  case False
  then show "lm_inv l \<Longrightarrow> ?thesis"
    by (auto simp: AddDelete_def Let_def lm_started_def lm_inv_def lm_layers_def)
qed (simp add: AddDelete_ok)

lemma lm_reach_inv: "lm_reach h l \<Longrightarrow> lm_inv l"
proof (induction rule: lm_reach.induct)
  case (check l s)
  then show ?case by (cases "h s") (simp_all add: CheckFileChange_error CheckFileChange_spec)
qed (simp_all add: lm_Snapshot_spec lm_Add_inv AddDelete_inv)

lemma lm_inv_last_wf:
  assumes "lm_inv l" and "lm_started l"
  shows "gm_wf (last (adds l))" and "gm_wf (last (deletes l))"
proof -
  have "adds l \<noteq> []" "deletes l \<noteq> []" using assms by (auto simp: lm_inv_def lm_started_def)
  with assms(1) show "gm_wf (last (adds l))" "gm_wf (last (deletes l))"
    by (simp_all add: lm_inv_def list_all_iff)
qed

lemma json_object_cong:
  assumes "set ks = set ks'" and "distinct ks" and "distinct ks'" and "\<And>k. k \<in> set ks \<Longrightarrow> f k = g k"
  shows "json_object f ks = json_object g ks'"
proof -
  have "sort ks = sort ks'" using assms(1-3) by (intro sort_set_eq)
  then show ?thesis using assms(1,4) unfolding json_object_def
    by (auto intro!: arg_cong [where f = "join '',''"])
qed

subsection \<open>Properties\<close>


definition demo_hasher :: hasher where
  "demo_hasher s = (if s = ''/gone'' then Inl (Sys ENOENT) else Inr (''h:'' @ s))"

definition demo_map :: LayeredMap where
  "demo_map =
     snd (AddDelete ''/a'' (lm_Snapshot (snd (lm_Add demo_hasher ''/b'' (snd (lm_Add demo_hasher ''/a''
       (lm_Snapshot NewLayeredMap)))))))"


text \<open>A file counts as changed exactly if its hash differs from the one the image records for it
  (or the image has none), and \<open>Add\<close> then records the very hash that was compared, whatever the hasher
  says by then.\<close>

theorem check_then_add:
  assumes "lm_reach h l" and "h s = Inr v"
  shows "fst (CheckFileChange h s (lm_Snapshot l)) = Inr (lm_image l s \<noteq> Some v) \<and>
    lm_image (snd (lm_Add h' s (snd (CheckFileChange h s (lm_Snapshot l))))) = (lm_image l)(s \<mapsto> v)"
proof -
  note inv = lm_reach_inv [OF assms(1)]
  let ?c = "snd (CheckFileChange h s (lm_Snapshot l))"
  note c = CheckFileChange_spec [where h = h, OF assms(2), of "lm_Snapshot l"]
  note n = lm_Snapshot_spec [OF inv]
  have "fst (CheckFileChange h s (lm_Snapshot l)) = Inr (lm_image l s \<noteq> Some v)" by (simp add: c n)
  moreover have "lm_inv ?c" "lm_started ?c" "lm_value h' ?c s = Inr v"
    by (simp_all add: c n lm_value_def)
  ultimately show ?thesis by (simp add: lm_Add_ok(4) c n)
qed

theorem check_then_add_witness:
  "fst (CheckFileChange demo_hasher ''/b'' (lm_Snapshot demo_map)) = Inr False"
proof -
  have r: "lm_reach demo_hasher demo_map"
    unfolding demo_map_def by (intro lm_reach.intros)
  have h: "demo_hasher ''/b'' = Inr ''h:/b''" by code_simp
  have "lm_image demo_map ''/b'' = Some ''h:/b''" by code_simp
  with check_then_add [OF r h, of demo_hasher] show ?thesis by simp
qed

text \<open>The key of a layer depends only on which files the newest layer adds, with which hashes, and
  which it deletes, not on the order in which they were recorded.\<close>

theorem lm_Key_order_independent:
  assumes "lm_reach h l" and "lm_reach h l'" and "lm_started l" and "lm_started l'"
    and "gm_get (last (adds l)) = gm_get (last (adds l'))"
    and "gm_get (last (deletes l)) = gm_get (last (deletes l'))"
  shows "lm_Key sha256 l = lm_Key sha256 l'"
proof -
  have "lm_inv l" "lm_inv l'" using assms(1,2) lm_reach_inv by auto
  then have wf: "gm_wf (last (adds l))" "gm_wf (last (adds l'))" "gm_wf (last (deletes l))"
    "gm_wf (last (deletes l'))"
    using assms(3,4) by (simp_all add: lm_inv_last_wf)
  have keys: "set (gm_keys m) = set (gm_keys n)" if "gm_get m = gm_get n" for m n :: "(string, 'b) gomap"
    using that by (auto simp: gm_keys_iff gm_has_def)
  have "json_object (\<lambda>k. json_string (case gm_get (last (adds l)) k of Some v \<Rightarrow> v | None \<Rightarrow> []))
          (gm_keys (last (adds l))) =
        json_object (\<lambda>k. json_string (case gm_get (last (adds l')) k of Some v \<Rightarrow> v | None \<Rightarrow> []))
          (gm_keys (last (adds l')))"
    using keys [OF assms(5)] wf assms(5) by (intro json_object_cong) (simp_all add: gm_wf_keys)
  moreover have "json_object (\<lambda>_. ''{}'') (gm_keys (last (deletes l))) =
        json_object (\<lambda>_. ''{}'') (gm_keys (last (deletes l')))"
    using keys [OF assms(6)] wf by (intro json_object_cong) (simp_all add: gm_wf_keys)
  ultimately show ?thesis using assms(3,4) by (simp add: lm_Key_def lm_started_def)
qed

theorem lm_Key_order_independent_witness:
  "lm_Key (\<lambda>x. x) (snd (lm_Add demo_hasher ''/b'' (snd (lm_Add demo_hasher ''/a'' (lm_Snapshot NewLayeredMap))))) =
   lm_Key (\<lambda>x. x) (snd (lm_Add demo_hasher ''/a'' (snd (lm_Add demo_hasher ''/b'' (lm_Snapshot NewLayeredMap)))))"
    (is "lm_Key _ ?l = lm_Key _ ?l'")
proof (rule lm_Key_order_independent)
  show "lm_reach demo_hasher ?l" "lm_reach demo_hasher ?l'" by (intro lm_reach.intros)+
  show "lm_started ?l" "lm_started ?l'" by code_simp+
  have "last (adds ?l) = [(''/a'', ''h:/a''), (''/b'', ''h:/b'')]"
    "last (adds ?l') = [(''/b'', ''h:/b''), (''/a'', ''h:/a'')]" by code_simp+
  then show "gm_get (last (adds ?l)) = gm_get (last (adds ?l'))" by (auto simp: gm_get_def fun_eq_iff)
  have "last (deletes ?l) = []" "last (deletes ?l') = []" by code_simp+
  then show "gm_get (last (deletes ?l)) = gm_get (last (deletes ?l'))" by simp
qed

end
