(* ===== verification/Go_Filepath.thy ===== *)
theory Go_Filepath
  imports Go_Strings
begin

text \<open>
  Go's \<open>path/filepath\<close> on Unix: \<open>Clean\<close>, \<open>Join\<close>, \<open>Split\<close>, \<open>Dir\<close>, \<open>Base\<close>, \<open>IsAbs\<close>, \<open>Rel\<close> and
  \<open>Match\<close>. Every function is lexical and total but for the error results of \<open>Rel\<close> and \<open>Match\<close>.
  A cleaned absolute path is \<open>abs_path cs\<close> for a list \<open>cs\<close> of proper components; the lemmas reduce
  the string functions to list operations on those components.
\<close>

subsection \<open>Clean\<close>

definition is_abs :: "string \<Rightarrow> bool" where
  "is_abs p = has_prefix p ''/''"

text \<open>One component of the path against the stack of components kept so far (topmost first).\<close>

definition clean_step :: "bool \<Rightarrow> string \<Rightarrow> string list \<Rightarrow> string list" where
  "clean_step rooted c out =
     (if c = [] \<or> c = ''.'' then out
      else if c = ''..'' then
        (case out of
           [] \<Rightarrow> if rooted then [] else [''..'']
         | t # ts \<Rightarrow> if t = ''..'' then ''..'' # out else ts)
      else c # out)"

definition clean_comps :: "bool \<Rightarrow> string list \<Rightarrow> string list" where
  "clean_comps rooted cs = rev (fold (clean_step rooted) cs [])"

definition abs_path :: "string list \<Rightarrow> string" where
  "abs_path cs = ''/'' @ join ''/'' cs"

definition clean :: "string \<Rightarrow> string" where
  "clean p =
     (if p = [] then ''.''
      else let cs = clean_comps (is_abs p) (split_on CHR ''/'' p)
           in if is_abs p then abs_path cs else if cs = [] then ''.'' else join ''/'' cs)"

subsection \<open>Join, Split, Dir, Base\<close>

fun join_path :: "string list \<Rightarrow> string" where
  "join_path [] = []"
| "join_path (e # es) = (if e = [] then join_path es else clean (join ''/'' (e # es)))"

definition split_path :: "string \<Rightarrow> string \<times> string" where
  "split_path p =
     (let file = rev (takeWhile (\<lambda>c. c \<noteq> CHR ''/'') (rev p))
      in (take (length p - length file) p, file))"

definition dir :: "string \<Rightarrow> string" where
  "dir p = clean (fst (split_path p))"

definition base :: "string \<Rightarrow> string" where
  "base p =
     (if p = [] then ''.''
      else let q = rev (dropWhile (\<lambda>c. c = CHR ''/'') (rev p));
               f = snd (split_path q)
           in if f = [] then ''/'' else f)"

subsection \<open>Rel\<close>

definition rel_comps :: "string \<Rightarrow> string list" where
  "rel_comps p =
     (if p = [] \<or> p = ''/'' then []
      else if is_abs p then split_on CHR ''/'' (tl p) else split_on CHR ''/'' p)"

fun rel_strip :: "string list \<Rightarrow> string list \<Rightarrow> (string list \<times> string list) option" where
  "rel_strip (b # bs) (t # ts) =
     (if b = t then rel_strip bs ts else if b = ''..'' then None else Some (b # bs, t # ts))"
| "rel_strip bs ts = Some (bs, ts)"

definition rel :: "string \<Rightarrow> string \<Rightarrow> string res" where
  "rel basepath targpath =
     (let b = clean basepath; t = clean targpath
      in if t = b then Inr ''.''
         else let b' = (if b = ''.'' then [] else b)
              in if is_abs b' \<noteq> is_abs t then Inl (Msg ''Rel: cannot make path relative'')
                 else (case rel_strip (rel_comps b') (rel_comps t) of
                         None \<Rightarrow> Inl (Msg ''Rel: cannot make path relative'')
                       | Some (bs, ts) \<Rightarrow> Inr (join ''/'' (map (\<lambda>_. ''..'') bs @ ts))))"

subsection \<open>Match\<close>

text \<open>\<open>scanChunk\<close>: leading stars, then everything up to the next star outside a bracket.\<close>

fun scan_inner :: "bool \<Rightarrow> string \<Rightarrow> string \<times> string" where
  "scan_inner inrange [] = ([], [])"
| "scan_inner inrange (c # cs) =
     (if c = CHR 0x5C then
        (case cs of
           [] \<Rightarrow> ([c], [])
         | d # ds \<Rightarrow> (let (a, b) = scan_inner inrange ds in (c # d # a, b)))
      else if c = CHR ''*'' \<and> \<not> inrange then ([], c # cs)
      else (let r = (if c = CHR ''['' then True else if c = CHR '']'' then False else inrange);
                (a, b) = scan_inner r cs
            in (c # a, b)))"

definition scan_chunk :: "string \<Rightarrow> bool \<times> string \<times> string" where
  "scan_chunk p =
     (let q = dropWhile (\<lambda>c. c = CHR ''*'') p;
          (chunk, rest) = scan_inner False q
      in (length q < length p, chunk, rest))"

text \<open>\<open>getEsc\<close>: a possibly escaped character of a bracket; the rest of the chunk must not be empty.\<close>

definition get_esc :: "string \<Rightarrow> (char \<times> string) option" where
  "get_esc chunk =
     (case chunk of
        [] \<Rightarrow> None
      | c # cs \<Rightarrow>
          if c = CHR ''-'' \<or> c = CHR '']'' then None
          else if c = CHR 0x5C then
            (case cs of [] \<Rightarrow> None | d # ds \<Rightarrow> if ds = [] then None else Some (d, ds))
          else if cs = [] then None else Some (c, cs))"

text \<open>The ranges of a bracket, up to its closing character: whether one of them holds the
  character, and the rest of the chunk. The fuel is the length of the chunk, which every range
  shortens.\<close>

fun match_ranges :: "nat \<Rightarrow> bool \<Rightarrow> char \<Rightarrow> string \<Rightarrow> (bool \<times> string) option" where
  "match_ranges 0 started r chunk = None"
| "match_ranges (Suc n) started r chunk =
     (case chunk of
        c # cs \<Rightarrow>
          if c = CHR '']'' \<and> started then Some (False, cs)
          else (case get_esc chunk of
                  None \<Rightarrow> None
                | Some (lo, rest) \<Rightarrow>
                    (case (if hd rest = CHR ''-'' then get_esc (tl rest) else Some (lo, rest)) of
                       None \<Rightarrow> None
                     | Some (hi, rest') \<Rightarrow>
                         map_option (\<lambda>(m, t). (m \<or> (lo \<le> r \<and> r \<le> hi), t))
                           (match_ranges n True r rest')))
      | [] \<Rightarrow> None)"

text \<open>\<open>matchChunk\<close>: the unmatched rest of the name on a match; once the name is known not to match
  (\<open>failed\<close>), the rest of the chunk is still read to report a malformed pattern.\<close>

fun match_chunk :: "nat \<Rightarrow> bool \<Rightarrow> string \<Rightarrow> string \<Rightarrow> string option res" where
  "match_chunk n failed [] s = Inr (if failed then None else Some s)"
| "match_chunk 0 failed (c # cs) s = Inr None"
| "match_chunk (Suc n) failed (c # cs) s =
     (let failed' = (failed \<or> s = []) in
      if c = CHR ''['' then
        (let r = (if failed' then CHR 0x00 else hd s);
             s' = (if failed' then s else tl s);
             negated = (cs \<noteq> [] \<and> hd cs = CHR ''^'');
             cs' = (if negated then tl cs else cs)
         in (case match_ranges (Suc (length cs')) False r cs' of
               None \<Rightarrow> Inl (Msg ''syntax error in pattern'')
             | Some (m, rest) \<Rightarrow> match_chunk n (failed' \<or> m = negated) rest s'))
      else if c = CHR ''?'' then
        (if failed' then match_chunk n True cs s
         else match_chunk n (hd s = CHR ''/'') cs (tl s))
      else if c = CHR 0x5C then
        (case cs of
           [] \<Rightarrow> Inl (Msg ''syntax error in pattern'')
         | d # ds \<Rightarrow> if failed' then match_chunk n True ds s
                     else match_chunk n (d \<noteq> hd s) ds (tl s))
      else
        (if failed' then match_chunk n True cs s
         else match_chunk n (c \<noteq> hd s) cs (tl s)))"

definition do_chunk :: "string \<Rightarrow> string \<Rightarrow> string option res" where
  "do_chunk chunk s = match_chunk (length chunk) False chunk s"

text \<open>The loop that lets a star swallow characters of the name other than the separator.\<close>

fun star_match :: "string \<Rightarrow> bool \<Rightarrow> string \<Rightarrow> string option res" where
  "star_match chunk lastchunk [] = Inr None"
| "star_match chunk lastchunk (c # cs) =
     (if c = CHR ''/'' then Inr None
      else (case do_chunk chunk cs of
              Inl e \<Rightarrow> Inl e
            | Inr None \<Rightarrow> star_match chunk lastchunk cs
            | Inr (Some t) \<Rightarrow>
                if lastchunk \<and> t \<noteq> [] then star_match chunk lastchunk cs else Inr (Some t)))"

text \<open>The rest of a pattern that cannot match any more is checked for syntax.\<close>

fun check_rest :: "nat \<Rightarrow> string \<Rightarrow> bool res" where
  "check_rest 0 p = Inr False"
| "check_rest (Suc n) p =
     (if p = [] then Inr False
      else (case scan_chunk p of
              (_, chunk, rest) \<Rightarrow> rbind (do_chunk chunk []) (\<lambda>_. check_rest n rest)))"

text \<open>A chunk that matched is accepted unless it is the last one and left part of the name.\<close>

definition accept :: "string option \<Rightarrow> string \<Rightarrow> string option" where
  "accept r rest = (case r of None \<Rightarrow> None | Some t \<Rightarrow> if t = [] \<or> rest \<noteq> [] then Some t else None)"

fun match_fuel :: "nat \<Rightarrow> string \<Rightarrow> string \<Rightarrow> bool res" where
  "match_fuel 0 p name = Inr (name = [])"
| "match_fuel (Suc n) p name =
     (if p = [] then Inr (name = [])
      else (case scan_chunk p of
              (star, chunk, rest) \<Rightarrow>
                if star \<and> chunk = [] then Inr (CHR ''/'' \<notin> set name)
                else rbind (do_chunk chunk name) (\<lambda>r.
                  case accept r rest of
                    Some t \<Rightarrow> match_fuel n rest t
                  | None \<Rightarrow>
                      if star then
                        rbind (star_match chunk (rest = []) name) (\<lambda>r'.
                          case r' of Some t \<Rightarrow> match_fuel n rest t | None \<Rightarrow> check_rest n rest)
                      else check_rest n rest)))"

text \<open>\<open>filepath.Match\<close>. Every round of its loop consumes at least one character of the pattern, so
  the length of the pattern is enough fuel.\<close>

definition match :: "string \<Rightarrow> string \<Rightarrow> bool res" where
  "match pattern name = match_fuel (length pattern) pattern name"

subsection \<open>Proper components\<close>

definition comp_ok :: "string \<Rightarrow> bool" where
  "comp_ok c \<longleftrightarrow> c \<noteq> [] \<and> c \<noteq> ''.'' \<and> c \<noteq> ''..'' \<and> CHR ''/'' \<notin> set c"

abbreviation comps_ok :: "string list \<Rightarrow> bool" where
  "comps_ok cs \<equiv> list_all comp_ok cs"

text \<open>The components of the cleaned form of an absolute path.\<close>

definition abs_comps :: "string \<Rightarrow> string list" where
  "abs_comps p = clean_comps True (split_on CHR ''/'' p)"

lemma is_abs_abs_path [simp]: "is_abs (abs_path cs)"
  by (simp add: is_abs_def abs_path_def)

lemma abs_path_neq [simp]: "abs_path cs \<noteq> []" "abs_path cs \<noteq> ''.''"
  by (simp_all add: abs_path_def)

lemma abs_path_Nil [simp]: "abs_path [] = ''/''"
  by (simp add: abs_path_def)

lemma split_on_abs_path:
  "comps_ok cs \<Longrightarrow> split_on CHR ''/'' (abs_path cs) = [] # (if cs = [] then [[]] else cs)"
  by (auto simp: abs_path_def comp_ok_def list_all_iff intro!: split_on_join)

lemma clean_step_ok [simp]: "comp_ok c \<Longrightarrow> clean_step r c out = c # out"
  by (simp add: clean_step_def comp_ok_def)

lemma clean_step_skip [simp]: "clean_step r [] out = out"
  by (simp add: clean_step_def)

lemma fold_clean_step_ok: "comps_ok cs \<Longrightarrow> fold (clean_step r) cs out = rev cs @ out"
  by (induction cs arbitrary: out) auto

lemma clean_step_rooted_keeps:
  "comps_ok out \<Longrightarrow> CHR ''/'' \<notin> set c \<Longrightarrow> comps_ok (clean_step True c out)"
  by (auto simp: clean_step_def comp_ok_def split: list.splits)

lemma fold_clean_step_rooted_ok:
  "comps_ok out \<Longrightarrow> (\<And>c. c \<in> set cs \<Longrightarrow> CHR ''/'' \<notin> set c) \<Longrightarrow>
   comps_ok (fold (clean_step True) cs out)"
proof (induction cs arbitrary: out)
  case (Cons c cs)
  then show ?case by (simp add: clean_step_rooted_keeps)
qed simp

lemma abs_comps_ok [simp]: "comps_ok (abs_comps p)"
  unfolding abs_comps_def clean_comps_def list_all_rev
  by (rule fold_clean_step_rooted_ok) (auto dest: split_on_no_sep_in)

lemma clean_abs: "is_abs p \<Longrightarrow> clean p = abs_path (abs_comps p)"
  by (auto simp: clean_def abs_comps_def is_abs_def)

lemma abs_comps_abs_path [simp]: "comps_ok cs \<Longrightarrow> abs_comps (abs_path cs) = cs"
  by (auto simp: abs_comps_def clean_comps_def split_on_abs_path fold_clean_step_ok)

lemma clean_abs_path [simp]: "comps_ok cs \<Longrightarrow> clean (abs_path cs) = abs_path cs"
  by (simp add: clean_abs)

lemma abs_path_inj: "comps_ok cs \<Longrightarrow> comps_ok ds \<Longrightarrow> abs_path cs = abs_path ds \<longleftrightarrow> cs = ds"
  by (metis abs_comps_abs_path)

lemma abs_path_eq_root [simp]: "comps_ok cs \<Longrightarrow> abs_path cs = ''/'' \<longleftrightarrow> cs = []"
  using abs_path_inj [of cs "[]"] by simp

lemma clean_root [simp]: "clean ''/'' = ''/''"
  using clean_abs_path [of "[]"] by simp

lemma is_abs_clean [simp]: "is_abs p \<Longrightarrow> is_abs (clean p)"
  by (simp add: clean_abs)

lemma clean_idem_abs: "is_abs p \<Longrightarrow> clean (clean p) = clean p"
  by (simp add: clean_abs)

subsection \<open>Clean is idempotent\<close>

text \<open>A cleaned relative path is a run of \<open>..\<close> followed by proper components; on the stack the run
  is at the bottom.\<close>

definition rel_stack :: "string list \<Rightarrow> bool" where
  "rel_stack out \<longleftrightarrow> (\<exists>cs k. out = cs @ replicate k ''..'' \<and> comps_ok cs)"

lemma rel_stack_step:
  assumes "rel_stack out" and "CHR ''/'' \<notin> set c"
  shows "rel_stack (clean_step False c out)"
proof -
  obtain cs k where out: "out = cs @ replicate k ''..''" and ok: "comps_ok cs"
    using assms(1) by (auto simp: rel_stack_def)
  consider "c = [] \<or> c = ''.''" | "c = ''..''" | "comp_ok c"
    using assms(2) by (auto simp: comp_ok_def)
  then show ?thesis
  proof cases
    case 1
    then show ?thesis using assms(1) by (simp add: clean_step_def)
  next
    case 3
    with ok show ?thesis by (auto simp: rel_stack_def out intro: exI [of _ "c # cs"])
  next
    case 2
    show ?thesis
    proof (cases cs)
      case Nil
      have "clean_step False c out = replicate (Suc k) ''..''"
        using 2 Nil out by (cases k) (auto simp: clean_step_def)
      then have "clean_step False c out = [] @ replicate (Suc k) ''..'' \<and> comps_ok []" by simp
      then show ?thesis unfolding rel_stack_def by blast
    next
      case (Cons d ds)
      with ok have "d \<noteq> ''..''" by (auto simp: comp_ok_def)
      with 2 Cons out have "clean_step False c out = ds @ replicate k ''..''"
        by (simp add: clean_step_def)
      with ok Cons show ?thesis by (auto simp: rel_stack_def)
    qed
  qed
qed

lemma rel_stack_fold:
  "rel_stack out \<Longrightarrow> (\<And>c. c \<in> set cs \<Longrightarrow> CHR ''/'' \<notin> set c) \<Longrightarrow>
   rel_stack (fold (clean_step False) cs out)"
proof (induction cs arbitrary: out)
  case (Cons c cs)
  then show ?case by (simp add: rel_stack_step)
qed simp

lemma fold_dotdot: "fold (clean_step False) (replicate k ''..'') (replicate j ''..'') = replicate (k + j) ''..''"
proof (induction k arbitrary: j)
  case (Suc k)
  have "clean_step False ''..'' (replicate j ''..'') = replicate (Suc j) ''..''"
    by (cases j) (auto simp: clean_step_def)
  with Suc [of "Suc j"] show ?case by simp
qed simp

lemma rel_stack_stable: "rel_stack out \<Longrightarrow> fold (clean_step False) (rev out) [] = out"
proof -
  assume "rel_stack out"
  then obtain cs k where "out = cs @ replicate k ''..''" "comps_ok cs"
    unfolding rel_stack_def by blast
  with fold_dotdot [of k 0] show ?thesis by (simp add: fold_clean_step_ok)
qed

lemma rel_stack_no_sep:
  assumes "rel_stack out" and "c \<in> set out"
  shows "CHR ''/'' \<notin> set c \<and> c \<noteq> []"
proof -
  obtain cs k where out: "out = cs @ replicate k ''..''" and ok: "comps_ok cs"
    using assms(1) unfolding rel_stack_def by blast
  from assms(2) out have "c \<in> set cs \<or> c = ''..''" by auto
  then show ?thesis
  proof
    assume "c \<in> set cs"
    with ok have "comp_ok c" by (auto simp: list_all_iff)
    then show ?thesis by (simp add: comp_ok_def)
  qed simp
qed

lemma clean_idem [simp]: "clean (clean p) = clean p"
proof (cases "is_abs p \<or> p = []")
  case True
  then show ?thesis
    by (auto simp: clean_idem_abs) (simp add: clean_def is_abs_def clean_comps_def clean_step_def)
next
  case False
  define out where "out = fold (clean_step False) (split_on CHR ''/'' p) []"
  have st: "rel_stack out" unfolding out_def
    by (rule rel_stack_fold) (auto simp: rel_stack_def dest: split_on_no_sep_in)
  have p: "clean p = (if out = [] then ''.'' else join ''/'' (rev out))"
    using False by (simp add: clean_def clean_comps_def out_def)
  show ?thesis
  proof (cases "out = []")
    case True
    with p show ?thesis by (simp add: clean_def is_abs_def clean_comps_def clean_step_def)
  next
    case ne: False
    let ?q = "join ''/'' (rev out)"
    have sp: "split_on CHR ''/'' ?q = rev out"
      using ne rel_stack_no_sep [OF st] by (intro split_on_join) auto
    obtain c cs where c: "rev out = c # cs" using ne by (cases "rev out") auto
    then have "c \<in> set out" by (metis list.set_intros(1) set_rev)
    with rel_stack_no_sep [OF st] obtain x y where "c = x # y" "x \<noteq> CHR ''/''"
      by (cases c) fastforce+
    with c have "?q \<noteq> [] \<and> \<not> is_abs ?q" by (cases cs) (auto simp: is_abs_def)
    then show ?thesis using ne p sp rel_stack_stable [OF st] by (simp add: clean_def clean_comps_def)
  qed
qed

subsection \<open>Dir, Base, Join and Rel on component lists\<close>

lemma split_on_append: "split_on c (a @ c # b) = split_on c a @ split_on c b"
proof (induction a)
  case (Cons x xs)
  obtain w ws where "split_on c xs = w # ws" by (cases "split_on c xs") auto
  with Cons show ?case by simp
qed simp

lemma join_snoc: "ws \<noteq> [] \<Longrightarrow> join sep (ws @ [w]) = join sep ws @ sep @ w"
proof (induction ws)
  case (Cons v vs)
  then show ?case by (cases vs) auto
qed simp

lemma abs_path_snoc: "abs_path (cs @ [c]) = (if cs = [] then ''/'' else abs_path cs @ ''/'') @ c"
  by (simp add: abs_path_def join_snoc)

lemma split_path_sep: "CHR ''/'' \<notin> set f \<Longrightarrow> split_path (a @ ''/'' @ f) = (a @ ''/'', f)"
proof -
  assume "CHR ''/'' \<notin> set f"
  then have "takeWhile (\<lambda>c. c \<noteq> CHR ''/'') (rev f @ CHR ''/'' # rev a) = rev f"
    by (subst takeWhile_append2) auto
  then show ?thesis by (simp add: split_path_def Let_def)
qed

lemma split_path_no_sep: "CHR ''/'' \<notin> set f \<Longrightarrow> split_path f = ([], f)"
proof -
  assume "CHR ''/'' \<notin> set f"
  then have tw: "takeWhile (\<lambda>c. c \<noteq> CHR ''/'') (rev f) = rev f" by (auto simp: takeWhile_eq_all_conv)
  show ?thesis unfolding split_path_def Let_def tw by simp
qed

lemma split_path_abs_path [path_simps]:
  "comp_ok c \<Longrightarrow> split_path (abs_path (cs @ [c])) = (if cs = [] then ''/'' else abs_path cs @ ''/'', c)"
  using split_path_sep [of c "[]"] split_path_sep [of c "abs_path cs"]
  by (auto simp: abs_path_snoc comp_ok_def)

lemma split_path_root [path_simps]: "split_path ''/'' = (''/'', [])"
  using split_path_sep [of "[]" "[]"] by simp

lemma clean_trailing_sep [path_simps]: "comps_ok cs \<Longrightarrow> clean (abs_path cs @ ''/'') = abs_path cs"
proof -
  assume ok: "comps_ok cs"
  have "abs_comps (abs_path cs @ ''/'') = cs"
    using ok split_on_append [of "CHR ''/''" "abs_path cs" "[]"]
    by (simp add: abs_comps_def clean_comps_def split_on_abs_path fold_clean_step_ok)
  moreover have "is_abs (abs_path cs @ ''/'')" by (simp add: is_abs_def abs_path_def)
  ultimately show ?thesis by (simp add: clean_abs)
qed

lemma dir_abs_path [path_simps]: "comps_ok (cs @ [c]) \<Longrightarrow> dir (abs_path (cs @ [c])) = abs_path cs"
  by (auto simp: dir_def split_path_abs_path clean_trailing_sep)

lemma dir_root [path_simps]: "dir ''/'' = ''/''"
  by (simp add: dir_def split_path_root)

lemma base_abs_path [path_simps]:
  assumes "comp_ok c"
  shows "base (abs_path (cs @ [c])) = c"
proof -
  have "c \<noteq> []" "CHR ''/'' \<notin> set c" using assms by (auto simp: comp_ok_def)
  moreover obtain x y where xy: "rev c = x # y" using \<open>c \<noteq> []\<close> by (cases "rev c") auto
  moreover have "x \<in> set c" using xy by (metis list.set_intros(1) set_rev)
  ultimately have "dropWhile (\<lambda>c. c = CHR ''/'') (rev (abs_path (cs @ [c]))) = rev (abs_path (cs @ [c]))"
    by (auto simp: abs_path_snoc)
  then show ?thesis using assms
    by (simp add: base_def Let_def split_path_abs_path) (simp add: comp_ok_def)
qed

lemma join_path_abs:
  assumes "comps_ok cs"
  shows "join_path [abs_path cs, p] = abs_path (rev (fold (clean_step True) (split_on CHR ''/'' p) (rev cs)))"
proof -
  have "split_on CHR ''/'' (abs_path cs @ ''/'' @ p) = split_on CHR ''/'' (abs_path cs) @ split_on CHR ''/'' p"
    using split_on_append [of "CHR ''/''" "abs_path cs" p] by simp
  then have "abs_comps (abs_path cs @ ''/'' @ p) =
      rev (fold (clean_step True) (split_on CHR ''/'' p) (rev cs))"
    using assms by (auto simp: abs_comps_def clean_comps_def split_on_abs_path fold_clean_step_ok)
  moreover have "is_abs (abs_path cs @ ''/'' @ p)" by (simp add: is_abs_def abs_path_def)
  ultimately show ?thesis by (simp add: clean_abs)
qed

lemma join_path_comp [path_simps]:
  "comps_ok (cs @ [c]) \<Longrightarrow> join_path [abs_path cs, c] = abs_path (cs @ [c])"
  by (subst join_path_abs) (auto simp: comp_ok_def)

lemma join_path_rel [path_simps]:
  "comps_ok (cs @ ds) \<Longrightarrow> ds \<noteq> [] \<Longrightarrow> join_path [abs_path cs, join ''/'' ds] = abs_path (cs @ ds)"
proof -
  assume ok: "comps_ok (cs @ ds)" and ne: "ds \<noteq> []"
  then have "split_on CHR ''/'' (join ''/'' ds) = ds"
    by (intro split_on_join) (auto simp: comp_ok_def list_all_iff)
  with ok show ?thesis by (subst join_path_abs) (auto simp: fold_clean_step_ok)
qed

lemma join_path_is_abs_path:
  "is_abs p \<Longrightarrow> \<exists>cs. comps_ok cs \<and> join_path [p, q] = abs_path cs"
proof -
  assume p: "is_abs p"
  then have "p \<noteq> []" by (auto simp: is_abs_def)
  with p have "join_path [p, q] = clean (p @ ''/'' @ q)" "is_abs (p @ ''/'' @ q)"
    by (auto simp: is_abs_def has_prefix_iff)
  then show ?thesis using abs_comps_ok [of "p @ ''/'' @ q"] clean_abs by metis
qed

lemma rel_comps_abs_path: "comps_ok cs \<Longrightarrow> rel_comps (abs_path cs) = cs"
proof (cases cs)
  case (Cons c ds)
  assume ok: "comps_ok cs"
  with Cons have "split_on CHR ''/'' (join ''/'' cs) = cs"
    by (intro split_on_join) (auto simp: comp_ok_def list_all_iff)
  moreover have "join ''/'' cs \<noteq> []" using ok Cons by (cases ds) (auto simp: comp_ok_def)
  ultimately show ?thesis by (simp add: rel_comps_def abs_path_def is_abs_def)
qed (simp add: rel_comps_def)

lemma rel_strip_append [simp]: "rel_strip bs (bs @ ts) = Some ([], ts)"
  by (induction bs) auto

lemma rel_below [path_simps]:
  assumes "comps_ok (bs @ ts)" and "ts \<noteq> []"
  shows "rel (abs_path bs) (abs_path (bs @ ts)) = Inr (join ''/'' ts)"
proof -
  have "abs_path (bs @ ts) \<noteq> abs_path bs"
    using assms abs_path_inj [of "bs @ ts" bs] by auto
  then show ?thesis using assms by (auto simp: rel_def Let_def rel_comps_abs_path)
qed

lemma rel_self [path_simps]: "rel p p = Inr ''.''"
  by (simp add: rel_def)

subsection \<open>Match on patterns without wildcards\<close>

definition literal :: "string \<Rightarrow> bool" where
  "literal p \<longleftrightarrow> set p \<inter> {CHR ''*'', CHR ''?'', CHR ''['', CHR 0x5C} = {}"

lemma literal_Cons [simp]:
  "literal (c # p) \<longleftrightarrow> c \<noteq> CHR ''*'' \<and> c \<noteq> CHR ''?'' \<and> c \<noteq> CHR ''['' \<and> c \<noteq> CHR 0x5C \<and> literal p"
  by (auto simp: literal_def)

lemma literal_Nil [simp]: "literal []"
  by (simp add: literal_def)

lemma scan_inner_literal: "literal p \<Longrightarrow> scan_inner r p = (p, [])"
  by (induction p arbitrary: r) auto

lemma scan_chunk_literal: "literal p \<Longrightarrow> scan_chunk p = (False, p, [])"
  by (cases p) (auto simp: scan_chunk_def scan_inner_literal)

lemma match_chunk_literal:
  "literal p \<Longrightarrow> length p \<le> n \<Longrightarrow>
   match_chunk n f p s = Inr (if f then None else if has_prefix s p then Some (drop (length p) s) else None)"
proof (induction p arbitrary: n f s)
  case (Cons c cs)
  from Cons.prems obtain m where m: "n = Suc m" "length cs \<le> m" by (cases n) auto
  have IH: "match_chunk m g cs t =
      Inr (if g then None else if has_prefix t cs then Some (drop (length cs) t) else None)" for g t
    using Cons m by simp
  show ?case
  proof (cases s)
    case Nil
    with Cons.prems m IH show ?thesis by simp
  next
    case (Cons x xs)
    with Cons.prems m IH [of True] IH [of "c \<noteq> x" xs] show ?thesis by simp
  qed
qed simp

lemma match_fuel_Nil [simp]: "match_fuel n [] s = Inr (s = [])"
  by (cases n) simp_all

lemma check_rest_Nil [simp]: "check_rest n [] = Inr False"
  by (cases n) simp_all

lemma match_literal [simp]:
  assumes lit: "literal p"
  shows "match p s = Inr (p = s)"
proof (cases p)
  case Nil
  then show ?thesis by (auto simp: match_def)
next
  case (Cons c cs)
  let ?r = "if has_prefix s p then Some (drop (length p) s) else None"
  have chunk: "do_chunk p s = Inr ?r"
    using lit by (simp add: do_chunk_def match_chunk_literal)
  have "match p s = (case accept ?r [] of Some t \<Rightarrow> Inr (t = []) | None \<Rightarrow> Inr False)"
    using Cons chunk scan_chunk_literal [OF lit] by (simp add: match_def split: option.splits)
  also have "\<dots> = Inr (p = s)"
    by (auto simp: accept_def has_prefix_iff)
  finally show ?thesis .
qed

end
