(* ===== verification/Os_Files.thy ===== *)
theory Os_Files
  imports Go_Filepath
begin

text \<open>
  The file system the \<open>os\<close> and \<open>path/filepath\<close> calls of the program act on: directory entries (a
  path, as its list of components from the root, to an inode number) and inodes, so that hard links
  share one inode. Path names are resolved the way the kernel does it, component by component,
  following symbolic links with a limit on their number; the process runs as root with working
  directory \<open>/\<close>, so permission bits are data and a relative name starts at the root.
\<close>

subsection \<open>State\<close>

datatype ftype = FDir | FReg string | FLink string | FSocket

record inode =
  ity :: ftype
  imode :: nat
  iuid :: nat
  igid :: nat
  imtime :: int
  icap :: "string option"

text \<open>\<open>icap\<close> is the extended attribute \<open>security.capability\<close>.\<close>

record filesys =
  dents :: "(string list, nat) gomap"
  inodes :: "(nat, inode) gomap"
  next_ino :: nat
  userns :: "nat list option"

text \<open>In a user namespace only some ids are mapped; \<open>None\<close> is the initial namespace. Modification
  times are what \<open>os.Chtimes\<close> sets; a new file has time 0.\<close>

definition lookup :: "filesys \<Rightarrow> string list \<Rightarrow> inode option" where
  "lookup fs p = (case gm_get (dents fs) p of None \<Rightarrow> None | Some i \<Rightarrow> gm_get (inodes fs) i)"

definition is_dir_node :: "inode option \<Rightarrow> bool" where
  "is_dir_node n = (case n of None \<Rightarrow> False | Some i \<Rightarrow> ity i = FDir)"

definition link_target :: "inode option \<Rightarrow> string option" where
  "link_target n =
     (case n of
        None \<Rightarrow> None
      | Some i \<Rightarrow> (case ity i of FLink t \<Rightarrow> Some t | _ \<Rightarrow> None))"

text \<open>The entries of a directory, in the order the directory lists them.\<close>

definition children :: "filesys \<Rightarrow> string list \<Rightarrow> string list list" where
  "children fs p = filter (\<lambda>q. q \<noteq> [] \<and> butlast q = p) (gm_keys (dents fs))"

subsection \<open>Path resolution\<close>

text \<open>\<open>resolve links fs follow cur rest\<close>: the canonical path of the components \<open>rest\<close> seen from the
  directory \<open>cur\<close>. The last component may be missing; a symbolic link in last position is followed
  only if \<open>follow\<close> is set.\<close>

function resolve :: "nat \<Rightarrow> filesys \<Rightarrow> bool \<Rightarrow> string list \<Rightarrow> string list \<Rightarrow> errno + string list" where
  "resolve links fs follow cur [] = Inr cur"
| "resolve links fs follow cur (c # rest) =
     (if \<not> is_dir_node (lookup fs cur) then Inl (if lookup fs cur = None then ENOENT else ENOTDIR)
      else if c = [] \<or> c = ''.'' then resolve links fs follow cur rest
      else if c = ''..'' then resolve links fs follow (butlast cur) rest
      else (case link_target (lookup fs (cur @ [c])) of
              None \<Rightarrow> resolve links fs follow (cur @ [c]) rest
            | Some t \<Rightarrow>
                if rest = [] \<and> \<not> follow then Inr (cur @ [c])
                else if links = 0 then Inl ELOOP
                else resolve (links - 1) fs follow (if is_abs t then [] else cur)
                       (split_on CHR ''/'' t @ rest)))"
  by pat_completeness auto
termination
  by (relation "measures [\<lambda>(l, fs, f, cur, rest). l, \<lambda>(l, fs, f, cur, rest). length rest]") auto

declare resolve.simps [simp del]

definition kernel_links :: nat where
  "kernel_links = 40"

definition locate :: "filesys \<Rightarrow> bool \<Rightarrow> string \<Rightarrow> string list res" where
  "locate fs follow p =
     (if p = [] then Inl (Sys ENOENT)
      else (case resolve kernel_links fs follow [] (split_on CHR ''/'' p) of
              Inl e \<Rightarrow> Inl (Sys e)
            | Inr q \<Rightarrow> Inr q))"

subsection \<open>Reading\<close>

definition stat_gen :: "bool \<Rightarrow> filesys \<Rightarrow> string \<Rightarrow> inode res" where
  "stat_gen follow fs p =
     rbind (locate fs follow p) (\<lambda>q. case lookup fs q of None \<Rightarrow> Inl (Sys ENOENT) | Some n \<Rightarrow> Inr n)"

definition os_Lstat :: "filesys \<Rightarrow> string \<Rightarrow> inode res" where
  "os_Lstat = stat_gen False"

definition os_Stat :: "filesys \<Rightarrow> string \<Rightarrow> inode res" where
  "os_Stat = stat_gen True"

definition os_Readlink :: "filesys \<Rightarrow> string \<Rightarrow> string res" where
  "os_Readlink fs p =
     rbind (os_Lstat fs p) (\<lambda>n. case ity n of FLink t \<Rightarrow> Inr t | _ \<Rightarrow> Inl (Sys EINVAL))"

definition os_ReadFile :: "filesys \<Rightarrow> string \<Rightarrow> string res" where
  "os_ReadFile fs p =
     rbind (os_Stat fs p) (\<lambda>n. case ity n of FReg s \<Rightarrow> Inr s | FDir \<Rightarrow> Inl (Sys EISDIR) | _ \<Rightarrow> Inl (Sys EINVAL))"

text \<open>\<open>filepath.EvalSymlinks\<close> on an absolute path: its own walk, with its own limit on links.\<close>

definition eval_links :: nat where
  "eval_links = 255"

definition EvalSymlinks :: "filesys \<Rightarrow> string \<Rightarrow> string res" where
  "EvalSymlinks fs p =
     (case resolve eval_links fs True [] (split_on CHR ''/'' p) of
        Inl ELOOP \<Rightarrow> Inl (Msg ''EvalSymlinks: too many links'')
      | Inl e \<Rightarrow> Inl (Sys e)
      | Inr q \<Rightarrow> (case lookup fs q of None \<Rightarrow> Inl (Sys ENOENT) | Some _ \<Rightarrow> Inr (abs_path q)))"

text \<open>Go's view of a file's type.\<close>

definition is_dir :: "inode \<Rightarrow> bool" where
  "is_dir n = (ity n = FDir)"

definition is_symlink :: "inode \<Rightarrow> bool" where
  "is_symlink n = (case ity n of FLink _ \<Rightarrow> True | _ \<Rightarrow> False)"

definition is_regular :: "inode \<Rightarrow> bool" where
  "is_regular n = (case ity n of FReg _ \<Rightarrow> True | _ \<Rightarrow> False)"

subsection \<open>Walking a tree\<close>

text \<open>The paths a walk from \<open>p\<close> calls back on, parents before children, without following links; the
  callback keeps the walk out of a directory \<open>q\<close> with \<open>skip q\<close>. The fuel bounds the depth.\<close>

fun preorder :: "nat \<Rightarrow> filesys \<Rightarrow> (string list \<Rightarrow> bool) \<Rightarrow> string list \<Rightarrow> string list list" where
  "preorder 0 fs skip p = [p]"
| "preorder (Suc n) fs skip p =
     p # (if is_dir_node (lookup fs p) \<and> \<not> skip p
          then concat (map (preorder n fs skip) (children fs p)) else [])"

definition depth :: "filesys \<Rightarrow> nat" where
  "depth fs = fold max (map length (gm_keys (dents fs))) 0"

definition walk :: "filesys \<Rightarrow> (string list \<Rightarrow> bool) \<Rightarrow> string list \<Rightarrow> string list list" where
  "walk fs skip p = (if lookup fs p = None then [] else preorder (Suc (depth fs)) fs skip p)"

subsection \<open>Well-formed file systems\<close>

definition fs_wf :: "filesys \<Rightarrow> bool" where
  "fs_wf fs \<longleftrightarrow>
     gm_wf (dents fs) \<and> is_dir_node (lookup fs []) \<and>
     list_all (\<lambda>p. comps_ok p \<and> lookup fs p \<noteq> None \<and>
                   (p \<noteq> [] \<longrightarrow> is_dir_node (lookup fs (butlast p)))) (gm_keys (dents fs))"

lemma fs_wf_entry:
  assumes "fs_wf fs" and "lookup fs p = Some n"
  shows "comps_ok p" and "p \<noteq> [] \<Longrightarrow> is_dir_node (lookup fs (butlast p))"
proof -
  from assms(2) have "p \<in> set (gm_keys (dents fs))"
    by (auto simp: lookup_def gm_keys_iff gm_has_def split: option.splits)
  with assms(1) show "comps_ok p" "p \<noteq> [] \<Longrightarrow> is_dir_node (lookup fs (butlast p))"
    by (auto simp: fs_wf_def list_all_iff)
qed

lemma lookup_in_keys: "lookup fs p = Some n \<Longrightarrow> p \<in> set (gm_keys (dents fs))"
  by (auto simp: lookup_def gm_keys_iff gm_has_def split: option.splits)

lemma fs_wf_keys: "fs_wf fs \<Longrightarrow> p \<in> set (gm_keys (dents fs)) \<longleftrightarrow> lookup fs p \<noteq> None"
  by (auto simp: fs_wf_def list_all_iff dest: lookup_in_keys)

lemma is_dir_node_Some: "is_dir_node n \<Longrightarrow> \<exists>i. n = Some i \<and> ity i = FDir"
  by (auto simp: is_dir_node_def split: option.splits)

lemma children_iff:
  "fs_wf fs \<Longrightarrow> q \<in> set (children fs p) \<longleftrightarrow> q \<noteq> [] \<and> butlast q = p \<and> lookup fs q \<noteq> None"
  by (auto simp: children_def fs_wf_keys)

subsection \<open>What a walk visits\<close>

lemma fold_max_ge: "x \<in> set xs \<Longrightarrow> x \<le> fold max xs (a :: nat)"
proof (induction xs arbitrary: a)
  case (Cons y ys)
  have "b \<le> fold max ys b" for b :: nat
    by (induction ys arbitrary: b) (auto, meson max.bounded_iff)
  with Cons show ?case by (auto, meson max.cobounded1 le_trans)
qed simp

lemma depth_ge: "lookup fs p = Some n \<Longrightarrow> length p \<le> depth fs"
  using lookup_in_keys [of fs p n] by (auto simp: depth_def intro!: fold_max_ge)

lemma prefix_step: "prefix p q \<Longrightarrow> p \<noteq> q \<Longrightarrow> \<exists>c. prefix (p @ [c]) q"
proof -
  assume "prefix p q" "p \<noteq> q"
  then obtain zs where zs: "q = p @ zs" "zs \<noteq> []" by (auto simp: prefix_def)
  then obtain c ds where "zs = c # ds" by (cases zs) auto
  with zs show ?thesis by (auto simp: prefix_def)
qed

lemma fs_wf_prefix:
  assumes "fs_wf fs" and "lookup fs q = Some n" and "prefix p q"
  shows "p = q \<or> is_dir_node (lookup fs p)"
proof -
  obtain zs where "q = p @ zs" using assms(3) by (auto simp: prefix_def)
  then show ?thesis using assms(2)
  proof (induction zs arbitrary: q n rule: rev_induct)
    case (snoc c zs)
    then have "is_dir_node (lookup fs (p @ zs))"
      using fs_wf_entry(2) [OF assms(1) snoc.prems(2)] by (simp flip: append_assoc)
    moreover then obtain i where "lookup fs (p @ zs) = Some i" using is_dir_node_Some by blast
    ultimately show ?case using snoc.IH [of "p @ zs" i] by (cases "zs = []") auto
  qed simp
qed

definition visible :: "filesys \<Rightarrow> (string list \<Rightarrow> bool) \<Rightarrow> string list \<Rightarrow> string list \<Rightarrow> bool" where
  "visible fs skip p q \<longleftrightarrow>
     lookup fs q \<noteq> None \<and> prefix p q \<and> (\<forall>r. prefix p r \<longrightarrow> strict_prefix r q \<longrightarrow> \<not> skip r)"

lemma visible_self: "lookup fs p \<noteq> None \<Longrightarrow> visible fs skip p p"
  by (auto simp: visible_def strict_prefix_def dest: prefix_order.antisym)

lemma visible_leaf:
  assumes "fs_wf fs" and "visible fs skip p q" and "\<not> is_dir_node (lookup fs p) \<or> skip p"
  shows "q = p"
proof (rule ccontr)
  assume ne: "q \<noteq> p"
  from assms(2) obtain m where m: "lookup fs q = Some m" and pq: "prefix p q"
    by (auto simp: visible_def)
  with ne have "strict_prefix p q" by (auto simp: strict_prefix_def)
  with assms(2) have "\<not> skip p" by (auto simp: visible_def)
  moreover have "is_dir_node (lookup fs p)" using fs_wf_prefix [OF assms(1) m pq] ne by auto
  ultimately show False using assms(3) by simp
qed

lemma visible_child:
  assumes "fs_wf fs" and "visible fs skip p q" and "q \<noteq> p"
  shows "\<exists>c \<in> set (children fs p). visible fs skip c q"
proof -
  from assms(2,3) obtain x where x: "prefix (p @ [x]) q"
    using prefix_step [of p q] by (auto simp: visible_def)
  from assms(2) obtain m where m: "lookup fs q = Some m" by (auto simp: visible_def)
  have "lookup fs (p @ [x]) \<noteq> None"
    using fs_wf_prefix [OF assms(1) m x] m by (auto dest: is_dir_node_Some)
  then have "p @ [x] \<in> set (children fs p)" using children_iff [OF assms(1)] by simp
  moreover have "visible fs skip (p @ [x]) q"
    using assms(2) x by (auto simp: visible_def dest: append_prefixD)
  ultimately show ?thesis by blast
qed

lemma visible_parent:
  assumes "fs_wf fs" and "\<not> skip p" and "c \<in> set (children fs p)" and "visible fs skip c q"
  shows "visible fs skip p q"
proof -
  obtain x where c: "c = p @ [x]"
    using assms(3) children_iff [OF assms(1)] by (metis append_butlast_last_id)
  with assms(4) have cq: "prefix (p @ [x]) q" by (simp add: visible_def)
  have "\<not> skip r" if "prefix p r" "strict_prefix r q" for r
  proof (cases "r = p")
    case False
    with that(1) obtain y where y: "prefix (p @ [y]) r" using prefix_step by metis
    then have "prefix (p @ [y]) q" using that(2) by (auto simp: strict_prefix_def)
    with cq y have "prefix (p @ [x]) r" by (auto simp: prefix_def)
    with assms(4) c that(2) show ?thesis by (auto simp: visible_def)
  qed (use assms(2) in simp)
  with assms(4) c show ?thesis by (auto simp: visible_def dest: append_prefixD)
qed

text \<open>With enough fuel the walk visits exactly the entries below its start that no skipped
  directory hides.\<close>

lemma preorder_set:
  assumes "fs_wf fs"
  shows "lookup fs p \<noteq> None \<Longrightarrow> depth fs < n + length p \<Longrightarrow>
    set (preorder n fs skip p) = {q. visible fs skip p q}"
proof (induction n arbitrary: p)
  case 0
  then obtain m where "lookup fs p = Some m" by auto
  with 0 show ?case using depth_ge [of fs p m] by simp
next
  case (Suc n)
  have IH: "set (preorder n fs skip c) = {q. visible fs skip c q}" if "c \<in> set (children fs p)" for c
  proof (rule Suc.IH)
    from that have c: "c \<noteq> []" "butlast c = p" "lookup fs c \<noteq> None"
      using children_iff [OF assms] by auto
    then show "lookup fs c \<noteq> None" by simp
    have "length c = Suc (length p)" using c(1,2) by (cases c rule: rev_cases) auto
    with Suc.prems(2) show "depth fs < n + length c" by simp
  qed
  show ?case
  proof (cases "is_dir_node (lookup fs p) \<and> \<not> skip p")
    case False
    then have "visible fs skip p q \<longleftrightarrow> q = p" for q
      using visible_self [OF Suc.prems(1)] visible_leaf [OF assms, of skip p q] by blast
    with False show ?thesis by auto
  next
    case True
    then have "visible fs skip p q \<longleftrightarrow> q = p \<or> (\<exists>c \<in> set (children fs p). visible fs skip c q)" for q
      using visible_self [OF Suc.prems(1)] visible_child [OF assms, of skip p q]
        visible_parent [OF assms, of skip p _ q] by blast
    with True IH show ?thesis by auto
  qed
qed

lemma walk_set:
  assumes "fs_wf fs" and "lookup fs p \<noteq> None"
  shows "q \<in> set (walk fs skip p) \<longleftrightarrow> visible fs skip p q"
proof -
  have "set (walk fs skip p) = set (preorder (Suc (depth fs)) fs skip p)"
    using assms(2) by (simp only: walk_def if_False)
  with preorder_set [OF assms, of "Suc (depth fs)" skip] show ?thesis by simp
qed

end
