(* ===== verification/Os_Write.thy ===== *)
theory Os_Write
  imports Os_Files
begin

text \<open>
  The \<open>os\<close> calls of the program that change the file system, each as an action on \<^typ>\<open>filesys\<close>:
  \<open>Mkdir\<close>, \<open>MkdirAll\<close>, \<open>Remove\<close>, \<open>RemoveAll\<close>, \<open>Create\<close> with the copy of a content into the new file,
  \<open>Symlink\<close>, \<open>Link\<close>, \<open>Chown\<close>, \<open>Chmod\<close> and \<open>Chtimes\<close>. Every one of them keeps the file system
  well formed (\<open>fs_ok\<close>).
\<close>

subsection \<open>Entries and inodes\<close>

definition umask :: "nat \<Rightarrow> nat" where
  "umask m = m - (m div 2 mod 2) * 2 - (m div 16 mod 2) * 16"

definition add_entry :: "string list \<Rightarrow> inode \<Rightarrow> filesys \<Rightarrow> filesys" where
  "add_entry q n fs = fs\<lparr>dents := gm_set (dents fs) q (next_ino fs),
     inodes := gm_set (inodes fs) (next_ino fs) n, next_ino := Suc (next_ino fs)\<rparr>"

definition upd_inode :: "string list \<Rightarrow> (inode \<Rightarrow> inode) \<Rightarrow> filesys \<Rightarrow> filesys" where
  "upd_inode q f fs =
     (case gm_get (dents fs) q of
        None \<Rightarrow> fs
      | Some i \<Rightarrow> (case gm_get (inodes fs) i of
                     None \<Rightarrow> fs
                   | Some n \<Rightarrow> fs\<lparr>inodes := gm_set (inodes fs) i (f n)\<rparr>))"

definition remove_tree :: "string list \<Rightarrow> filesys \<Rightarrow> filesys" where
  "remove_tree q fs = fs\<lparr>dents := filter (\<lambda>e. \<not> prefix q (fst e)) (dents fs)\<rparr>"

definition new_inode :: "ftype \<Rightarrow> nat \<Rightarrow> inode" where
  "new_inode t m = \<lparr>ity = t, imode = m, iuid = 0, igid = 0, imtime = 0, icap = None\<rparr>"

subsection \<open>The calls\<close>

text \<open>The kernel accepts trailing slashes in the name of a directory to make.\<close>

definition no_trailing :: "string \<Rightarrow> string" where
  "no_trailing p = (let q = rev (dropWhile (\<lambda>c. c = CHR ''/'') (rev p)) in if q = [] then p else q)"

definition os_Mkdir :: "string \<Rightarrow> nat \<Rightarrow> (filesys, unit) act" where
  "os_Mkdir p mode fs =
     (case locate fs False (no_trailing p) of
        Inl e \<Rightarrow> (Inl e, fs)
      | Inr q \<Rightarrow>
          if lookup fs q \<noteq> None then (Inl (Sys EEXIST), fs)
          else (Inr (), add_entry q (new_inode FDir (umask mode)) fs))"

definition parent_string :: "string \<Rightarrow> string" where
  "parent_string p = fst (split_path (rev (dropWhile (\<lambda>c. c = CHR ''/'') (rev p))))"

text \<open>\<open>os.MkdirAll\<close>; the fuel is the length of the path, which every step shortens.\<close>

fun mkdir_all :: "nat \<Rightarrow> string \<Rightarrow> nat \<Rightarrow> (filesys, unit) act" where
  "mkdir_all 0 p mode fs = os_Mkdir p mode fs"
| "mkdir_all (Suc n) p mode fs =
     (case os_Stat fs p of
        Inr i \<Rightarrow> (if is_dir i then Inr () else Inl (Sys ENOTDIR), fs)
      | Inl _ \<Rightarrow>
          (case (if parent_string p = [] then (Inr (), fs) else mkdir_all n (parent_string p) mode fs) of
             (Inl e, fs1) \<Rightarrow> (Inl e, fs1)
           | (Inr _, fs1) \<Rightarrow>
               (case os_Mkdir p mode fs1 of
                  (Inr _, fs2) \<Rightarrow> (Inr (), fs2)
                | (Inl e, fs2) \<Rightarrow>
                    (case os_Lstat fs2 p of
                       Inr i \<Rightarrow> (if is_dir i then Inr () else Inl e, fs2)
                     | Inl _ \<Rightarrow> (Inl e, fs2)))))"

definition os_MkdirAll :: "string \<Rightarrow> nat \<Rightarrow> (filesys, unit) act" where
  "os_MkdirAll p mode = mkdir_all (length p) p mode"

definition os_Remove :: "string \<Rightarrow> (filesys, unit) act" where
  "os_Remove p fs =
     (case locate fs False p of
        Inl e \<Rightarrow> (Inl e, fs)
      | Inr q \<Rightarrow>
          if lookup fs q = None then (Inl (Sys ENOENT), fs)
          else if q = [] then (Inl (Sys EBUSY), fs)
          else if is_dir_node (lookup fs q) \<and> children fs q \<noteq> [] then (Inl (Sys ENOTEMPTY), fs)
          else (Inr (), remove_tree q fs))"

text \<open>\<open>os.RemoveAll\<close>: a missing path is no error; of the root only the contents can go.\<close>

definition os_RemoveAll :: "string \<Rightarrow> (filesys, unit) act" where
  "os_RemoveAll p fs =
     (if p = [] then (Inr (), fs)
      else case locate fs False p of
        Inl e \<Rightarrow> (if is_not_exist e then Inr () else Inl e, fs)
      | Inr q \<Rightarrow>
          if lookup fs q = None then (Inr (), fs)
          else if q = [] then (Inl (Sys EBUSY), fs\<lparr>dents := filter (\<lambda>e. fst e = []) (dents fs)\<rparr>)
          else (Inr (), remove_tree q fs))"

text \<open>\<open>os.Create\<close> followed by \<open>io.Copy\<close> of a content: an existing regular file keeps its inode.\<close>

definition os_WriteFile :: "string \<Rightarrow> string \<Rightarrow> nat \<Rightarrow> (filesys, unit) act" where
  "os_WriteFile p content mode fs =
     (case locate fs True p of
        Inl e \<Rightarrow> (Inl e, fs)
      | Inr q \<Rightarrow>
          (case lookup fs q of
             None \<Rightarrow> (Inr (), add_entry q (new_inode (FReg content) (umask mode)) fs)
           | Some n \<Rightarrow>
               (case ity n of
                  FDir \<Rightarrow> (Inl (Sys EISDIR), fs)
                | FReg _ \<Rightarrow> (Inr (), upd_inode q (\<lambda>n. n\<lparr>ity := FReg content\<rparr>) fs)
                | _ \<Rightarrow> (Inl (Sys EINVAL), fs))))"

definition os_Create :: "string \<Rightarrow> string \<Rightarrow> (filesys, unit) act" where
  "os_Create p content = os_WriteFile p content 438"

definition os_Symlink :: "string \<Rightarrow> string \<Rightarrow> (filesys, unit) act" where
  "os_Symlink target p fs =
     (case locate fs False p of
        Inl e \<Rightarrow> (Inl e, fs)
      | Inr q \<Rightarrow>
          if target = [] then (Inl (Sys ENOENT), fs)
          else if lookup fs q \<noteq> None then (Inl (Sys EEXIST), fs)
          else (Inr (), add_entry q (new_inode (FLink target) 511) fs))"

definition os_Link :: "string \<Rightarrow> string \<Rightarrow> (filesys, unit) act" where
  "os_Link old new fs =
     (case locate fs False old of
        Inl e \<Rightarrow> (Inl e, fs)
      | Inr q \<Rightarrow>
          (case gm_get (dents fs) q of
             None \<Rightarrow> (Inl (Sys ENOENT), fs)
           | Some i \<Rightarrow>
               (case locate fs False new of
                  Inl e \<Rightarrow> (Inl e, fs)
                | Inr r \<Rightarrow>
                    if lookup fs r \<noteq> None then (Inl (Sys EEXIST), fs)
                    else if is_dir_node (lookup fs q) then (Inl (Sys EPERM), fs)
                    else (Inr (), fs\<lparr>dents := gm_set (dents fs) r i\<rparr>))))"

definition id_mapped :: "filesys \<Rightarrow> int \<Rightarrow> bool" where
  "id_mapped fs i = (i = -1 \<or> (case userns fs of None \<Rightarrow> True | Some ids \<Rightarrow> nat i \<in> set ids))"

text \<open>\<open>chown\<close> clears the set-user-id bit of a file that is not a directory, and the set-group-id bit
  if the group may execute it.\<close>

definition chown_mode :: "ftype \<Rightarrow> nat \<Rightarrow> nat" where
  "chown_mode t m =
     (if t = FDir then m
      else m - (m div 2048 mod 2) * 2048 - (if m div 8 mod 2 = 1 then (m div 1024 mod 2) * 1024 else 0))"

definition chown_inode :: "int \<Rightarrow> int \<Rightarrow> inode \<Rightarrow> inode" where
  "chown_inode uid gid n = n\<lparr>iuid := if uid = -1 then iuid n else nat uid,
     igid := if gid = -1 then igid n else nat gid, imode := chown_mode (ity n) (imode n)\<rparr>"

definition upd_file :: "string \<Rightarrow> (inode \<Rightarrow> inode) \<Rightarrow> (filesys, unit) act" where
  "upd_file p f fs =
     (case locate fs True p of
        Inl e \<Rightarrow> (Inl e, fs)
      | Inr q \<Rightarrow> if lookup fs q = None then (Inl (Sys ENOENT), fs) else (Inr (), upd_inode q f fs))"

definition os_Chown :: "string \<Rightarrow> int \<Rightarrow> int \<Rightarrow> (filesys, unit) act" where
  "os_Chown p uid gid fs =
     (if is_ok (os_Stat fs p) \<and> \<not> (id_mapped fs uid \<and> id_mapped fs gid) then (Inl (Sys EINVAL), fs)
      else upd_file p (chown_inode uid gid) fs)"

definition os_Chmod :: "string \<Rightarrow> nat \<Rightarrow> (filesys, unit) act" where
  "os_Chmod p mode = upd_file p (\<lambda>n. n\<lparr>imode := mode\<rparr>)"

definition os_Chtimes :: "string \<Rightarrow> int \<Rightarrow> (filesys, unit) act" where
  "os_Chtimes p mtime = upd_file p (\<lambda>n. n\<lparr>imtime := mtime\<rparr>)"

subsection \<open>Where a resolved path lies\<close>

definition placed :: "filesys \<Rightarrow> string list \<Rightarrow> bool" where
  "placed fs q \<longleftrightarrow> comps_ok q \<and> (q = [] \<or> is_dir_node (lookup fs (butlast q)))"

lemma placed_parent: "fs_wf fs \<Longrightarrow> placed fs q \<Longrightarrow> placed fs (butlast q)"
  unfolding placed_def
  using fs_wf_entry [of fs "butlast q"] is_dir_node_Some [of "lookup fs (butlast q)"]
  by (cases "q = []") auto

lemma resolve_placed:
  "resolve links fs follow cur rest = Inr q \<Longrightarrow> fs_wf fs \<Longrightarrow> placed fs cur \<Longrightarrow>
   \<forall>c \<in> set rest. CHR ''/'' \<notin> set c \<Longrightarrow> placed fs q"
proof (induction links fs follow cur rest rule: resolve.induct)
  case (1 links fs follow cur)
  then show ?case by (simp add: resolve.simps)
next
  case (2 links fs follow cur c rest)
  note res = 2(5) [unfolded resolve.simps(2)]
  have dir: "is_dir_node (lookup fs cur)" using res by (auto split: if_splits)
  have rest: "\<forall>c \<in> set rest. CHR ''/'' \<notin> set c" and c: "CHR ''/'' \<notin> set c" using 2(8) by simp_all
  show ?case
  proof (cases "c = [] \<or> c = ''.'' \<or> c = ''..''")
    case True
    then show ?thesis
    proof (cases "c = ''..''")
      case True
      then show ?thesis using 2(2) dir res placed_parent [OF 2(6,7)] rest 2(6) by simp
    next
      case False
      with True show ?thesis using 2(1) dir res 2(6,7) rest by auto
    qed
  next
    case False
    with c dir 2(7) have new: "placed fs (cur @ [c])" by (auto simp: placed_def comp_ok_def)
    show ?thesis
    proof (cases "link_target (lookup fs (cur @ [c]))")
      case None
      with False show ?thesis using 2(3) dir res new rest 2(6) by simp
    next
      case (Some t)
      have root: "placed fs []" by (simp add: placed_def)
      have comps: "\<forall>c \<in> set (split_on CHR ''/'' t @ rest). CHR ''/'' \<notin> set c"
        using rest by (auto dest: split_on_no_sep_in)
      show ?thesis
      proof (cases "rest = [] \<and> \<not> follow")
        case True
        with False Some res dir new show ?thesis by simp
      next
        case go: False
        with False Some res dir have nz: "links \<noteq> 0" by (auto split: if_splits)
        with False Some res dir go have
          r: "resolve (links - 1) fs follow (if is_abs t then [] else cur) (split_on CHR ''/'' t @ rest) = Inr q"
          by simp
        have start: "placed fs (if is_abs t then [] else cur)" using root 2(7) by simp
        from False have n: "\<not> (c = [] \<or> c = ''.'')" "c \<noteq> ''..''" by simp_all
        show ?thesis using dir by (intro 2(4) [OF _ n Some go nz r 2(6) start comps]) simp
      qed
    qed
  qed
qed

lemma locate_placed: "fs_wf fs \<Longrightarrow> locate fs follow p = Inr q \<Longrightarrow> placed fs q"
proof -
  assume wf: "fs_wf fs" and "locate fs follow p = Inr q"
  then have "resolve kernel_links fs follow [] (split_on CHR ''/'' p) = Inr q"
    by (auto simp: locate_def split: if_splits sum.splits)
  then show ?thesis
    by (rule resolve_placed [OF _ wf]) (auto simp: placed_def dest: split_on_no_sep_in)
qed

subsection \<open>Every call keeps the file system well formed\<close>

definition fs_ok :: "filesys \<Rightarrow> bool" where
  "fs_ok fs \<longleftrightarrow> fs_wf fs \<and> list_all (\<lambda>i. i < next_ino fs) (gm_keys (inodes fs))"

lemma fs_ok_fresh: "fs_ok fs \<Longrightarrow> gm_get (inodes fs) i = Some n \<Longrightarrow> i < next_ino fs"
  using gm_keys_iff [of i "inodes fs"] by (auto simp: fs_ok_def list_all_iff gm_has_def)

lemma lookup_add_entry:
  assumes "fs_ok fs"
  shows "lookup (add_entry q n fs) p = (if p = q then Some n else lookup fs p)"
proof -
  have "i \<noteq> next_ino fs" if "gm_get (dents fs) p = Some i" "lookup fs p \<noteq> None" for i
    using that fs_ok_fresh [OF assms, of i] by (auto simp: lookup_def)
  moreover have "lookup fs p \<noteq> None" if "gm_get (dents fs) p = Some i" for i
    using that assms fs_wf_keys [of fs p] gm_keys_iff [of p "dents fs"]
    by (simp add: fs_ok_def gm_has_def)
  ultimately show ?thesis by (auto simp: lookup_def add_entry_def split: option.splits)
qed

lemma fs_wfI:
  assumes "gm_wf (dents fs)" and "is_dir_node (lookup fs [])"
    and "\<And>p. gm_has (dents fs) p \<Longrightarrow>
      comps_ok p \<and> lookup fs p \<noteq> None \<and> (p \<noteq> [] \<longrightarrow> is_dir_node (lookup fs (butlast p)))"
  shows "fs_wf fs"
  using assms by (auto simp: fs_wf_def list_all_iff gm_keys_iff)

lemma fs_wfD:
  assumes "fs_wf fs"
  shows "gm_wf (dents fs)" and "is_dir_node (lookup fs [])" and
    "gm_has (dents fs) p \<Longrightarrow>
      comps_ok p \<and> lookup fs p \<noteq> None \<and> (p \<noteq> [] \<longrightarrow> is_dir_node (lookup fs (butlast p)))"
  using assms by (auto simp: fs_wf_def list_all_iff gm_keys_iff)

lemma dents_add_entry: "dents (add_entry q n fs) = gm_set (dents fs) q (next_ino fs)"
  by (simp add: add_entry_def)

lemma fs_ok_add_entry:
  assumes ok: "fs_ok fs" and "placed fs q" and new: "lookup fs q = None"
  shows "fs_ok (add_entry q n fs)"
proof -
  have wf: "fs_wf fs" using ok by (simp add: fs_ok_def)
  have q: "q \<noteq> []" using fs_wfD(2) [OF wf] new by (auto simp: is_dir_node_def)
  have keep: "is_dir_node (lookup (add_entry q n fs) p)" if "is_dir_node (lookup fs p)" for p
    using that new by (auto simp: lookup_add_entry [OF ok] is_dir_node_def)
  have "fs_wf (add_entry q n fs)"
  proof (rule fs_wfI)
    fix p assume "gm_has (dents (add_entry q n fs)) p"
    then consider "p = q" | "gm_has (dents fs) p" by (auto simp: dents_add_entry)
    then show "comps_ok p \<and> lookup (add_entry q n fs) p \<noteq> None \<and>
        (p \<noteq> [] \<longrightarrow> is_dir_node (lookup (add_entry q n fs) (butlast p)))"
    proof cases
      case 1
      then show ?thesis using assms(2) q keep [of "butlast q"]
        by (auto simp: placed_def lookup_add_entry [OF ok])
    next
      case 2
      then show ?thesis using fs_wfD(3) [OF wf 2] keep [of "butlast p"]
        by (auto simp: lookup_add_entry [OF ok])
    qed
  qed (use fs_wfD(1,2) [OF wf] keep in \<open>auto simp: dents_add_entry\<close>)
  moreover have "list_all (\<lambda>i. i < next_ino (add_entry q n fs)) (gm_keys (inodes (add_entry q n fs)))"
    using fs_ok_fresh [OF ok]
    by (auto simp: list_all_iff gm_keys_iff add_entry_def gm_has_def less_SucI split: if_splits)
  ultimately show ?thesis by (simp add: fs_ok_def)
qed

lemma lookup_remove_tree: "lookup (remove_tree q fs) p = (if prefix q p then None else lookup fs p)"
proof -
  have "map_of (filter (\<lambda>e. \<not> prefix q (fst e)) xs) p = (if prefix q p then None else map_of xs p)"
    for xs :: "(string list \<times> nat) list"
    by (induction xs) auto
  then show ?thesis by (auto simp: lookup_def remove_tree_def gm_get_def split: option.splits)
qed

lemma gm_has_remove_tree: "gm_has (dents (remove_tree q fs)) p \<longleftrightarrow> gm_has (dents fs) p \<and> \<not> prefix q p"
  unfolding gm_keys_iff [symmetric] by (auto simp: remove_tree_def gm_keys_def)

lemma fs_ok_remove_tree:
  assumes ok: "fs_ok fs" and "q \<noteq> []"
  shows "fs_ok (remove_tree q fs)"
proof -
  have wf: "fs_wf fs" using ok by (simp add: fs_ok_def)
  have "fs_wf (remove_tree q fs)"
  proof (rule fs_wfI)
    show "gm_wf (dents (remove_tree q fs))" using fs_wfD(1) [OF wf]
      by (simp add: gm_wf_def remove_tree_def distinct_map_filter)
    show "is_dir_node (lookup (remove_tree q fs) [])" using fs_wfD(2) [OF wf] assms(2)
      by (simp add: lookup_remove_tree)
    fix p assume "gm_has (dents (remove_tree q fs)) p"
    then have p: "gm_has (dents fs) p" "\<not> prefix q p" by (simp_all add: gm_has_remove_tree)
    then have "\<not> prefix q (butlast p)" by (metis prefixeq_butlast prefix_order.trans)
    with p fs_wfD(3) [OF wf p(1)]
    show "comps_ok p \<and> lookup (remove_tree q fs) p \<noteq> None \<and>
        (p \<noteq> [] \<longrightarrow> is_dir_node (lookup (remove_tree q fs) (butlast p)))"
      by (simp add: lookup_remove_tree)
  qed
  with ok show ?thesis by (simp add: fs_ok_def remove_tree_def)
qed

lemma fs_ok_empty_root: "fs_ok fs \<Longrightarrow> fs_ok (fs\<lparr>dents := filter (\<lambda>e. fst e = []) (dents fs)\<rparr>)"
proof -
  assume ok: "fs_ok fs"
  let ?fs = "fs\<lparr>dents := filter (\<lambda>e. fst e = []) (dents fs)\<rparr>"
  have wf: "fs_wf fs" using ok by (simp add: fs_ok_def)
  have "map_of (filter (\<lambda>e. fst e = []) xs) [] = map_of xs []" for xs :: "(string list \<times> nat) list"
    by (induction xs) auto
  then have root: "lookup ?fs [] = lookup fs []" by (simp add: lookup_def gm_get_def split: option.splits)
  have "fs_wf ?fs"
  proof (rule fs_wfI)
    show "gm_wf (dents ?fs)" using fs_wfD(1) [OF wf] by (simp add: gm_wf_def distinct_map_filter)
    show "is_dir_node (lookup ?fs [])" using fs_wfD(2) [OF wf] root by simp
    fix p assume "gm_has (dents ?fs) p"
    then have "p = []" unfolding gm_keys_iff [symmetric] by (auto simp: gm_keys_def)
    then show "comps_ok p \<and> lookup ?fs p \<noteq> None \<and> (p \<noteq> [] \<longrightarrow> is_dir_node (lookup ?fs (butlast p)))"
      using fs_wfD(2) [OF wf] root by (auto simp: is_dir_node_def split: option.splits)
  qed
  with ok show ?thesis by (simp add: fs_ok_def)
qed

text \<open>Updating an inode is seen through every entry that shares it.\<close>

definition same_file :: "filesys \<Rightarrow> string list \<Rightarrow> string list \<Rightarrow> bool" where
  "same_file fs p q \<longleftrightarrow> gm_get (dents fs) p = gm_get (dents fs) q \<and> gm_get (dents fs) p \<noteq> None"

lemma lookup_upd_inode:
  "lookup (upd_inode q f fs) p = (if same_file fs p q then map_option f (lookup fs p) else lookup fs p)"
  by (auto simp: lookup_def upd_inode_def same_file_def split: option.splits)

lemma dents_upd_inode [simp]: "dents (upd_inode q f fs) = dents fs"
  by (simp add: upd_inode_def split: option.splits)

lemma fs_ok_upd_inode:
  assumes ok: "fs_ok fs" and dir: "\<And>n. (ity (f n) = FDir) = (ity n = FDir)"
  shows "fs_ok (upd_inode q f fs)"
proof -
  have wf: "fs_wf fs" using ok by (simp add: fs_ok_def)
  have d: "is_dir_node (lookup (upd_inode q f fs) p) = is_dir_node (lookup fs p)" for p
    by (auto simp: lookup_upd_inode is_dir_node_def dir split: option.splits)
  have "fs_wf (upd_inode q f fs)"
  proof (rule fs_wfI)
    fix p assume "gm_has (dents (upd_inode q f fs)) p"
    then have "gm_has (dents fs) p" by simp
    from fs_wfD(3) [OF wf this]
    show "comps_ok p \<and> lookup (upd_inode q f fs) p \<noteq> None \<and>
        (p \<noteq> [] \<longrightarrow> is_dir_node (lookup (upd_inode q f fs) (butlast p)))"
      unfolding d by (simp add: lookup_upd_inode)
  qed (use fs_wfD(1,2) [OF wf] d in simp_all)
  moreover have "list_all (\<lambda>i. i < next_ino (upd_inode q f fs)) (gm_keys (inodes (upd_inode q f fs)))"
    using fs_ok_fresh [OF ok]
    by (auto simp: list_all_iff gm_keys_iff upd_inode_def gm_has_def split: option.splits if_splits)
  ultimately show ?thesis by (simp add: fs_ok_def)
qed

lemma fs_ok_new:
  "fs_ok fs \<Longrightarrow> locate fs follow p = Inr q \<Longrightarrow> lookup fs q = None \<Longrightarrow> fs_ok (add_entry q n fs)"
  using locate_placed [of fs follow p q] by (auto intro!: fs_ok_add_entry simp: fs_ok_def [of fs])

lemma keeps_os_Mkdir [keeps_rules]: "keeps fs_ok (os_Mkdir p mode)"
  by (auto simp: keeps_def os_Mkdir_def split: sum.splits intro: fs_ok_new)

lemma keeps_mkdir_all: "keeps fs_ok (mkdir_all n p mode)"
proof (induction n arbitrary: p)
  case 0
  then show ?case using keeps_os_Mkdir by (simp add: keeps_def)
next
  case (Suc n)
  have "fs_ok (snd (mkdir_all (Suc n) p mode fs))" if "fs_ok fs" for fs
    using that keepsD [OF Suc] keepsD [OF keeps_os_Mkdir]
    by (auto split: sum.splits prod.splits) (metis snd_conv)+
  then show ?case by (simp add: keeps_def)
qed

lemma keeps_os_MkdirAll [keeps_rules]: "keeps fs_ok (os_MkdirAll p mode)"
  by (simp add: os_MkdirAll_def keeps_mkdir_all)

lemma keeps_os_Remove [keeps_rules]: "keeps fs_ok (os_Remove p)"
  by (auto simp: keeps_def os_Remove_def split: sum.splits intro: fs_ok_remove_tree)

lemma keeps_os_RemoveAll [keeps_rules]: "keeps fs_ok (os_RemoveAll p)"
  by (auto simp: keeps_def os_RemoveAll_def split: sum.splits intro: fs_ok_remove_tree fs_ok_empty_root)

lemma keeps_os_WriteFile [keeps_rules]: "keeps fs_ok (os_WriteFile p content mode)"
proof -
  have "fs_ok (upd_inode q (\<lambda>n. n\<lparr>ity := FReg content\<rparr>) fs)"
    if ok: "fs_ok fs" and n: "lookup fs q = Some n" "ity n = FReg c" for fs q n c
  proof -
    let ?f = "\<lambda>m. if ity m = FDir then m else m\<lparr>ity := FReg content\<rparr>"
    have "upd_inode q (\<lambda>n. n\<lparr>ity := FReg content\<rparr>) fs = upd_inode q ?f fs"
      using n by (auto simp: upd_inode_def lookup_def split: option.splits)
    moreover have "fs_ok (upd_inode q ?f fs)" by (rule fs_ok_upd_inode [OF ok]) auto
    ultimately show ?thesis by simp
  qed
  then show ?thesis
    by (auto simp: keeps_def os_WriteFile_def split: sum.splits option.splits ftype.splits intro: fs_ok_new)
qed

lemma keeps_os_Create [keeps_rules]: "keeps fs_ok (os_Create p content)"
  by (simp add: os_Create_def keeps_os_WriteFile)

lemma keeps_os_Symlink [keeps_rules]: "keeps fs_ok (os_Symlink target p)"
  by (auto simp: keeps_def os_Symlink_def split: sum.splits intro: fs_ok_new)

lemma fs_ok_hard_link:
  assumes ok: "fs_ok fs" and r: "placed fs r" "lookup fs r = None"
    and i: "gm_get (dents fs) q = Some i"
  shows "fs_ok (fs\<lparr>dents := gm_set (dents fs) r i\<rparr>)"
proof -
  let ?fs = "fs\<lparr>dents := gm_set (dents fs) r i\<rparr>"
  have wf: "fs_wf fs" using ok by (simp add: fs_ok_def)
  have look: "lookup ?fs p = (if p = r then lookup fs q else lookup fs p)" for p
    using i by (simp add: lookup_def split: option.splits)
  have q: "lookup fs q \<noteq> None" using fs_wfD(3) [OF wf, of q] i by (simp add: gm_has_def)
  have keep: "is_dir_node (lookup ?fs p)" if "is_dir_node (lookup fs p)" for p
    using that r(2) by (auto simp: look is_dir_node_def)
  have "fs_wf ?fs"
  proof (rule fs_wfI)
    fix p assume "gm_has (dents ?fs) p"
    then consider "p = r" | "gm_has (dents fs) p" by auto
    then show "comps_ok p \<and> lookup ?fs p \<noteq> None \<and> (p \<noteq> [] \<longrightarrow> is_dir_node (lookup ?fs (butlast p)))"
      using r q keep [of "butlast p"] fs_wfD(3) [OF wf] by cases (auto simp: look placed_def)
  qed (use fs_wfD(1,2) [OF wf] keep in auto)
  with ok show ?thesis by (simp add: fs_ok_def)
qed

lemma keeps_os_Link [keeps_rules]: "keeps fs_ok (os_Link old new)"
proof -
  have "fs_ok (fs\<lparr>dents := gm_set (dents fs) r i\<rparr>)"
    if "fs_ok fs" "locate fs False new = Inr r" "lookup fs r = None" "gm_get (dents fs) q = Some i"
    for fs r q i
    using that locate_placed [of fs False new r] by (intro fs_ok_hard_link) (auto simp: fs_ok_def)
  then show ?thesis
    by (auto simp: keeps_def os_Link_def split: sum.splits option.splits)
qed

lemma keeps_upd_file: "(\<And>n. ity (f n) = ity n) \<Longrightarrow> keeps fs_ok (upd_file p f)"
  by (auto simp: keeps_def upd_file_def split: sum.splits intro!: fs_ok_upd_inode)

lemma keeps_os_Chmod [keeps_rules]: "keeps fs_ok (os_Chmod p mode)"
  unfolding os_Chmod_def by (rule keeps_upd_file) simp

lemma keeps_os_Chtimes [keeps_rules]: "keeps fs_ok (os_Chtimes p mtime)"
  unfolding os_Chtimes_def by (rule keeps_upd_file) simp

lemma keeps_os_Chown [keeps_rules]: "keeps fs_ok (os_Chown p uid gid)"
proof -
  have "keeps fs_ok (upd_file p (chown_inode uid gid))"
    by (rule keeps_upd_file) (simp add: chown_inode_def)
  then show ?thesis by (simp add: keeps_def os_Chown_def)
qed

subsection \<open>Changing attributes leaves every path where it was\<close>

definition same_shape :: "filesys \<Rightarrow> filesys \<Rightarrow> bool" where
  "same_shape fs fs' \<longleftrightarrow> (\<forall>p. map_option ity (lookup fs p) = map_option ity (lookup fs' p))"

lemma same_shape_node:
  assumes "same_shape fs fs'"
  shows "is_dir_node (lookup fs p) = is_dir_node (lookup fs' p)"
    and "link_target (lookup fs p) = link_target (lookup fs' p)"
    and "(lookup fs p = None) = (lookup fs' p = None)"
proof -
  have s: "map_option ity (lookup fs p) = map_option ity (lookup fs' p)"
    using assms by (simp add: same_shape_def)
  show "is_dir_node (lookup fs p) = is_dir_node (lookup fs' p)"
    "link_target (lookup fs p) = link_target (lookup fs' p)" "(lookup fs p = None) = (lookup fs' p = None)"
    using s by (auto simp: is_dir_node_def link_target_def split: option.splits)
qed

lemma resolve_same_shape:
  "same_shape fs fs' \<Longrightarrow> resolve links fs follow cur rest = resolve links fs' follow cur rest"
proof (induction links fs follow cur rest rule: resolve.induct)
  case (2 links fs follow cur c rest)
  note n = same_shape_node [OF 2(5)]
  show ?case
  proof (cases "link_target (lookup fs (cur @ [c]))")
    case None
    then show ?thesis using 2 n(2) [of "cur @ [c]"] n(1,3) [of cur] by (simp add: resolve.simps(2))
  next
    case (Some t)
    then show ?thesis using 2 n(2) [of "cur @ [c]"] n(1,3) [of cur] by (simp add: resolve.simps(2))
  qed
qed (simp add: resolve.simps)

lemma locate_same_shape: "same_shape fs fs' \<Longrightarrow> locate fs follow p = locate fs' follow p"
  by (simp add: locate_def resolve_same_shape [of fs fs'])

lemma same_shape_upd_inode: "(\<And>n. ity (f n) = ity n) \<Longrightarrow> same_shape fs (upd_inode q f fs)"
  by (auto simp: same_shape_def lookup_upd_inode option.map_comp comp_def intro!: option.map_cong0)

lemma same_shape_refl [simp]: "same_shape fs fs"
  by (simp add: same_shape_def)

lemma same_shape_trans: "same_shape a b \<Longrightarrow> same_shape b c \<Longrightarrow> same_shape a c"
  by (simp add: same_shape_def)

lemma same_shape_upd_file: "(\<And>n. ity (f n) = ity n) \<Longrightarrow> same_shape fs (snd (upd_file p f fs))"
  by (auto simp: upd_file_def same_shape_upd_inode split: sum.splits)

text \<open>What \<open>Stat\<close> of the updated path then shows.\<close>

lemma stat_gen_Inr:
  "stat_gen follow fs p = Inr n \<longleftrightarrow> (\<exists>q. locate fs follow p = Inr q \<and> lookup fs q = Some n)"
  by (auto simp: stat_gen_def split: option.splits)

lemma upd_file_ok:
  assumes "upd_file p f fs = (Inr u, fs')" and "\<And>n. ity (f n) = ity n"
  shows "\<exists>n. os_Stat fs p = Inr n \<and> os_Stat fs' p = Inr (f n)"
proof -
  from assms(1) obtain q n where q: "locate fs True p = Inr q" "lookup fs q = Some n" "fs' = upd_inode q f fs"
    by (auto simp: upd_file_def split: sum.splits if_splits)
  then have "locate fs' True p = Inr q" using locate_same_shape [OF same_shape_upd_inode [OF assms(2)]] by metis
  moreover have "same_file fs q q" using q(2) by (auto simp: same_file_def lookup_def split: option.splits)
  ultimately show ?thesis using q by (auto simp: os_Stat_def stat_gen_Inr lookup_upd_inode)
qed

end
