(* ===== verification/Os_Temp.thy ===== *)
theory Os_Temp
  imports Os_Write
begin

text \<open>
  Temporary files: \<open>os.CreateTemp\<close>, \<open>os.Rename\<close> and deferred removal, with which the program publishes a file only once it
  is complete (the cache of base images and the extracted \<open>proot\<close>). The lemmas say how these calls change the tree of files.
\<close>

subsection \<open>Temporary files\<close>

text \<open>\<open>os.CreateTemp\<close> with a pattern that ends in \<open>*\<close>, for a random part that is not in use, and \<open>os.Rename\<close> of a file, which
  replaces another file; directories are not renamed.\<close>

definition os_CreateTemp :: "(filesys \<Rightarrow> string) \<Rightarrow> string \<Rightarrow> string \<Rightarrow> (filesys, string) act" where
  "os_CreateTemp rnd d pre fs =
     (let path = (if d = [] then ''/tmp'' else if has_suffix d ''/'' then butlast d else d) @ ''/'' @ pre @ rnd fs
      in case os_Lstat fs path of
           Inr _ \<Rightarrow> (Inl (Sys EEXIST), fs)
         | Inl _ \<Rightarrow> sthen (os_WriteFile path [] 384) (sret path) fs)"

definition os_Rename :: "string \<Rightarrow> string \<Rightarrow> (filesys, unit) act" where
  "os_Rename old new fs =
     (case locate fs False old of
        Inl e \<Rightarrow> (Inl e, fs)
      | Inr p \<Rightarrow>
          (case gm_get (dents fs) p of
             None \<Rightarrow> (Inl (Sys ENOENT), fs)
           | Some i \<Rightarrow>
               if is_dir_node (lookup fs p) then (Inl (Sys EINVAL), fs)
               else (case locate fs False new of
                   Inl e \<Rightarrow> (Inl e, fs)
                 | Inr q \<Rightarrow>
                     if is_dir_node (lookup fs q) then (Inl (Sys EEXIST), fs)
                     else if gm_get (dents fs) q = Some i then (Inr (), fs)
                     else (Inr (), fs\<lparr>dents := gm_set (gm_del (dents fs) p) q i\<rparr>))))"

text \<open>A deferred action runs last, whatever the result, and its error is dropped.\<close>

definition deferred :: "('s, unit) act \<Rightarrow> ('s, 'a) act \<Rightarrow> ('s, 'a) act" where
  "deferred c m s = (case m s of (r, t) \<Rightarrow> (r, snd (c t)))"

subsection \<open>Names of files that exist\<close>

lemma existing_parent_dir:
  assumes "fs_wf fs" and "lookup fs cs = Some n" and "strict_prefix r cs"
  shows "is_dir_node (lookup fs r)" and "link_target (lookup fs r) = None"
proof -
  show d: "is_dir_node (lookup fs r)"
    using fs_wf_prefix [OF assms(1,2), of r] assms(3) by (auto simp: strict_prefix_def)
  then show "link_target (lookup fs r) = None"
    by (auto simp: is_dir_node_def link_target_def split: option.splits)
qed

lemma resolve_existing:
  assumes wf: "fs_wf fs" and n: "lookup fs cs = Some n" and leaf: "follow \<longrightarrow> link_target (lookup fs cs) = None"
  shows "acc @ rest = cs \<Longrightarrow> resolve l fs follow acc rest = Inr cs"
proof (induction rest arbitrary: acc)
  case (Cons c rest)
  have c: "comp_ok c" using fs_wf_entry(1) [OF wf n] Cons.prems by auto
  have "is_dir_node (lookup fs acc)"
    using existing_parent_dir(1) [OF wf n, of acc] Cons.prems by (auto simp: strict_prefix_def)
  moreover have "link_target (lookup fs (acc @ [c])) = None \<or> rest = [] \<and> \<not> follow"
  proof (cases "rest = []")
    case True
    with leaf Cons.prems show ?thesis by auto
  next
    case False
    then have "strict_prefix (acc @ [c]) cs" using Cons.prems by (auto simp: strict_prefix_def prefix_def)
    with existing_parent_dir(2) [OF wf n] show ?thesis by blast
  qed
  ultimately show ?case using Cons.IH [of "acc @ [c]"] Cons.prems c
    by (auto simp: resolve.simps comp_ok_def split: option.splits)
qed (simp add: resolve.simps)

lemma resolve_existing_abs:
  assumes wf: "fs_wf fs" and n: "lookup fs cs = Some n" and leaf: "follow \<longrightarrow> link_target (lookup fs cs) = None"
  shows "resolve l fs follow [] (split_on CHR ''/'' (abs_path cs)) = Inr cs"
proof -
  have "resolve l fs follow [] cs = Inr cs" using resolve_existing [OF assms, of "[]" cs] by simp
  moreover have "is_dir_node (lookup fs [])" using fs_wfD(2) [OF wf] .
  ultimately show ?thesis using fs_wf_entry(1) [OF wf n]
    by (cases cs) (auto simp: split_on_abs_path resolve.simps)
qed

lemma locate_existing:
  assumes "fs_wf fs" and "lookup fs cs = Some n" and "follow \<longrightarrow> link_target (lookup fs cs) = None"
  shows "locate fs follow (abs_path cs) = Inr cs"
  using resolve_existing_abs [OF assms] by (simp add: locate_def)

lemma lstat_existing: "fs_wf fs \<Longrightarrow> lookup fs cs = Some n \<Longrightarrow> os_Lstat fs (abs_path cs) = Inr n"
  by (simp add: os_Lstat_def stat_gen_Inr locate_existing)

subsection \<open>Names in a directory\<close>

lemma resolve_in_dir:
  assumes wf: "fs_wf fs" and n: "lookup fs cs = Some n" "is_dir n" and x: "comp_ok x" and leaf: "\<not> follow \<or> link_target (lookup fs (cs @ [x])) = None"
  shows "acc @ rest = cs \<Longrightarrow> resolve l fs follow acc (rest @ [x]) = Inr (cs @ [x])"
proof (induction rest arbitrary: acc)
  case Nil
  then show ?case using n x leaf by (auto simp: resolve.simps is_dir_node_def is_dir_def comp_ok_def split: option.split)
next
  case (Cons c rest)
  have c: "comp_ok c" using fs_wf_entry(1) [OF wf n(1)] Cons.prems by auto
  have "is_dir_node (lookup fs acc)"
    using existing_parent_dir(1) [OF wf n(1), of acc] Cons.prems by (auto simp: strict_prefix_def)
  moreover have "link_target (lookup fs (acc @ [c])) = None"
  proof (cases "rest = []")
    case True
    with n Cons.prems show ?thesis by (auto simp: link_target_def is_dir_def)
  next
    case False
    then have "strict_prefix (acc @ [c]) cs" using Cons.prems by (auto simp: strict_prefix_def prefix_def)
    then show ?thesis using existing_parent_dir(2) [OF wf n(1)] by simp
  qed
  ultimately show ?case using Cons c by (simp add: resolve.simps comp_ok_def)
qed

lemma locate_in_dir:
  assumes "fs_wf fs" and "lookup fs cs = Some n" and "is_dir n" and "comp_ok x" and "lookup fs (cs @ [x]) = None \<or> \<not> follow"
  shows "locate fs follow (abs_path (cs @ [x])) = Inr (cs @ [x])"
proof -
  have "resolve kernel_links fs follow [] (cs @ [x]) = Inr (cs @ [x])"
    by (rule resolve_in_dir [OF assms(1-4), of _ "[]"]) (use assms(5) in \<open>auto simp: link_target_def\<close>)
  moreover have "comps_ok (cs @ [x])" using fs_wf_entry(1) [OF assms(1, 2)] assms(4) by simp
  moreover have "is_dir_node (lookup fs [])" using fs_wfD(2) [OF assms(1)] .
  ultimately show ?thesis by (cases cs) (auto simp: locate_def split_on_abs_path resolve.simps)
qed

text \<open>Two file systems that look the same\<close>

definition looks :: "filesys \<Rightarrow> filesys \<Rightarrow> bool" where
  "looks fs fs' \<longleftrightarrow> fs_ok fs' \<and> lookup fs' = lookup fs"

lemma abs_path_no_slash:
  assumes "comps_ok cs" and "cs \<noteq> []"
  shows "\<not> has_suffix (abs_path cs) ''/''"
proof -
  obtain ds c where cs: "cs = ds @ [c]" using assms(2) by (metis append_butlast_last_id)
  with assms(1) have c: "c \<noteq> []" "CHR ''/'' \<notin> set c" by (auto simp: comp_ok_def)
  have "last (abs_path cs) = last c" using c(1) by (simp add: cs abs_path_snoc)
  also have "\<dots> \<noteq> CHR ''/''" using c by (metis last_in_set)
  finally have last: "last (abs_path cs) \<noteq> CHR ''/''" .
  show ?thesis
  proof
    assume "has_suffix (abs_path cs) ''/''"
    then have "abs_path cs = take (length (abs_path cs) - 1) (abs_path cs) @ ''/''"
      by (metis One_nat_def append_take_drop_id has_suffix_def length_Cons list.size(3))
    with last show False by (metis last_snoc)
  qed
qed

text \<open>A new file in a directory, and its removal\<close>

lemma create_temp:
  assumes ok: "fs_ok fs" and n: "lookup fs cs = Some n" "is_dir n" and ne: "cs \<noteq> []"
    and x: "comp_ok (pre @ rnd fs)" and new: "lookup fs (cs @ [pre @ rnd fs]) = None"
  shows "os_CreateTemp rnd (abs_path cs) pre fs =
    (Inr (abs_path (cs @ [pre @ rnd fs])), add_entry (cs @ [pre @ rnd fs]) (new_inode (FReg []) (umask 384)) fs)"
proof -
  have wf: "fs_wf fs" using ok by (simp add: fs_ok_def)
  let ?x = "pre @ rnd fs"
  have path: "abs_path cs @ ''/'' @ ?x = abs_path (cs @ [?x])" using ne by (simp add: abs_path_snoc)
  have "\<not> has_suffix (abs_path cs) ''/''" using ne fs_wf_entry(1) [OF wf n(1)] by (simp add: abs_path_no_slash)
  moreover have "locate fs f (abs_path (cs @ [?x])) = Inr (cs @ [?x])" for f
    by (rule locate_in_dir [OF wf n x]) (simp add: new)
  ultimately show ?thesis using new path
    by (simp add: os_CreateTemp_def os_Lstat_def stat_gen_def os_WriteFile_def sthen_def sret_def sbind_def)
qed

lemma remove_temp:
  assumes ok: "fs_ok fs" and n: "lookup fs cs = Some n" "is_dir n" and x: "comp_ok x" and new: "lookup fs (cs @ [x]) = None"
    and same: "looks (add_entry (cs @ [x]) i fs) fs'" and reg: "ity i \<noteq> FDir"
  shows "looks fs (snd (os_Remove (abs_path (cs @ [x])) fs'))"
proof -
  have l: "lookup fs' p = (if p = cs @ [x] then Some i else lookup fs p)" for p
    using same lookup_add_entry [OF ok] by (simp add: looks_def)
  have ok': "fs_ok fs'" and wf': "fs_wf fs'" using same by (simp_all add: looks_def fs_ok_def)
  have "locate fs' False (abs_path (cs @ [x])) = Inr (cs @ [x])" using locate_existing [OF wf'] l by simp
  then have "snd (os_Remove (abs_path (cs @ [x])) fs') = remove_tree (cs @ [x]) fs'"
    using reg l by (simp add: os_Remove_def is_dir_node_def)
  moreover have "lookup fs p = None" if "prefix (cs @ [x]) p" for p
  proof (rule ccontr)
    assume "lookup fs p \<noteq> None"
    then obtain m where m: "lookup fs p = Some m" by auto
    have wf: "fs_wf fs" using ok by (simp add: fs_ok_def)
    show False using existing_parent_dir(1) [OF wf m, of "cs @ [x]"] that m new by (cases "p = cs @ [x]") (auto simp: strict_prefix_def is_dir_node_def)
  qed
  ultimately show ?thesis using fs_ok_remove_tree [OF ok', of "cs @ [x]"] l by (auto simp: looks_def lookup_remove_tree fun_eq_iff)
qed


text \<open>A name that is free in a directory\<close>

definition unused :: "string list \<Rightarrow> string \<Rightarrow> filesys \<Rightarrow> bool" where
  "unused cs x fs \<longleftrightarrow> comp_ok x \<and> lookup fs (cs @ [x]) = None"

lemma add_entry_in_dir:
  assumes "fs_ok fs" and "lookup fs cs = Some n" and "is_dir n" and "comp_ok x" and "lookup fs (cs @ [x]) = None"
  shows "fs_ok (add_entry (cs @ [x]) i fs)"
proof -
  have "fs_wf fs" using assms(1) by (simp add: fs_ok_def)
  with fs_wf_entry(1) [OF this assms(2)] assms(2-4) have "placed fs (cs @ [x])" by (simp add: placed_def is_dir_node_def is_dir_def)
  with fs_ok_add_entry assms(1, 5) show ?thesis by blast
qed

subsection \<open>Renaming\<close>

definition moved :: "string list \<Rightarrow> string list \<Rightarrow> nat \<Rightarrow> filesys \<Rightarrow> filesys" where
  "moved p q i fs = fs\<lparr>dents := gm_set (gm_del (dents fs) p) q i\<rparr>"

lemma lookup_moved:
  assumes "gm_get (dents fs) p = Some i" and "p \<noteq> q"
  shows "lookup (moved p q i fs) r = (if r = q then lookup fs p else if r = p then None else lookup fs r)"
  using assms by (auto simp: lookup_def moved_def split: option.splits)

lemma fs_ok_moved:
  assumes ok: "fs_ok fs" and i: "gm_get (dents fs) p = Some i" "\<not> is_dir_node (lookup fs p)"
    and q: "placed fs q" "\<not> is_dir_node (lookup fs q)" "p \<noteq> q"
  shows "fs_ok (moved p q i fs)"
proof -
  let ?fs = "moved p q i fs"
  have wf: "fs_wf fs" using ok by (simp add: fs_ok_def)
  note look = lookup_moved [OF i(1) q(3)]
  have p: "lookup fs p \<noteq> None" using fs_wfD(3) [OF wf, of p] i(1) by (simp add: gm_has_def)
  have keep: "is_dir_node (lookup ?fs r)" if "is_dir_node (lookup fs r)" for r
    using that i(2) q(2) by (auto simp: look)
  have "fs_wf ?fs"
  proof (rule fs_wfI)
    fix r assume "gm_has (dents ?fs) r"
    then consider "r = q" | "gm_has (dents fs) r" "r \<noteq> p" by (auto simp: moved_def gm_has_def split: if_splits)
    then show "comps_ok r \<and> lookup ?fs r \<noteq> None \<and> (r \<noteq> [] \<longrightarrow> is_dir_node (lookup ?fs (butlast r)))"
      using q p keep [of "butlast r"] fs_wfD(3) [OF wf] by cases (auto simp: look placed_def)
  qed (use fs_wfD(1,2) [OF wf] keep in \<open>auto simp: moved_def\<close>)
  with ok show ?thesis by (simp add: fs_ok_def moved_def)
qed

lemma keeps_os_Rename [keeps_rules]: "keeps fs_ok (os_Rename old new)"
proof -
  have "fs_ok (moved p q i fs)"
    if "fs_ok fs" "locate fs False new = Inr q" "gm_get (dents fs) p = Some i" "gm_get (dents fs) q \<noteq> Some i"
      "\<not> is_dir_node (lookup fs p)" "\<not> is_dir_node (lookup fs q)" for fs p q i
    using that locate_placed [of fs False new q] by (intro fs_ok_moved) (auto simp: fs_ok_def)
  then show ?thesis
    by (auto simp: keeps_def os_Rename_def moved_def [symmetric] split: sum.splits option.splits)
qed

lemma keeps_os_CreateTemp [keeps_rules]: "keeps fs_ok (os_CreateTemp rnd d pre)"
proof -
  have "keeps fs_ok (sthen (os_WriteFile path [] 384) (sret path))" for path by (intro keeps_rules)
  then show ?thesis unfolding keeps_def by (auto simp: os_CreateTemp_def Let_def split: sum.split)
qed

lemma keeps_deferred [keeps_rules]: "keeps P c \<Longrightarrow> keeps P m \<Longrightarrow> keeps P (deferred c m)"
  by (fastforce simp: keeps_def deferred_def split: prod.splits)

text \<open>A file that takes the place of another in the same directory\<close>

lemma rename_in_dir:
  assumes ok: "fs_ok fs" and n: "lookup fs cs = Some n" "is_dir n" and x: "lookup fs (cs @ [x]) = Some m" "\<not> is_dir m"
    and y: "comp_ok y" "\<not> is_dir_node (lookup fs (cs @ [y]))" and fresh: "gm_get (dents fs) (cs @ [y]) \<noteq> gm_get (dents fs) (cs @ [x])"
  shows "\<exists>fs'. os_Rename (abs_path (cs @ [x])) (abs_path (cs @ [y])) fs = (Inr (), fs') \<and> fs_ok fs' \<and>
    lookup fs' = (lookup fs)(cs @ [x] := None, cs @ [y] := Some m)"
proof -
  have wf: "fs_wf fs" using ok by (simp add: fs_ok_def)
  obtain i where i: "gm_get (dents fs) (cs @ [x]) = Some i" using x(1) by (auto simp: lookup_def split: option.splits)
  have nd: "\<not> is_dir_node (lookup fs (cs @ [x]))" using x by (simp add: is_dir_node_def is_dir_def)
  have l: "locate fs False (abs_path (cs @ [x])) = Inr (cs @ [x])" "locate fs False (abs_path (cs @ [y])) = Inr (cs @ [y])"
    using fs_wf_entry(1) [OF wf x(1)] by (auto intro!: locate_in_dir [OF wf n] y(1))
  have ne: "cs @ [x] \<noteq> cs @ [y]" using fresh by auto
  have "os_Rename (abs_path (cs @ [x])) (abs_path (cs @ [y])) fs = (Inr (), moved (cs @ [x]) (cs @ [y]) i fs)"
    using l i nd y(2) fresh by (simp add: os_Rename_def moved_def)
  moreover have "fs_ok (moved (cs @ [x]) (cs @ [y]) i fs)"
    using locate_placed [OF wf l(2)] by (intro fs_ok_moved ok i nd y(2) ne)
  moreover have "lookup (moved (cs @ [x]) (cs @ [y]) i fs) = (lookup fs)(cs @ [x] := None, cs @ [y] := Some m)"
    using lookup_moved [OF i ne] x(1) ne by (auto simp: fun_eq_iff)
  ultimately show ?thesis by blast
qed

subsection \<open>A file that is written under another name first\<close>

lemma new_inode_simps [simp]:
  "ity (new_inode t m) = t" "is_dir (new_inode t m) \<longleftrightarrow> t = FDir"
  "(new_inode t m)\<lparr>ity := t'\<rparr> = new_inode t' m" "(new_inode t m)\<lparr>imode := m'\<rparr> = new_inode t m'"
  by (simp_all add: new_inode_def is_dir_def)

lemma upd_inode_add_entry: "upd_inode q f (add_entry q n fs) = add_entry q (f n) fs"
  by (simp add: upd_inode_def add_entry_def gm_set_def gm_get_def update_conv')

lemma new_file_ops:
  assumes ok: "fs_ok fs" and n: "lookup fs cs = Some n" "is_dir n" and x: "unused cs x fs"
  shows "fs_ok (add_entry (cs @ [x]) (new_inode (FReg c) m) fs)"
    and "os_WriteFile (abs_path (cs @ [x])) b k (add_entry (cs @ [x]) (new_inode (FReg c) m) fs) =
      (Inr (), add_entry (cs @ [x]) (new_inode (FReg b) m) fs)"
    and "os_Chmod (abs_path (cs @ [x])) mode (add_entry (cs @ [x]) (new_inode (FReg c) m) fs) =
      (Inr (), add_entry (cs @ [x]) (new_inode (FReg c) mode) fs)"
proof -
  let ?fs = "add_entry (cs @ [x]) (new_inode (FReg c) m) fs"
  show ok': "fs_ok ?fs" using x by (intro add_entry_in_dir [OF ok n]) (simp_all add: unused_def)
  have l: "lookup ?fs (cs @ [x]) = Some (new_inode (FReg c) m)" by (simp add: lookup_add_entry [OF ok])
  have "fs_wf ?fs" using ok' by (simp add: fs_ok_def)
  moreover have "link_target (lookup ?fs (cs @ [x])) = None" unfolding l by (simp add: link_target_def)
  ultimately have "locate ?fs True (abs_path (cs @ [x])) = Inr (cs @ [x])" using locate_existing [OF _ l] by blast
  with l show "os_WriteFile (abs_path (cs @ [x])) b k ?fs = (Inr (), add_entry (cs @ [x]) (new_inode (FReg b) m) fs)"
    and "os_Chmod (abs_path (cs @ [x])) mode ?fs = (Inr (), add_entry (cs @ [x]) (new_inode (FReg c) mode) fs)"
    by (simp_all add: os_WriteFile_def os_Chmod_def upd_file_def upd_inode_add_entry)
qed

lemma remove_missing:
  assumes "fs_ok fs" and "lookup fs cs = Some n" and "is_dir n" and "unused cs x fs"
  shows "snd (os_Remove (abs_path (cs @ [x])) fs) = fs"
proof -
  have "locate fs False (abs_path (cs @ [x])) = Inr (cs @ [x])"
    using assms by (intro locate_in_dir) (simp_all add: fs_ok_def unused_def)
  then show ?thesis using assms(4) by (simp add: os_Remove_def unused_def)
qed

lemma replace_file:
  assumes ok: "fs_ok fs" and n: "lookup fs cs = Some n" "is_dir n" and x: "unused cs x fs" and m: "\<not> is_dir m"
    and y: "comp_ok y" "\<not> is_dir_node (lookup fs (cs @ [y]))" "y \<noteq> x"
  shows "\<exists>fs'. os_Rename (abs_path (cs @ [x])) (abs_path (cs @ [y])) (add_entry (cs @ [x]) m fs) = (Inr (), fs') \<and> fs_ok fs' \<and>
    lookup fs' = (lookup fs)(cs @ [y] \<mapsto> m)"
proof -
  let ?fs = "add_entry (cs @ [x]) m fs"
  have ok': "fs_ok ?fs" using x by (intro add_entry_in_dir [OF ok n]) (simp_all add: unused_def)
  note l = lookup_add_entry [OF ok]
  have "gm_get (dents fs) (cs @ [y]) \<noteq> Some (next_ino fs)"
  proof
    assume i: "gm_get (dents fs) (cs @ [y]) = Some (next_ino fs)"
    have "lookup fs (cs @ [y]) \<noteq> None" using i ok fs_wfD(3) [of fs "cs @ [y]"] by (simp add: fs_ok_def gm_has_def)
    with i fs_ok_fresh [OF ok, of "next_ino fs"] show False by (auto simp: lookup_def)
  qed
  then have "gm_get (dents ?fs) (cs @ [y]) \<noteq> gm_get (dents ?fs) (cs @ [x])" using y(3) by (simp add: add_entry_def)
  from rename_in_dir [OF ok' _ n(2) _ m y(1) _ this] n(1) y(2, 3)
  obtain fs' where fs': "os_Rename (abs_path (cs @ [x])) (abs_path (cs @ [y])) ?fs = (Inr (), fs')" "fs_ok fs'"
    "lookup fs' = (lookup ?fs)(cs @ [x] := None, cs @ [y] := Some m)"
    by (auto simp: l)
  moreover have "lookup fs' = (lookup fs)(cs @ [y] \<mapsto> m)"
    using x y(3) by (auto simp: fs'(3) l fun_eq_iff unused_def)
  ultimately show ?thesis by blast
qed

end
