(* ===== verification/Ignore_List.thy ===== *)
theory Ignore_List
  imports Os_Temp
begin

text \<open>
  The process-wide state of \<open>pkg/config\<close> and \<open>pkg/util/fs_util.go\<close> (configuration, ignore lists,
  volumes, the file system) and the functions that decide which paths a build may touch: matching
  against the ignore list, detecting mount points, and mapping a path into the build root
  (\<open>config.RootDir\<close>) with \<open>securejoin\<close>.
\<close>

subsection \<open>State\<close>

record IgnoreListEntry =
  Path :: string
  PrefixMatchOnly :: bool

record config =
  RootDir :: string
  KanikoDir :: string
  MountInfoPath :: string
  SandboxUserns :: bool

record world =
  conf :: config
  ignorelist :: "IgnoreListEntry list"
  defaultIgnoreList :: "IgnoreListEntry list"
  volumes :: "string list"
  files :: filesys
  provisionedProotPath :: string

text \<open>A file system call made by the program.\<close>

definition on_files :: "(filesys, 'a) act \<Rightarrow> (world, 'a) act" where
  "on_files m w = (case m (files w) of (r, fs) \<Rightarrow> (r, w\<lparr>files := fs\<rparr>))"

definition world_ok :: "world \<Rightarrow> bool" where
  "world_ok w \<longleftrightarrow> fs_ok (files w)"

lemma keeps_on_files [keeps_rules]: "keeps fs_ok m \<Longrightarrow> keeps world_ok (on_files m)"
  by (auto simp: keeps_def on_files_def world_ok_def split: prod.splits)

definition entry :: "string \<Rightarrow> bool \<Rightarrow> IgnoreListEntry" where
  "entry p b = \<lparr>Path = p, PrefixMatchOnly = b\<rparr>"

definition initial_default_list :: "config \<Rightarrow> IgnoreListEntry list" where
  "initial_default_list c =
     [entry (clean (KanikoDir c)) False, entry ''/etc/mtab'' False, entry ''/tmp/apt-key-gpghome'' True]"

subsection \<open>Prefix matching\<close>

fun match_all :: "string list \<Rightarrow> string list \<Rightarrow> bool" where
  "match_all (p # ps) (x # xs) =
     (case match p x of Inl _ \<Rightarrow> False | Inr m \<Rightarrow> m \<and> match_all ps xs)"
| "match_all _ _ = True"

definition hasCleanedFilepathPrefix :: "string \<Rightarrow> string \<Rightarrow> bool \<Rightarrow> bool" where
  "hasCleanedFilepathPrefix path pre prefixMatchOnly =
     (let prefixArray = split_on CHR ''/'' pre;
          pathArray = splitn (length prefixArray + 1) CHR ''/'' path
      in if length pathArray < length prefixArray then False
         else if prefixMatchOnly \<and> length pathArray = length prefixArray then False
         else match_all prefixArray pathArray)"

definition HasFilepathPrefix :: "string \<Rightarrow> string \<Rightarrow> bool \<Rightarrow> bool" where
  "HasFilepathPrefix path pre prefixMatchOnly =
     hasCleanedFilepathPrefix (clean path) (clean pre) prefixMatchOnly"

subsection \<open>Paths inside the root\<close>

definition hasDotDot :: "string \<Rightarrow> bool" where
  "hasDotDot path = contains (''/'' @ path @ ''/'') ''/../''"

text \<open>The loop of the vendored \<open>securejoin.SecureJoinVFS\<close>; \<open>links\<close> counts down from its limit of
  255 symbolic links.\<close>

definition next_part :: "string \<Rightarrow> string \<times> string" where
  "next_part s = (case cut CHR ''/'' s of None \<Rightarrow> (s, []) | Some (a, b) \<Rightarrow> (a, b))"

definition not_there :: "err \<Rightarrow> bool" where
  "not_there e = (e = Sys ENOENT \<or> e = Sys ENOTDIR)"

lemma next_part_length: "s \<noteq> [] \<Longrightarrow> length (snd (next_part s)) < length s"
  by (auto simp: next_part_def dest: cut_Some split: option.splits)

function secure_join_loop :: "nat \<Rightarrow> filesys \<Rightarrow> string \<Rightarrow> string \<Rightarrow> string \<Rightarrow> string res" where
  "secure_join_loop links fs root currentPath remainingPath =
     (if remainingPath = [] then Inr currentPath
      else let part = fst (next_part remainingPath); rest = snd (next_part remainingPath);
               nextPath = join_path [''/'', currentPath, part];
               fullPath = root @ ''/'' @ nextPath
           in if nextPath = ''/'' then secure_join_loop links fs root [] rest
              else (case os_Lstat fs fullPath of
                 Inl e \<Rightarrow> if not_there e then secure_join_loop links fs root nextPath rest else Inl e
               | Inr fi \<Rightarrow>
                   if \<not> is_symlink fi then secure_join_loop links fs root nextPath rest
                   else if links = 0 then Inl (Sys ELOOP)
                   else (case os_Readlink fs fullPath of
                           Inl e \<Rightarrow> Inl e
                         | Inr dest \<Rightarrow>
                             secure_join_loop (links - 1) fs root
                               (if is_abs dest then [] else currentPath) (dest @ ''/'' @ rest))))"
  by pat_completeness auto
termination
  by (relation "measures [\<lambda>(l, fs, r, c, rem). l, \<lambda>(l, fs, r, c, rem). length rem]")
    (auto simp: next_part_length)

declare secure_join_loop.simps [simp del]

definition maxSymlinkLimit :: nat where
  "maxSymlinkLimit = 255"

definition SecureJoin :: "filesys \<Rightarrow> string \<Rightarrow> string \<Rightarrow> string res" where
  "SecureJoin fs root unsafePath =
     (if hasDotDot root then Inl (Msg ''root path provided to SecureJoin contains '..' components'')
      else rbind (secure_join_loop maxSymlinkLimit fs root [] unsafePath)
             (\<lambda>currentPath. Inr (join_path [root, join_path [''/'', currentPath]])))"

definition ResolvePathInRoot :: "world \<Rightarrow> string \<Rightarrow> string res" where
  "ResolvePathInRoot w path =
     (let cleanedRoot = clean (RootDir (conf w));
          cleanedPath = (if clean path = ''.'' then ''/'' else clean path)
      in if cleanedRoot = ''/'' then Inr cleanedPath
         else rbind (if hasCleanedFilepathPrefix cleanedPath cleanedRoot False
                     then rel cleanedRoot cleanedPath
                     else if is_abs cleanedPath then Inr (trim_prefix cleanedPath ''/'')
                     else Inr cleanedPath)
                (\<lambda>unsafePath. SecureJoin (files w) cleanedRoot unsafePath))"

definition RootedPath :: "world \<Rightarrow> string \<Rightarrow> string" where
  "RootedPath w path =
     (case ResolvePathInRoot w path of
        Inr rooted \<Rightarrow> rooted
      | Inl _ \<Rightarrow>
          let root = clean (RootDir (conf w)) in
          if root = ''/'' then clean path
          else let cleaned = (if is_abs (clean path) then trim_prefix (clean path) ''/'' else clean path)
               in join_path [root, cleaned])"

definition resolveLeafInRoot :: "world \<Rightarrow> string \<Rightarrow> string res" where
  "resolveLeafInRoot w p =
     rbind (ResolvePathInRoot w (dir p)) (\<lambda>resolvedDir. Inr (join_path [resolvedDir, base p]))"

definition shouldResolveInRoot :: "world \<Rightarrow> string \<Rightarrow> bool" where
  "shouldResolveInRoot w path =
     (let root = clean (RootDir (conf w)) in
      if root = ''/'' then False else hasCleanedFilepathPrefix (clean path) root False)"

subsection \<open>The ignore list\<close>

definition normalizeIgnoreListEntry :: "world \<Rightarrow> IgnoreListEntry \<Rightarrow> IgnoreListEntry" where
  "normalizeIgnoreListEntry w e =
     (let path = clean (Path e) in
      entry (if is_abs path then RootedPath w path else path) (PrefixMatchOnly e))"

definition AddToIgnoreList :: "IgnoreListEntry \<Rightarrow> world \<Rightarrow> world" where
  "AddToIgnoreList e w = w\<lparr>ignorelist := ignorelist w @ [normalizeIgnoreListEntry w e]\<rparr>"

definition AddToDefaultIgnoreList :: "IgnoreListEntry \<Rightarrow> world \<Rightarrow> world" where
  "AddToDefaultIgnoreList e w =
     w\<lparr>defaultIgnoreList := defaultIgnoreList w @ [entry (clean (Path e)) (PrefixMatchOnly e)]\<rparr>"

definition IsInProvidedIgnoreList :: "string \<Rightarrow> IgnoreListEntry list \<Rightarrow> bool" where
  "IsInProvidedIgnoreList path wl =
     list_ex (\<lambda>e. \<not> PrefixMatchOnly e \<and> clean path = Path e) wl"

definition IsInIgnoreList :: "world \<Rightarrow> string \<Rightarrow> bool" where
  "IsInIgnoreList w path = IsInProvidedIgnoreList path (ignorelist w)"

text \<open>The function takes a list \<open>wl\<close> and reads the package variable instead.\<close>

definition CheckCleanedPathAgainstProvidedIgnoreList ::
    "world \<Rightarrow> string \<Rightarrow> IgnoreListEntry list \<Rightarrow> bool" where
  "CheckCleanedPathAgainstProvidedIgnoreList w path wl =
     list_ex (\<lambda>e. hasCleanedFilepathPrefix path (Path e) (PrefixMatchOnly e)) (ignorelist w)"

definition CheckCleanedPathAgainstIgnoreList :: "world \<Rightarrow> string \<Rightarrow> bool" where
  "CheckCleanedPathAgainstIgnoreList w path =
     CheckCleanedPathAgainstProvidedIgnoreList w path (ignorelist w)"

definition CheckIgnoreList :: "world \<Rightarrow> string \<Rightarrow> bool" where
  "CheckIgnoreList w path = CheckCleanedPathAgainstIgnoreList w (clean path)"

definition checkIgnoreListRoot :: "world \<Rightarrow> string \<Rightarrow> bool" where
  "checkIgnoreListRoot w root = (root \<noteq> RootDir (conf w) \<and> CheckIgnoreList w root)"

definition childDirInIgnoreList :: "world \<Rightarrow> string \<Rightarrow> bool" where
  "childDirInIgnoreList w path =
     list_ex (\<lambda>d. HasFilepathPrefix (Path d) path (PrefixMatchOnly d)) (ignorelist w)"

text \<open>\<open>ReadString\<close> up to the newline keeps the newline; the last line ends with the file.\<close>

definition read_lines :: "string \<Rightarrow> string list" where
  "read_lines s =
     (let parts = split_on CHR 0x0A s in map (\<lambda>l. l @ [CHR 0x0A]) (butlast parts) @ [last parts])"

definition add_mount_line :: "string \<Rightarrow> world \<Rightarrow> world" where
  "add_mount_line line w =
     (let lineArr = split_on CHR '' '' line in
      if length lineArr < 5 then w
      else if lineArr ! 4 \<noteq> RootDir (conf w) \<and> lineArr ! 4 \<noteq> ''/''
      then AddToIgnoreList (entry (lineArr ! 4) False) w else w)"

definition DetectFilesystemIgnoreList :: "string \<Rightarrow> (world, unit) act" where
  "DetectFilesystemIgnoreList path w =
     (case os_ReadFile (files w) path of
        Inl e \<Rightarrow> (Inl e, w)
      | Inr content \<Rightarrow> (Inr (), fold add_mount_line (read_lines content) w))"

definition InitIgnoreList :: "(world, unit) act" where
  "InitIgnoreList w =
     (let w1 = fold (\<lambda>e w. w\<lparr>ignorelist := ignorelist w @ [normalizeIgnoreListEntry w e]\<rparr>)
                 (defaultIgnoreList w) (w\<lparr>ignorelist := []\<rparr>)
      in swrap ''checking filesystem mount paths for ignore list''
           (DetectFilesystemIgnoreList (MountInfoPath (conf w))) w1)"

definition AddVolumePathToIgnoreList :: "string \<Rightarrow> world \<Rightarrow> world" where
  "AddVolumePathToIgnoreList path w =
     (let w1 = AddToIgnoreList (entry path True) w in w1\<lparr>volumes := volumes w1 @ [path]\<rparr>)"

subsection \<open>Parent directories\<close>

text \<open>The loop ends at the root of the build, at \<open>.\<close> or at the empty path; \<open>None\<close> is a loop that
  never ends.\<close>

partial_function (option) parent_loop :: "string \<Rightarrow> string \<Rightarrow> string list \<Rightarrow> string list option" where
  "parent_loop root d paths =
     (if d = root \<or> d = [] \<or> d = ''.'' then Some paths
      else let d' = clean (fst (split_path d)) in parent_loop root d' (d' # paths))"

declare parent_loop.simps [code]

definition ParentDirectories :: "config \<Rightarrow> string \<Rightarrow> string list option" where
  "ParentDirectories c path =
     map_option (\<lambda>paths. if paths = [] then [RootDir c] else paths)
       (parent_loop (clean (RootDir c)) (clean path) [])"

text \<open>What a caller sees of it: a list, or no return at all.\<close>

definition parents :: "config \<Rightarrow> string \<Rightarrow> string list res" where
  "parents c path = (case ParentDirectories c path of None \<Rightarrow> Inl Hang | Some ps \<Rightarrow> Inr ps)"

fun slashless_loop :: "string \<Rightarrow> string list \<Rightarrow> string list" where
  "slashless_loop dirPath [] = []"
| "slashless_loop dirPath [d] = []"
| "slashless_loop dirPath (d # e # ds) =
     (if d = [] then slashless_loop dirPath (e # ds)
      else let p = join_path [dirPath, d] in p # slashless_loop p (e # ds))"

definition ParentDirectoriesWithoutLeadingSlash :: "config \<Rightarrow> string \<Rightarrow> string list" where
  "ParentDirectoriesWithoutLeadingSlash c path =
     RootDir c # slashless_loop [] (split_on CHR ''/'' (clean path))"

subsection \<open>Prefix matching is a prefix on components\<close>

lemma match_all_literal:
  "list_all literal ps \<Longrightarrow> length ps \<le> length xs \<Longrightarrow> match_all ps xs \<longleftrightarrow> take (length ps) xs = ps"
proof (induction ps arbitrary: xs)
  case (Cons p ps)
  then show ?case by (cases xs) auto
qed simp

lemma limited_prefix:
  assumes "length n = min (Suc (length p)) (length x)" and "take (length p) n = take (length p) x"
    and "length p \<le> length n \<Longrightarrow> m \<longleftrightarrow> take (length p) n = p"
  shows "(if length n < length p then False else if b \<and> length n = length p then False else m) \<longleftrightarrow>
    prefix p x \<and> (b \<longrightarrow> length p < length x)"
proof -
  have px: "prefix p x \<longleftrightarrow> length p \<le> length x \<and> take (length p) x = p"
    unfolding prefix_def by (metis append_eq_conv_conj append_take_drop_id length_append le_add1)
  show ?thesis
  proof (cases "length p \<le> length x")
    case True
    then have "length p \<le> length n" and "length n = length p \<longleftrightarrow> length x = length p"
      using assms(1) by auto
    with assms(2,3) True px show ?thesis by auto
  qed (use assms(1) px in auto)
qed

lemma hasCleanedFilepathPrefix_split:
  assumes "list_all literal (split_on CHR ''/'' pre)"
  shows "hasCleanedFilepathPrefix path pre b \<longleftrightarrow>
    prefix (split_on CHR ''/'' pre) (split_on CHR ''/'' path) \<and>
    (b \<longrightarrow> length (split_on CHR ''/'' pre) < length (split_on CHR ''/'' path))"
proof -
  let ?p = "split_on CHR ''/'' pre" and ?x = "split_on CHR ''/'' path"
  let ?n = "splitn (length ?p + 1) CHR ''/'' path"
  have len: "length ?n = min (Suc (length ?p)) (length ?x)"
    using length_splitn [of "length ?p" "CHR ''/''" path] by simp
  have tk: "take (length ?p) ?n = take (length ?p) ?x"
    using splitn_take [of "length ?p" "CHR ''/''" path] by simp
  show ?thesis
    unfolding hasCleanedFilepathPrefix_def Let_def
    using match_all_literal [OF assms, of ?n] by (rule limited_prefix [OF len tk])
qed

lemma hasCleanedFilepathPrefix_abs:
  assumes "comps_ok cs" and "comps_ok ds" and "list_all literal cs" and "cs \<noteq> []"
  shows "hasCleanedFilepathPrefix (abs_path ds) (abs_path cs) b \<longleftrightarrow> prefix cs ds \<and> (b \<longrightarrow> cs \<noteq> ds)"
proof -
  have len: "length cs < length ds" if "prefix cs ds" "cs \<noteq> ds"
    using that by (auto simp: strict_prefix_def intro: prefix_length_less)
  have one: "list_all literal (split_on CHR ''/'' (abs_path cs))"
    using assms by (simp add: split_on_abs_path)
  have root: "\<not> prefix ([] # cs) [[], []]"
    using assms(1,4) by (cases cs) (auto simp: comp_ok_def)
  show ?thesis
    unfolding hasCleanedFilepathPrefix_split [OF one]
    using assms(4) root len by (auto simp: split_on_abs_path [OF assms(1)] split_on_abs_path [OF assms(2)])
qed

subsection \<open>Parent directories\<close>

lemma parent_loop_below:
  assumes ok: "comps_ok rs"
  shows "comps_ok (rs @ cs) \<Longrightarrow>
    parent_loop (abs_path rs) (abs_path (rs @ cs)) acc =
      Some (map (\<lambda>i. abs_path (rs @ take i cs)) [0..<length cs] @ acc)"
proof (induction cs arbitrary: acc rule: rev_induct)
  case Nil
  then show ?case by (simp add: parent_loop.simps)
next
  case (snoc c cs)
  have c: "comps_ok (rs @ cs)" "comp_ok c" "comps_ok (rs @ cs @ [c])" using snoc.prems by auto
  have d: "clean (fst (split_path (abs_path (rs @ cs @ [c])))) = abs_path (rs @ cs)"
    using dir_abs_path [of "rs @ cs" c] c by (simp add: dir_def)
  have "abs_path (rs @ cs @ [c]) \<noteq> abs_path rs" using c(3) ok abs_path_inj by fastforce
  then have "parent_loop (abs_path rs) (abs_path (rs @ cs @ [c])) acc =
      parent_loop (abs_path rs) (abs_path (rs @ cs)) (abs_path (rs @ cs) # acc)"
    by (subst parent_loop.simps) (simp add: d Let_def)
  also have "\<dots> = Some (map (\<lambda>i. abs_path (rs @ take i cs)) [0..<length cs] @ abs_path (rs @ cs) # acc)"
    using snoc.IH c(1) by simp
  finally show ?case by simp
qed

lemma parent_loop_outside:
  assumes "parent_loop root d acc = Some res"
  shows "root = abs_path rs \<Longrightarrow> comps_ok rs \<Longrightarrow> d = abs_path cs \<Longrightarrow> comps_ok cs \<Longrightarrow> prefix rs cs"
  using assms
proof (induction arbitrary: cs rule: parent_loop.raw_induct [rotated 1, consumes 1])
  case (1 f root d acc res)
  show ?case
  proof (cases "d = root")
    case True
    with 1 show ?thesis using abs_path_inj by blast
  next
    case False
    with 1 have f: "f root (clean (fst (split_path d))) (clean (fst (split_path d)) # acc) = Some res"
      by (auto simp: Let_def)
    have d: "clean (fst (split_path d)) = abs_path (butlast cs)"
    proof (cases cs rule: rev_cases)
      case Nil
      with 1 show ?thesis using dir_root by (simp add: dir_def)
    next
      case (snoc ds c)
      with 1 show ?thesis using dir_abs_path [of ds c] by (simp add: dir_def)
    qed
    have "comps_ok (butlast cs)" using 1 by (auto simp: list_all_iff dest: in_set_butlastD)
    with 1(1) [OF f] 1(3,4) d have "prefix rs (butlast cs)" by blast
    then show ?thesis by (meson prefix_order.trans prefixeq_butlast)
  qed
qed

subsection \<open>A path resolved in the root stays in the root\<close>

definition is_link :: "inode res \<Rightarrow> bool" where
  "is_link r = (case r of Inl _ \<Rightarrow> False | Inr n \<Rightarrow> is_symlink n)"

text \<open>No component of \<open>ds\<close>, seen from \<open>root\<close>, is a symbolic link.\<close>

definition no_links :: "filesys \<Rightarrow> string \<Rightarrow> string list \<Rightarrow> bool" where
  "no_links fs root ds \<longleftrightarrow>
     (\<forall>es. es \<noteq> [] \<longrightarrow> prefix es ds \<longrightarrow> \<not> is_link (os_Lstat fs (root @ ''/'' @ abs_path es)))"

lemma no_links_Nil [simp]: "no_links fs root []"
  by (simp add: no_links_def)

lemma no_links_prefix: "no_links fs root ds \<Longrightarrow> prefix es ds \<Longrightarrow> no_links fs root es"
  by (auto simp: no_links_def intro: prefix_order.trans)

lemma no_links_snoc:
  "no_links fs root ds \<Longrightarrow> \<not> is_link (os_Lstat fs (root @ ''/'' @ abs_path (ds @ [c]))) \<Longrightarrow>
   no_links fs root (ds @ [c])"
  by (auto simp: no_links_def)

definition cur_path :: "string list \<Rightarrow> string" where
  "cur_path ds = (if ds = [] then [] else abs_path ds)"

definition step_comps :: "string \<Rightarrow> string list \<Rightarrow> string list" where
  "step_comps part ds = rev (clean_step True part (rev ds))"

lemma split_on_cur_path:
  "comps_ok ds \<Longrightarrow> fold (clean_step True) (split_on CHR ''/'' (cur_path ds)) [] = rev ds"
  by (auto simp: cur_path_def split_on_abs_path fold_clean_step_ok)

lemma join_path_cur:
  assumes "comps_ok ds" and "CHR ''/'' \<notin> set part"
  shows "join_path [''/'', cur_path ds, part] = abs_path (step_comps part ds)"
proof -
  have "join_path [''/'', cur_path ds, part] = clean (''//'' @ cur_path ds @ CHR ''/'' # part)" by simp
  also have "\<dots> = abs_path (abs_comps (''//'' @ cur_path ds @ CHR ''/'' # part))"
    by (rule clean_abs) (simp add: is_abs_def)
  also have "abs_comps (''//'' @ cur_path ds @ CHR ''/'' # part) = step_comps part ds"
    using assms split_on_append [of "CHR ''/''" "cur_path ds" part] split_on_cur_path [OF assms(1)]
    by (simp add: abs_comps_def clean_comps_def step_comps_def)
  finally show ?thesis .
qed

lemma step_comps_ok: "comps_ok ds \<Longrightarrow> CHR ''/'' \<notin> set part \<Longrightarrow> comps_ok (step_comps part ds)"
  by (simp add: step_comps_def clean_step_rooted_keeps)

lemma step_comps_links:
  assumes "no_links fs root ds"
    and "\<not> is_link (os_Lstat fs (root @ ''/'' @ abs_path (step_comps part ds)))"
  shows "no_links fs root (step_comps part ds)"
proof -
  have "step_comps part ds = ds @ [part] \<or> prefix (step_comps part ds) ds"
    by (cases ds rule: rev_cases) (auto simp: step_comps_def clean_step_def split: list.splits)
  then show ?thesis
  proof
    assume "step_comps part ds = ds @ [part]"
    with assms show ?thesis using no_links_snoc [of fs root ds part] by simp
  qed (rule no_links_prefix [OF assms(1)])
qed

lemma next_part_no_sep: "CHR ''/'' \<notin> set (fst (next_part s))"
  by (auto simp: next_part_def cut_None_iff dest: cut_Some split: option.splits)

lemma secure_join_loop_confined:
  "secure_join_loop links fs root cur rem = Inr out \<Longrightarrow> cur = cur_path ds \<Longrightarrow> comps_ok ds \<Longrightarrow>
   no_links fs root ds \<Longrightarrow> \<exists>es. out = cur_path es \<and> comps_ok es \<and> no_links fs root es"
proof (induction links fs root cur rem arbitrary: ds rule: secure_join_loop.induct)
  case (1 links fs root cur rem)
  let ?part = "fst (next_part rem)" and ?rest = "snd (next_part rem)"
  let ?es = "step_comps ?part ds"
  let ?full = "root @ ''/'' @ abs_path ?es"
  have nxt: "join_path [''/'', cur, ?part] = abs_path ?es"
    using join_path_cur [OF 1(7) next_part_no_sep] 1(6) by simp
  have ok: "comps_ok ?es" using step_comps_ok [OF 1(7) next_part_no_sep] .
  note res = 1(5) [unfolded secure_join_loop.simps [of links fs root cur rem] Let_def nxt]
  show ?case
  proof (cases "rem = [] \<or> ?es = []")
    case True
    show ?thesis
    proof (cases "rem = []")
      case True
      with res 1(6-8) show ?thesis by auto
    next
      case ne: False
      with True have "abs_path ?es = ''/''" "secure_join_loop links fs root [] ?rest = Inr out"
        using res by auto
      then show ?thesis using 1(1) [OF ne refl refl refl refl, of "[]"] nxt by (simp add: cur_path_def)
    qed
  next
    case False
    then have ne: "rem \<noteq> []" "abs_path ?es \<noteq> ''/''" "cur_path ?es = abs_path ?es"
      using ok by (auto simp: cur_path_def)
    show ?thesis
    proof (cases "is_link (os_Lstat fs ?full)")
      case False
      with ne res have
        "secure_join_loop links fs root (cur_path ?es) ?rest = Inr out"
        by (auto simp: is_link_def split: sum.splits if_splits)
      moreover have "no_links fs root ?es" using step_comps_links [OF 1(8) False] .
      ultimately show ?thesis
        using 1(2,3) ne nxt ok False res
        by (cases "os_Lstat fs ?full") (auto simp: is_link_def split: if_splits)
    next
      case True
      then obtain fi where fi: "os_Lstat fs ?full = Inr fi" "is_symlink fi"
        by (auto simp: is_link_def split: sum.splits)
      with ne res obtain dest where d: "os_Readlink fs ?full = Inr dest" and l: "links \<noteq> 0"
        and r: "secure_join_loop (links - 1) fs root (if is_abs dest then [] else cur)
          (dest @ ''/'' @ ?rest) = Inr out"
        by (auto split: sum.splits if_splits)
      let ?ds = "if is_abs dest then [] else ds"
      have "(if is_abs dest then [] else cur) = cur_path ?ds" using 1(6) by (simp add: cur_path_def)
      moreover have "comps_ok ?ds" "no_links fs root ?ds" using 1(7,8) by simp_all
      ultimately show ?thesis using 1(4) [of ?part ?rest] ne nxt fi l d r by simp
    qed
  qed
qed

lemma SecureJoin_confined:
  assumes "comps_ok rs" and "SecureJoin fs (abs_path rs) p = Inr q"
  shows "\<exists>es. comps_ok es \<and> q = abs_path (rs @ es) \<and> no_links fs (abs_path rs) es"
proof -
  from assms(2) obtain cur where
    c: "secure_join_loop maxSymlinkLimit fs (abs_path rs) [] p = Inr cur" and
    q: "q = join_path [abs_path rs, join_path [''/'', cur]]"
    by (auto simp: SecureJoin_def split: if_splits)
  have "\<exists>es. cur = cur_path es \<and> comps_ok es \<and> no_links fs (abs_path rs) es"
    by (rule secure_join_loop_confined [OF c, of "[]"]) (simp_all add: cur_path_def)
  then obtain es where es: "cur = cur_path es" "comps_ok es" "no_links fs (abs_path rs) es" by blast
  have "join_path [''/'', cur] = abs_path es"
    using es(1) join_path_abs [of "[]" cur] split_on_cur_path [OF es(2)] by simp
  moreover have "join_path [abs_path rs, abs_path es] = abs_path (rs @ es)"
    using join_path_abs [OF assms(1), of "abs_path es"] es(2)
    by (auto simp: split_on_abs_path fold_clean_step_ok)
  ultimately have "q = abs_path (rs @ es)" using q by simp
  with es(2,3) show ?thesis by blast
qed

lemma ResolvePathInRoot_secure:
  "clean (RootDir (conf w)) \<noteq> ''/'' \<Longrightarrow> ResolvePathInRoot w p = Inr q \<Longrightarrow>
   \<exists>u. SecureJoin (files w) (clean (RootDir (conf w))) u = Inr q"
  by (auto simp: ResolvePathInRoot_def Let_def split: if_splits)

lemma ParentDirectories_eq:
  assumes "RootDir c = abs_path rs" and "comps_ok rs" and "comps_ok ds"
  shows "ParentDirectories c (abs_path ds) =
    (if prefix rs ds
     then Some (map (\<lambda>i. abs_path (take i ds)) [length rs ..< max (length ds) (Suc (length rs))])
     else None)"
proof (cases "prefix rs ds")
  case True
  then obtain cs where ds: "ds = rs @ cs" by (auto simp: prefix_def)
  have shift: "map (\<lambda>i. abs_path (take i ds)) [length rs ..< length rs + length cs] =
      map (\<lambda>i. abs_path (rs @ take i cs)) [0..<length cs]"
    by (rule nth_equalityI) (simp_all add: ds)
  show ?thesis
  proof (cases "cs = []")
    case True
    then show ?thesis using assms ds by (simp add: ParentDirectories_def parent_loop.simps)
  next
    case False
    then have "max (length ds) (Suc (length rs)) = length rs + length cs" using ds by (cases cs) auto
    with True False shift show ?thesis
      using parent_loop_below [OF assms(2), of cs "[]"] assms ds by (simp add: ParentDirectories_def)
  qed
next
  case False
  then have "parent_loop (abs_path rs) (abs_path ds) [] = None"
    using parent_loop_outside [of "abs_path rs" "abs_path ds" "[]" _ rs ds] assms(2,3)
    by (cases "parent_loop (abs_path rs) (abs_path ds) []") auto
  with False assms show ?thesis by (simp add: ParentDirectories_def)
qed

subsection \<open>Properties\<close>

text \<open>C18. Matching a cleaned absolute path against a cleaned ignore-list path without wildcards is the
  prefix relation on path components: \<open>/var\<close> covers \<open>/var\<close> and \<open>/var/log\<close> but not \<open>/variable\<close>, and
  with \<open>PrefixMatchOnly\<close> it covers only what lies below \<open>/var\<close>.\<close>

theorem ignore_prefix_on_components:
  assumes "comps_ok cs" and "comps_ok ds" and "list_all literal cs" and "cs \<noteq> []"
  shows "HasFilepathPrefix (abs_path ds) (abs_path cs) only \<longleftrightarrow> prefix cs ds \<and> (only \<longrightarrow> cs \<noteq> ds)"
  using hasCleanedFilepathPrefix_abs [OF assms] assms(1,2) by (simp add: HasFilepathPrefix_def)

theorem ignore_prefix_on_components_witness:
  "HasFilepathPrefix ''/var/log'' ''/var'' True \<and> \<not> HasFilepathPrefix ''/variable'' ''/var'' False"
  using ignore_prefix_on_components [of "[''var'']" "[''var'', ''log'']" True]
    ignore_prefix_on_components [of "[''var'']" "[''variable'']" False]
  by (simp add: comp_ok_def abs_path_def)

text \<open>C5. Sandbox safety. When the build root is not \<open>/\<close>, a path that \<open>ResolvePathInRoot\<close> returns lies
  below the root and none of its components below the root is a symbolic link, whatever \<open>..\<close>
  components and links the given path went through: no file operation on it leaves the root.\<close>

theorem ResolvePathInRoot_confined:
  assumes "clean (RootDir (conf w)) = abs_path rs" and "comps_ok rs" and "rs \<noteq> []"
    and "ResolvePathInRoot w p = Inr q"
  shows "\<exists>es. comps_ok es \<and> q = abs_path (rs @ es) \<and> no_links (files w) (abs_path rs) es"
proof -
  have "clean (RootDir (conf w)) \<noteq> ''/''" using assms(1,2,3) by simp
  then obtain u where "SecureJoin (files w) (abs_path rs) u = Inr q"
    using ResolvePathInRoot_secure [OF _ assms(4)] assms(1) by auto
  then show ?thesis by (rule SecureJoin_confined [OF assms(2)])
qed

definition demo_fs :: filesys where
  "demo_fs = \<lparr>dents = [([], 0), ([''box''], 1), ([''box'', ''bin''], 2), ([''box'', ''usr''], 3),
      ([''box'', ''usr'', ''sh''], 4)],
     inodes = [(0, new_inode FDir 493), (1, new_inode FDir 493), (2, new_inode (FLink ''/usr/../../usr'') 511),
      (3, new_inode FDir 493), (4, new_inode (FReg ''x'') 493)],
     next_ino = 5, userns = None\<rparr>"

definition demo_world :: "string \<Rightarrow> world" where
  "demo_world root =
     \<lparr>conf = \<lparr>RootDir = root, KanikoDir = ''/kaniko'', MountInfoPath = ''/proc/self/mountinfo'', SandboxUserns = False\<rparr>,
      ignorelist = [entry ''/kaniko'' False, entry ''/proc'' False], defaultIgnoreList = [entry ''/kaniko'' False],
      volumes = [], files = demo_fs, provisionedProotPath = []\<rparr>"

theorem ResolvePathInRoot_confined_witness:
  "ResolvePathInRoot (demo_world ''/box'') ''/bin/sh'' = Inr ''/box/usr/sh'' \<and>
   (\<exists>es. comps_ok es \<and> ''/box/usr/sh'' = abs_path ([''box''] @ es) \<and> no_links demo_fs (abs_path [''box'']) es)"
proof -
  have r: "ResolvePathInRoot (demo_world ''/box'') ''/bin/sh'' = Inr ''/box/usr/sh''" by code_simp
  have c: "clean (RootDir (conf (demo_world ''/box''))) = abs_path [''box'']" by code_simp
  have "comps_ok [''box'']" by code_simp
  from ResolvePathInRoot_confined [OF c this _ r] r show ?thesis by (simp add: demo_world_def)
qed



end
