(* ===== verification/Resolve_Paths.thy ===== *)
theory Resolve_Paths
  imports Ignore_List
begin

text \<open>
  \<open>pkg/filesystem/resolve.go\<close>: from the paths a command changed to the paths a layer must hold. A
  path that goes through a symbolic link is replaced by that link, the target is added unless it is
  ignored, and every path brings its parent directories.
\<close>

subsection \<open>Operations\<close>

definition splitPath :: "string \<Rightarrow> string list" where
  "splitPath path = filter (\<lambda>part. part \<noteq> [] \<and> part \<noteq> ''.'') (split_on CHR ''/'' path)"

text \<open>The walk down from the root to the first link; \<open>None\<close> when no component is one.\<close>

fun link_below :: "filesys \<Rightarrow> string \<Rightarrow> string list \<Rightarrow> string option res" where
  "link_below fs current [] = Inr None"
| "link_below fs current (part # parts) =
     (let current = join_path [current, part] in
      case os_Lstat fs current of
        Inl e \<Rightarrow> Inl (Wrap ''resolvePaths: failed to lstat'' e)
      | Inr fi \<Rightarrow> if is_symlink fi then Inr (Some current) else link_below fs current parts)"

definition resolveSymlinkAncestorInRoot :: "world \<Rightarrow> string \<Rightarrow> string res" where
  "resolveSymlinkAncestorInRoot w path =
     (let root = clean (RootDir (conf w)); newPath = clean path in
      if \<not> HasFilepathPrefix newPath root False then Inl (Msg (''path '' @ newPath @ '' is outside root '' @ root))
      else rbind (rel root newPath) (\<lambda>rel.
        if rel = ''.'' then Inr root
        else rbind (link_below (files w) root (splitPath rel)) (\<lambda>r.
          case r of Some link \<Rightarrow> Inr link | None \<Rightarrow> Inr newPath)))"

text \<open>The loop for the root \<open>/\<close> walks up; each turn drops a component, so a fuel above the number of
  components is enough (\<open>ancestor_loop_returns\<close>).\<close>

fun ancestor_loop :: "nat \<Rightarrow> world \<Rightarrow> string \<Rightarrow> string \<Rightarrow> string res" where
  "ancestor_loop 0 w newPath lst = Inl Hang"
| "ancestor_loop (Suc n) w newPath lst =
     (if newPath = RootDir (conf w) then Inr (clean (join_path [newPath, lst]))
      else case os_Lstat (files w) newPath of
        Inl e \<Rightarrow> Inl (Wrap ''resolvePaths: failed to lstat'' e)
      | Inr fi \<Rightarrow>
          if is_symlink fi then ancestor_loop n w (dir newPath) (base newPath)
          else rbind (EvalSymlinks (files w) newPath) (\<lambda>target.
            if target \<noteq> newPath then ancestor_loop n w (dir newPath) (base newPath)
            else Inr (clean (join_path [newPath, lst]))))"

definition resolveSymlinkAncestor :: "world \<Rightarrow> string \<Rightarrow> string res" where
  "resolveSymlinkAncestor w path =
     (if \<not> is_abs path then Inl (Msg ''dest path must be abs'')
      else if clean (RootDir (conf w)) \<noteq> ''/'' then resolveSymlinkAncestorInRoot w path
      else ancestor_loop (Suc (length (clean path))) w (clean path) [])"

definition evalSymlinksInRoot :: "world \<Rightarrow> string \<Rightarrow> string res" where
  "evalSymlinksInRoot w path =
     (if clean (RootDir (conf w)) = ''/'' then EvalSymlinks (files w) path
      else rbind (ResolvePathInRoot w path) (\<lambda>resolved.
        rbind (os_Lstat (files w) resolved) (\<lambda>_. Inr resolved)))"

definition add_with_parents :: "config \<Rightarrow> string \<Rightarrow> string list \<Rightarrow> string list res" where
  "add_with_parents c file filesSet =
     (let file = clean file in
      rbind (parents c file) (\<lambda>dirs. Inr (fold (\<lambda>d s. add_new (clean d) s) dirs (add_new file filesSet))))"

definition filesWithParentDirs :: "config \<Rightarrow> string list \<Rightarrow> string list res" where
  "filesWithParentDirs c fls = rfold (add_with_parents c) fls []"

text \<open>One turn of the loop over the changed paths: \<open>True\<close> is the bare \<open>return\<close> in the middle of the
  loop, which leaves with what has been collected and no error. \<open>fileSet\<close> holds what
  \<open>pathsToAdd\<close> lists.\<close>

definition resolve_one :: "world \<Rightarrow> IgnoreListEntry list \<Rightarrow> string \<Rightarrow> string list \<Rightarrow> bool \<times> string list" where
  "resolve_one w wl f pathsToAdd =
     (if IsInProvidedIgnoreList f wl then (False, pathsToAdd)
      else case resolveSymlinkAncestor w f of
        Inl _ \<Rightarrow> (False, pathsToAdd)
      | Inr link \<Rightarrow>
          let pathsToAdd = add_new link pathsToAdd in
          (case evalSymlinksInRoot w f of
             Inl e \<Rightarrow> (\<not> is_not_exist e, pathsToAdd)
           | Inr evaled \<Rightarrow>
               if CheckCleanedPathAgainstProvidedIgnoreList w evaled wl then (False, pathsToAdd)
               else (False, add_new evaled pathsToAdd)))"

fun resolve_each :: "world \<Rightarrow> IgnoreListEntry list \<Rightarrow> string list \<Rightarrow> string list \<Rightarrow> bool \<times> string list" where
  "resolve_each w wl [] acc = (False, acc)"
| "resolve_each w wl (f # fs) acc =
     (case resolve_one w wl f acc of
        (True, acc') \<Rightarrow> (True, acc')
      | (False, acc') \<Rightarrow> resolve_each w wl fs acc')"

definition ResolvePaths :: "world \<Rightarrow> string list \<Rightarrow> IgnoreListEntry list \<Rightarrow> string list res" where
  "ResolvePaths w paths wl =
     (case resolve_each w wl paths [] of
        (True, pathsToAdd) \<Rightarrow> Inr pathsToAdd
      | (False, pathsToAdd) \<Rightarrow> filesWithParentDirs (conf w) pathsToAdd)"

subsection \<open>Links on a path\<close>

definition link_free :: "filesys \<Rightarrow> string list \<Rightarrow> bool" where
  "link_free fs cs \<longleftrightarrow> (\<forall>p. prefix p cs \<longrightarrow> link_target (lookup fs p) = None)"

lemma link_free_prefix: "link_free fs cs \<Longrightarrow> prefix ds cs \<Longrightarrow> link_free fs ds"
  by (auto simp: link_free_def intro: prefix_order.trans)

lemma link_free_snoc: "link_free fs (cs @ [c]) \<longleftrightarrow> link_free fs cs \<and> link_target (lookup fs (cs @ [c])) = None"
  by (auto simp: link_free_def)

lemma link_free_root: "fs_wf fs \<Longrightarrow> link_free fs []"
  using fs_wfD(2) [of fs] by (auto simp: link_free_def link_target_def is_dir_node_def split: option.splits)

text \<open>Following links ends at a path without links, and leaves a path without links as it is.\<close>

lemma resolve_link_free:
  "resolve links fs True cur rest = Inr q \<Longrightarrow> link_free fs cur \<Longrightarrow> fs_wf fs \<Longrightarrow> link_free fs q"
proof (induction links fs True cur rest rule: resolve.induct)
  case (1 links fs cur)
  then show ?case by (simp add: resolve.simps)
next
  case (2 links fs cur c rest)
  have up: "link_free fs (butlast cur)" using 2(6) link_free_prefix prefixeq_butlast by blast
  show ?case
  proof (cases "link_target (lookup fs (cur @ [c]))")
    case None
    with 2(6) have "link_free fs (cur @ [c])" by (simp add: link_free_snoc)
    with 2(1-3) 2(5-7) None up show ?thesis by (simp add: resolve.simps split: if_splits)
  next
    case (Some t)
    have "link_free fs (if is_abs t then [] else cur)" using 2(6) link_free_root [OF 2(7)] by simp
    with 2(1,2,4) 2(5-7) Some up show ?thesis by (simp add: resolve.simps split: if_splits)
  qed
qed

lemma resolve_stays_leaf:
  "resolve links fs follow cur rest = Inr q \<Longrightarrow> comps_ok rest \<Longrightarrow>
   (\<And>p. prefix p (cur @ rest) \<Longrightarrow> link_target (lookup fs p) = None \<or> \<not> follow \<and> p = cur @ rest) \<Longrightarrow>
   q = cur @ rest"
proof (induction rest arbitrary: cur)
  case Nil
  then show ?case by (simp add: resolve.simps)
next
  case (Cons c rest)
  have c: "link_target (lookup fs (cur @ [c])) = None \<or> \<not> follow \<and> rest = []"
    using Cons.prems(3) [of "cur @ [c]"] by auto
  show ?case
  proof (cases "link_target (lookup fs (cur @ [c])) = None")
    case True
    with Cons.prems(1,2) have "resolve links fs follow (cur @ [c]) rest = Inr q"
      by (auto simp: resolve.simps comp_ok_def split: if_splits)
    with Cons.IH [of "cur @ [c]"] Cons.prems(2,3) show ?thesis by simp
  next
    case False
    with c Cons.prems(1,2) show ?thesis
      by (auto simp: resolve.simps comp_ok_def split: if_splits option.splits)
  qed
qed

lemma locate_leaf:
  assumes ok: "comps_ok cs" and loc: "locate fs follow (abs_path cs) = Inr q" and wf: "fs_wf fs"
    and free: "\<And>p. prefix p cs \<Longrightarrow> link_target (lookup fs p) = None \<or> \<not> follow \<and> p = cs"
  shows "q = cs"
proof -
  have root: "is_dir_node (lookup fs [])" using fs_wfD(2) [OF wf] .
  have "resolve kernel_links fs follow [] ([] # (if cs = [] then [[]] else cs)) = Inr q"
    using loc ok by (auto simp: locate_def split_on_abs_path split: if_splits sum.splits)
  then have "resolve kernel_links fs follow [] cs = Inr q"
    using root by (cases cs) (auto simp: resolve.simps split: if_splits)
  then show ?thesis using resolve_stays_leaf [of _ _ _ "[]" cs q] ok free by simp
qed

lemma resolve_stays:
  "resolve links fs follow cur rest = Inr q \<Longrightarrow> comps_ok rest \<Longrightarrow> link_free fs (cur @ rest) \<Longrightarrow>
   q = cur @ rest"
  by (erule resolve_stays_leaf) (auto simp: link_free_def)

lemma locate_abs_path:
  "comps_ok cs \<Longrightarrow> locate fs follow (abs_path cs) = Inr q \<Longrightarrow> link_free fs cs \<Longrightarrow> fs_wf fs \<Longrightarrow> q = cs"
  by (erule locate_leaf) (auto simp: link_free_def)

lemma lstat_leaf:
  assumes "fs_wf fs" and "comps_ok (cs @ [c])" and "link_free fs cs"
    and "os_Lstat fs (abs_path (cs @ [c])) = Inr fi"
  shows "lookup fs (cs @ [c]) = Some fi"
proof -
  from assms(4) obtain q where q: "locate fs False (abs_path (cs @ [c])) = Inr q" "lookup fs q = Some fi"
    by (auto simp: os_Lstat_def stat_gen_def split: option.splits)
  have "q = cs @ [c]"
    using assms(3) by (intro locate_leaf [OF assms(2) q(1) assms(1)]) (auto simp: link_free_def)
  with q(2) show ?thesis by simp
qed

lemma is_symlink_target: "lookup fs p = Some fi \<Longrightarrow> is_symlink fi \<longleftrightarrow> link_target (lookup fs p) \<noteq> None"
  by (auto simp: link_target_def is_symlink_def split: ftype.splits)

lemma lstat_symlink:
  assumes "fs_wf fs" and "comps_ok cs" and "os_Lstat fs (abs_path cs) = Inr fi"
  shows "is_symlink fi \<Longrightarrow> \<not> link_free fs cs"
proof
  assume fi: "is_symlink fi" and free: "link_free fs cs"
  from assms(3) obtain q where q: "locate fs False (abs_path cs) = Inr q" "lookup fs q = Some fi"
    by (auto simp: os_Lstat_def stat_gen_def split: option.splits)
  with free assms locate_abs_path have "lookup fs cs = Some fi" by blast
  with free fi show False
    by (auto simp: link_free_def link_target_def is_symlink_def split: ftype.splits)
qed

lemma EvalSymlinks_fixed:
  assumes "fs_wf fs" and "comps_ok cs" and "EvalSymlinks fs (abs_path cs) = Inr t"
  shows "t = abs_path cs \<longleftrightarrow> link_free fs cs"
proof -
  from assms(3) obtain q where
    r: "resolve eval_links fs True [] (split_on CHR ''/'' (abs_path cs)) = Inr q" and
    t: "t = abs_path q"
    by (auto simp: EvalSymlinks_def split: sum.splits errno.splits option.splits)
  have free: "link_free fs q" using resolve_link_free [OF r] link_free_root [OF assms(1)] assms(1) by simp
  have ok: "comps_ok q"
    using resolve_placed [OF r assms(1)] by (auto simp: placed_def dest: split_on_no_sep_in)
  have root: "is_dir_node (lookup fs [])" using fs_wfD(2) [OF assms(1)] .
  have "resolve eval_links fs True [] cs = Inr q"
    using r root assms(2) by (cases cs) (auto simp: split_on_abs_path resolve.simps split: if_splits)
  then have "link_free fs cs \<Longrightarrow> q = cs" using resolve_stays [of _ _ _ "[]" cs q] assms(2) by simp
  with free t ok assms(2) show ?thesis using abs_path_inj by auto
qed

subsection \<open>The ancestor of a path that is a link\<close>

fun first_link :: "filesys \<Rightarrow> string list \<Rightarrow> string list \<Rightarrow> string list" where
  "first_link fs acc [] = acc"
| "first_link fs acc (c # cs) =
     (if link_target (lookup fs (acc @ [c])) \<noteq> None then acc @ [c] else first_link fs (acc @ [c]) cs)"

lemma first_link_free: "link_free fs (acc @ cs) \<Longrightarrow> first_link fs acc cs = acc @ cs"
proof (induction cs arbitrary: acc)
  case (Cons c cs)
  then have "link_target (lookup fs (acc @ [c])) = None" by (auto simp: link_free_def)
  with Cons show ?case by simp
qed simp

lemma first_link_at:
  "link_free fs (acc @ ds) \<Longrightarrow> \<not> link_free fs (acc @ ds @ [c]) \<Longrightarrow>
   first_link fs acc (ds @ c # es) = acc @ ds @ [c]"
proof (induction ds arbitrary: acc)
  case Nil
  then show ?case by (auto simp: link_free_snoc)
next
  case (Cons d ds)
  then have "link_target (lookup fs (acc @ [d])) = None" by (auto simp: link_free_def)
  with Cons.IH [of "acc @ [d]"] Cons.prems show ?case by simp
qed

definition up_inv :: "filesys \<Rightarrow> string list \<Rightarrow> string list \<Rightarrow> string \<Rightarrow> bool" where
  "up_inv fs cs ds lst \<longleftrightarrow>
     ds = cs \<and> lst = [] \<or> (\<exists>es. cs = ds @ lst # es \<and> \<not> link_free fs (ds @ [lst]))"

lemma up_inv_result:
  assumes "up_inv fs cs ds lst" and "comps_ok cs" and "link_free fs ds"
  shows "clean (join_path [abs_path ds, lst]) = abs_path (first_link fs [] cs)"
  using assms(1) unfolding up_inv_def
proof
  assume "ds = cs \<and> lst = []"
  then show ?thesis
    using assms(2,3) clean_trailing_sep [of cs] first_link_free [of fs "[]" cs] by simp
next
  assume "\<exists>es. cs = ds @ lst # es \<and> \<not> link_free fs (ds @ [lst])"
  then obtain es where es: "cs = ds @ lst # es" "\<not> link_free fs (ds @ [lst])" by blast
  then have "first_link fs [] cs = ds @ [lst]" using first_link_at [of fs "[]" ds lst es] assms(3) by simp
  moreover have "comps_ok (ds @ [lst])" using es assms(2) by simp
  ultimately show ?thesis using join_path_comp [of ds lst] by simp
qed

lemma up_inv_step:
  assumes "up_inv fs cs ds lst" and "comps_ok cs" and "\<not> link_free fs ds" and "fs_wf fs"
  shows "\<exists>es c. ds = es @ [c] \<and> dir (abs_path ds) = abs_path es \<and> base (abs_path ds) = c \<and> up_inv fs cs es c"
proof -
  have "ds \<noteq> []" using assms(3) link_free_root [OF assms(4)] by auto
  then obtain es c where d: "ds = es @ [c]" by (meson rev_exhaust)
  have "prefix ds cs" using assms(1) by (auto simp: up_inv_def)
  then have ok: "comps_ok ds" using assms(2) by (auto simp: prefix_def)
  have "up_inv fs cs es c" using assms(1,3) d by (auto simp: up_inv_def)
  with d ok show ?thesis using dir_abs_path [of es c] base_abs_path [of c es] by auto
qed

lemma ancestor_loop_first_link:
  assumes wf: "fs_wf (files w)" and root: "RootDir (conf w) = ''/''" and ok: "comps_ok cs"
  shows "ancestor_loop n w (abs_path ds) lst = Inr q \<Longrightarrow> up_inv (files w) cs ds lst \<Longrightarrow>
    q = abs_path (first_link (files w) [] cs)"
proof (induction n arbitrary: ds lst)
  case (Suc n)
  have ds: "comps_ok ds" using Suc.prems(2) ok by (auto simp: up_inv_def)
  show ?case
  proof (cases "link_free (files w) ds")
    case True
    then have "q = clean (join_path [abs_path ds, lst])"
      using Suc.prems(1) lstat_symlink [OF wf ds] EvalSymlinks_fixed [OF wf ds]
      by (auto split: if_splits sum.splits)
    then show ?thesis using up_inv_result [OF Suc.prems(2) ok True] by (rule trans)
  next
    case False
    then obtain es c where e: "dir (abs_path ds) = abs_path es" "base (abs_path ds) = c"
      "up_inv (files w) cs es c"
      using up_inv_step [OF Suc.prems(2) ok _ wf] by blast
    have "ds \<noteq> []" using False link_free_root [OF wf] by auto
    then have "abs_path ds \<noteq> ''/''" using ds by simp
    then have "ancestor_loop n w (abs_path es) c = Inr q"
      using Suc.prems(1) False EvalSymlinks_fixed [OF wf ds] root e
      by (auto split: if_splits sum.splits)
    then show ?thesis using Suc.IH e(3) by blast
  qed
qed simp

lemma EvalSymlinks_not_Hang: "EvalSymlinks fs p \<noteq> Inl Hang"
  by (auto simp: EvalSymlinks_def split: sum.splits errno.splits option.splits)

lemma ancestor_loop_returns:
  assumes wf: "fs_wf (files w)"
  shows "comps_ok ds \<Longrightarrow> length ds < n \<Longrightarrow> ancestor_loop n w (abs_path ds) lst \<noteq> Inl Hang"
proof (induction n arbitrary: ds lst)
  case (Suc n)
  show ?case
  proof (cases "link_free (files w) ds")
    case True
    then show ?thesis
      using lstat_symlink [OF wf Suc.prems(1)] EvalSymlinks_fixed [OF wf Suc.prems(1)] EvalSymlinks_not_Hang
      by (auto simp: rbind_Inl_iff split: if_splits sum.splits)
  next
    case False
    then obtain es c where ds: "ds = es @ [c]"
      using link_free_root [OF wf] by (cases ds rule: rev_cases) auto
    then have "ancestor_loop n w (dir (abs_path ds)) (base (abs_path ds)) \<noteq> Inl Hang"
      using Suc dir_abs_path [of es c] by simp
    then show ?thesis using EvalSymlinks_not_Hang
      by (auto simp: rbind_Inl_iff split: if_splits sum.splits)
  qed
qed simp

lemma link_below_first_link:
  assumes wf: "fs_wf fs"
  shows "link_below fs (abs_path acc) cs = Inr r \<Longrightarrow> comps_ok (acc @ cs) \<Longrightarrow> link_free fs acc \<Longrightarrow>
    (case r of Some l \<Rightarrow> l | None \<Rightarrow> abs_path (acc @ cs)) = abs_path (first_link fs acc cs)"
proof (induction cs arbitrary: acc)
  case (Cons c cs)
  have j: "join_path [abs_path acc, c] = abs_path (acc @ [c])"
    using Cons.prems(2) by (intro join_path_comp) simp
  with Cons.prems(1) obtain fi where fi: "os_Lstat fs (abs_path (acc @ [c])) = Inr fi"
    by (auto simp: Let_def split: sum.splits)
  have l: "lookup fs (acc @ [c]) = Some fi"
    using Cons.prems(2) by (intro lstat_leaf [OF wf _ Cons.prems(3) fi]) simp
  show ?case
  proof (cases "is_symlink fi")
    case True
    then show ?thesis using Cons.prems(1) j fi is_symlink_target [OF l] by auto
  next
    case False
    then have t: "link_target (lookup fs (acc @ [c])) = None" using is_symlink_target [OF l] by simp
    have "link_below fs (abs_path (acc @ [c])) cs = Inr r" using Cons.prems(1) j fi False by simp
    moreover have "link_free fs (acc @ [c])" using Cons.prems(3) t by (simp add: link_free_snoc)
    ultimately show ?thesis using Cons.IH [of "acc @ [c]"] Cons.prems(2) t
      by (simp split: option.splits)
  qed
qed simp

lemma splitPath_join: "comps_ok cs \<Longrightarrow> cs \<noteq> [] \<Longrightarrow> splitPath (join ''/'' cs) = cs"
  by (auto simp: splitPath_def comp_ok_def list_all_iff split_on_join filter_id_conv)

lemma resolveSymlinkAncestor_in_root:
  assumes wf: "fs_wf (files w)" and root: "RootDir (conf w) = abs_path rs" and ok: "comps_ok (rs @ cs)"
    and lit: "list_all literal rs" "rs \<noteq> []" and free: "link_free (files w) rs"
    and r: "resolveSymlinkAncestorInRoot w (abs_path (rs @ cs)) = Inr q"
  shows "q = abs_path (first_link (files w) rs cs)"
proof (cases "cs = []")
  case True
  then show ?thesis using r root ok by (simp add: resolveSymlinkAncestorInRoot_def Let_def rel_self split: if_splits)
next
  case False
  have "rel (abs_path rs) (abs_path (rs @ cs)) = Inr (join ''/'' cs)" by (rule rel_below [OF ok False])
  moreover have "join ''/'' cs \<noteq> ''.''"
    using splitPath_join [of cs] ok False by (auto simp: splitPath_def)
  ultimately obtain l where
    l: "link_below (files w) (abs_path rs) cs = Inr l" and q: "q = (case l of Some l \<Rightarrow> l | None \<Rightarrow> abs_path (rs @ cs))"
    using r root ok splitPath_join [of cs] False
    by (auto simp: resolveSymlinkAncestorInRoot_def Let_def split: if_splits option.splits)
  show ?thesis unfolding q by (rule link_below_first_link [OF wf l ok free])
qed

lemma link_below_not_Hang: "link_below fs cur cs \<noteq> Inl Hang"
  by (induction cs arbitrary: cur) (auto simp: Let_def split: sum.splits)

lemma rel_not_Hang: "rel a b \<noteq> Inl Hang"
  by (auto simp: rel_def Let_def split: option.splits if_splits)

lemma length_abs_path: "comps_ok cs \<Longrightarrow> length cs \<le> length (abs_path cs)"
proof (induction cs rule: rev_induct)
  case (snoc c cs)
  then show ?case by (auto simp: abs_path_snoc comp_ok_def Suc_le_eq)
qed simp

text \<open>C14. The ancestor of a path that \<open>resolveSymlinkAncestor\<close> returns is the first symbolic link met
  on the way down from the build root, or the path itself when it goes through none; both the upward
  loop used for the root \<open>/\<close> and the downward loop used for a sandbox root compute it, and the
  upward loop always ends.\<close>

theorem resolveSymlinkAncestor_first_link:
  assumes "fs_wf (files w)" and "RootDir (conf w) = abs_path rs" and "comps_ok (rs @ cs)"
    and "list_all literal rs" and "link_free (files w) rs"
  shows "resolveSymlinkAncestor w (abs_path (rs @ cs)) \<noteq> Inl Hang \<and>
    (\<forall>q. resolveSymlinkAncestor w (abs_path (rs @ cs)) = Inr q \<longrightarrow>
      q = abs_path (first_link (files w) rs cs))"
proof (cases "rs = []")
  case True
  with assms have cs: "RootDir (conf w) = ''/''" "comps_ok cs" by simp_all
  have up: "up_inv (files w) cs cs []" by (simp add: up_inv_def)
  have "length cs < Suc (length (abs_path cs))" using length_abs_path [OF cs(2)] by simp
  with True cs show ?thesis
    using ancestor_loop_first_link [OF assms(1) cs _ up] ancestor_loop_returns [OF assms(1) cs(2)]
    by (simp add: resolveSymlinkAncestor_def del: ancestor_loop.simps)
next
  case False
  then have r: "resolveSymlinkAncestor w (abs_path (rs @ cs)) = resolveSymlinkAncestorInRoot w (abs_path (rs @ cs))"
    using assms(2,3) by (simp add: resolveSymlinkAncestor_def)
  have "resolveSymlinkAncestorInRoot w (abs_path (rs @ cs)) \<noteq> Inl Hang"
    by (auto simp: resolveSymlinkAncestorInRoot_def Let_def rbind_Inl_iff rel_not_Hang link_below_not_Hang
        split: option.splits)
  then show ?thesis unfolding r
    using resolveSymlinkAncestor_in_root [OF assms(1-4) False assms(5)] by blast
qed

theorem resolveSymlinkAncestor_first_link_witness:
  "resolveSymlinkAncestor (demo_world ''/'') ''/box/bin'' = Inr ''/box/bin'' \<and>
   ''/box/bin'' = abs_path (first_link demo_fs [] [''box'', ''bin''])"
proof -
  have wf: "fs_wf (files (demo_world ''/''))" by code_simp
  have r: "resolveSymlinkAncestor (demo_world ''/'') ''/box/bin'' = Inr ''/box/bin''" by code_simp
  have "link_free (files (demo_world ''/'')) []" using link_free_root [OF wf] .
  then show ?thesis
    using resolveSymlinkAncestor_first_link [of "demo_world ''/''" "[]" "[''box'', ''bin'']"] wf r
    by (simp add: demo_world_def comp_ok_def abs_path_def)
qed

subsection \<open>The paths of a layer\<close>

lemma parents_set:
  assumes "RootDir c = abs_path rs" and "comps_ok rs" and "comps_ok ds"
    and "parents c (abs_path ds) = Inr dirs"
  shows "insert (abs_path ds) (set (map clean dirs)) = abs_path ` {p. prefix rs p \<and> prefix p ds} \<and> prefix rs ds"
proof -
  have pre: "prefix rs ds" and
    dirs: "dirs = map (\<lambda>i. abs_path (take i ds)) [length rs ..< max (length ds) (Suc (length rs))]"
    using ParentDirectories_eq [OF assms(1-3)] assms(4) by (auto simp: parents_def split: if_splits)
  have "comps_ok (take i ds)" for i using assms(3) by (auto simp: list_all_iff dest: in_set_takeD)
  then have cl: "map clean dirs = dirs" using dirs by simp
  have between: "{p. prefix rs p \<and> prefix p ds} = (\<lambda>i. take i ds) ` {length rs .. length ds}"
  proof (intro set_eqI iffI)
    fix p assume "p \<in> {p. prefix rs p \<and> prefix p ds}"
    then have "p = take (length p) ds" "length p \<in> {length rs .. length ds}"
      by (auto simp: prefix_def)
    then show "p \<in> (\<lambda>i. take i ds) ` {length rs .. length ds}" by blast
  next
    fix p assume "p \<in> (\<lambda>i. take i ds) ` {length rs .. length ds}"
    then obtain i where "p = take i ds" "length rs \<le> i" by auto
    moreover have "rs = take (length rs) ds" using pre by (auto simp: prefix_def)
    ultimately have "rs = take (length rs) p" by (simp add: min_def)
    with \<open>p = take i ds\<close> show "p \<in> {p. prefix rs p \<and> prefix p ds}"
      by (metis mem_Collect_eq take_is_prefix)
  qed
  have "length rs \<le> length ds" using pre by (simp add: prefix_length_le)
  then have all: "{length rs .. length ds} = insert (length ds) {length rs ..< max (length ds) (Suc (length rs))}"
    by (auto simp: max_def)
  have "abs_path ` {p. prefix rs p \<and> prefix p ds} = insert (abs_path ds) (set dirs)"
    unfolding between all dirs by (simp add: image_image)
  then show ?thesis using cl pre by simp
qed

lemma filesWithParentDirs_set:
  assumes root: "RootDir c = abs_path rs" "comps_ok rs"
    and abs: "\<And>f. f \<in> set fls \<Longrightarrow> is_abs f" and r: "filesWithParentDirs c fls = Inr out"
  shows "set out = abs_path ` {p. prefix rs p \<and> (\<exists>f \<in> set fls. prefix p (abs_comps f))}"
proof -
  have "rfold (add_with_parents c) fls acc = Inr out \<Longrightarrow>
      set out = set acc \<union> abs_path ` {p. prefix rs p \<and> (\<exists>f \<in> set fls. prefix p (abs_comps f))}" for acc
    using abs
  proof (induction fls arbitrary: acc)
    case (Cons f fls)
    have cl: "clean f = abs_path (abs_comps f)" using Cons.prems(2) by (intro clean_abs) simp
    from Cons.prems(1) obtain a where "add_with_parents c f acc = Inr a" by auto
    then obtain dirs where d: "parents c (abs_path (abs_comps f)) = Inr dirs"
      by (auto simp only: add_with_parents_def Let_def cl rbind_Inr_iff)
    let ?acc = "fold add_new (map clean dirs) (add_new (abs_path (abs_comps f)) acc)"
    have "add_with_parents c f acc = Inr ?acc"
      using d by (simp add: add_with_parents_def Let_def cl fold_map comp_def)
    with Cons.prems(1) have "rfold (add_with_parents c) fls ?acc = Inr out" by simp
    then have "set out = set ?acc \<union> abs_path ` {p. prefix rs p \<and> (\<exists>f \<in> set fls. prefix p (abs_comps f))}"
      by (rule Cons.IH) (simp add: Cons.prems(2))
    moreover have "set ?acc = set acc \<union> abs_path ` {p. prefix rs p \<and> prefix p (abs_comps f)}"
    proof -
      have "insert (abs_path (abs_comps f)) (set (map clean dirs)) =
          abs_path ` {p. prefix rs p \<and> prefix p (abs_comps f)}"
        using parents_set [OF root abs_comps_ok d] by simp
      then show ?thesis by (simp flip: Un_insert_right)
    qed
    ultimately show ?case by auto
  qed simp
  from this [of "[]"] r show ?thesis by (simp add: filesWithParentDirs_def)
qed

text \<open>What the loop selects from the changed paths: the ancestor link of each path and its target.\<close>

definition selected :: "world \<Rightarrow> IgnoreListEntry list \<Rightarrow> string \<Rightarrow> string set" where
  "selected w wl f =
     (if IsInProvidedIgnoreList f wl then {}
      else case resolveSymlinkAncestor w f of
        Inl _ \<Rightarrow> {}
      | Inr link \<Rightarrow>
          insert link (case evalSymlinksInRoot w f of
             Inl _ \<Rightarrow> {}
           | Inr evaled \<Rightarrow> if CheckCleanedPathAgainstProvidedIgnoreList w evaled wl then {} else {evaled}))"

definition aborts :: "world \<Rightarrow> string \<Rightarrow> bool" where
  "aborts w f = (case evalSymlinksInRoot w f of Inl e \<Rightarrow> \<not> is_not_exist e | Inr _ \<Rightarrow> False)"

lemma resolve_one_spec:
  "\<not> aborts w f \<Longrightarrow> resolve_one w wl f acc = (False, acc') \<Longrightarrow> set acc' = set acc \<union> selected w wl f"
  by (auto simp: resolve_one_def selected_def split: sum.splits if_splits)

lemma resolve_one_goes_on: "\<not> aborts w f \<Longrightarrow> \<not> fst (resolve_one w wl f acc)"
  by (auto simp: resolve_one_def aborts_def Let_def split: sum.splits)

lemma resolve_each_spec:
  "(\<And>f. f \<in> set fls \<Longrightarrow> \<not> aborts w f) \<Longrightarrow>
   \<exists>out. resolve_each w wl fls acc = (False, out) \<and> set out = set acc \<union> (\<Union>f \<in> set fls. selected w wl f)"
proof (induction fls arbitrary: acc)
  case (Cons f fls)
  obtain acc' where a: "resolve_one w wl f acc = (False, acc')"
    using resolve_one_goes_on [of w f wl acc] Cons.prems by (cases "resolve_one w wl f acc") auto
  have "set acc' = set acc \<union> selected w wl f" using resolve_one_spec [OF _ a] Cons.prems by simp
  moreover obtain out where "resolve_each w wl fls acc' = (False, out)"
    "set out = set acc' \<union> (\<Union>f \<in> set fls. selected w wl f)"
    using Cons.IH [of acc'] Cons.prems by auto
  ultimately show ?case using a by auto
qed simp

lemma ancestor_loop_abs: "ancestor_loop n w (abs_path cs) lst = Inr q \<Longrightarrow> comps_ok cs \<Longrightarrow> is_abs q"
proof (induction n arbitrary: cs lst)
  case (Suc n)
  have j: "is_abs (clean (join_path [abs_path cs, lst]))"
    using join_path_is_abs_path [of "abs_path cs" lst] by (metis is_abs_abs_path is_abs_clean)
  have d: "\<exists>ds. comps_ok ds \<and> dir (abs_path cs) = abs_path ds"
    using Suc.prems(2) dir_root by (cases cs rule: rev_cases) (auto simp: dir_abs_path intro: exI [of _ "[]"])
  then obtain ds where ds: "comps_ok ds" "dir (abs_path cs) = abs_path ds" by blast
  show ?case using Suc.prems(1) j Suc.IH [of ds "base (abs_path cs)"] ds
    by (auto split: if_splits sum.splits)
qed simp

lemma link_below_abs: "link_below fs cur cs = Inr (Some l) \<Longrightarrow> is_abs cur \<Longrightarrow> is_abs l"
proof (induction cs arbitrary: cur)
  case (Cons c cs)
  have "is_abs (join_path [cur, c])"
    using join_path_is_abs_path [OF Cons.prems(2), of c] by (metis is_abs_abs_path)
  with Cons show ?case by (auto simp: Let_def split: sum.splits if_splits)
qed simp

lemma resolveSymlinkAncestor_abs:
  assumes "is_abs (RootDir (conf w))" and "resolveSymlinkAncestor w f = Inr l"
  shows "is_abs f \<and> is_abs l"
proof -
  have f: "is_abs f" using assms(2) by (simp add: resolveSymlinkAncestor_def split: if_splits)
  have "is_abs l"
  proof (cases "clean (RootDir (conf w)) = ''/''")
    case True
    then show ?thesis using assms(2) f ancestor_loop_abs [of _ w "abs_comps f" "[]" l]
      by (simp add: resolveSymlinkAncestor_def clean_abs del: ancestor_loop.simps)
  next
    case False
    then show ?thesis using assms f link_below_abs [of "files w" "clean (RootDir (conf w))" _ l]
      by (auto simp: resolveSymlinkAncestor_def resolveSymlinkAncestorInRoot_def Let_def
          split: if_splits option.splits)
  qed
  with f show ?thesis by simp
qed

lemma evalSymlinksInRoot_abs:
  assumes "is_abs (RootDir (conf w))" and "evalSymlinksInRoot w f = Inr q"
  shows "is_abs q"
proof (cases "clean (RootDir (conf w)) = ''/''")
  case True
  then show ?thesis using assms(2)
    by (auto simp: evalSymlinksInRoot_def EvalSymlinks_def split: sum.splits errno.splits option.splits)
next
  case False
  then obtain u where "SecureJoin (files w) (clean (RootDir (conf w))) u = Inr q"
    using ResolvePathInRoot_secure [OF False, of f q] assms(2) by (auto simp: evalSymlinksInRoot_def)
  then show ?thesis
    using SecureJoin_confined [of "abs_comps (RootDir (conf w))" "files w" u q] assms(1)
    by (auto simp: clean_abs)
qed

lemma selected_abs: "is_abs (RootDir (conf w)) \<Longrightarrow> p \<in> selected w wl f \<Longrightarrow> is_abs p"
  by (auto simp: selected_def dest: resolveSymlinkAncestor_abs evalSymlinksInRoot_abs
      split: sum.splits if_splits)

lemma ResolvePaths_set:
  assumes "RootDir (conf w) = abs_path rs" and "comps_ok rs"
    and "\<And>f. f \<in> set paths \<Longrightarrow> \<not> aborts w f" and "ResolvePaths w paths wl = Inr out"
  shows "set out = abs_path ` {p. prefix rs p \<and>
    (\<exists>f \<in> set paths. \<exists>q \<in> selected w wl f. prefix p (abs_comps q))}"
proof -
  obtain sel where sel: "resolve_each w wl paths [] = (False, sel)" "set sel = (\<Union>f \<in> set paths. selected w wl f)"
    using resolve_each_spec [of paths w wl "[]"] assms(3) by auto
  have "is_abs f" if "f \<in> set sel" for f
    using that sel(2) selected_abs [of w f wl] assms(1) by auto
  moreover have "filesWithParentDirs (conf w) sel = Inr out" using assms(4) sel(1) by (simp add: ResolvePaths_def)
  ultimately show ?thesis using filesWithParentDirs_set [OF assms(1,2), of sel out] sel(2) by simp
qed

text \<open>C13. What \<open>ResolvePaths\<close> returns, when no path fails to evaluate for another reason than being
  absent: exactly the selected paths (for every changed path that is not ignored, its ancestor link
  and its target unless that is ignored) together with all their parent directories up to the build
  root, so that a layer built from it is closed under parents.\<close>

theorem ResolvePaths_spec:
  assumes "RootDir (conf w) = abs_path rs" and "comps_ok rs"
    and "\<And>f. f \<in> set paths \<Longrightarrow> \<not> aborts w f" and "ResolvePaths w paths wl = Inr out"
  shows "set out = abs_path ` {p. prefix rs p \<and>
    (\<exists>f \<in> set paths. \<exists>q \<in> selected w wl f. prefix p (abs_comps q))}"
  using assms by (rule ResolvePaths_set)

theorem ResolvePaths_spec_witness:
  "set [''/box/usr'', ''/'', ''/box''] = abs_path ` {p. prefix [] p \<and>
    (\<exists>f \<in> set [''/box/usr'', ''/kaniko'', ''/missing'']. \<exists>q \<in> selected (demo_world ''/'') (ignorelist (demo_world ''/'')) f. prefix p (abs_comps q))}"
proof -
  let ?w = "demo_world ''/''" and ?paths = "[''/box/usr'', ''/kaniko'', ''/missing'']"
  have r: "ResolvePaths ?w ?paths (ignorelist ?w) = Inr [''/box/usr'', ''/'', ''/box'']" by code_simp
  have "list_all (\<lambda>f. \<not> aborts ?w f) ?paths" by code_simp
  then have na: "\<not> aborts ?w f" if "f \<in> set ?paths" for f using that by (auto simp: list_all_iff)
  have root: "RootDir (conf ?w) = abs_path []" by (simp add: demo_world_def)
  show ?thesis by (rule ResolvePaths_spec [OF root _ na r]) simp_all
qed

end
