(* ===== verification/Tar_Util.thy ===== *)
theory Tar_Util
  imports Ignore_List
begin

text \<open>
  \<open>pkg/util/tar_util.go\<close> and the hashers of \<open>pkg/util/util.go\<close>: the headers that go into a layer's
  tar stream, with the detection of hard links by inode number, whiteout markers, and the hash of a
  file that decides whether it changed. A tar stream is the list of its entries. The digests
  (HighwayHash, MD5) and the rendering of a time are arguments.
\<close>

subsection \<open>Tar streams\<close>

datatype tar_type = TypeReg string | TypeDir | TypeLink string | TypeSymlink string

record tar_entry =
  hName :: string
  hType :: tar_type
  hMode :: nat
  hUid :: nat
  hGid :: nat
  hModTime :: int
  hCap :: "string option"

record Tar =
  hardlinks :: "(nat, string) gomap"
  entries :: "tar_entry list"

definition NewTar :: Tar where
  "NewTar = \<lparr>hardlinks = [], entries = []\<rparr>"

text \<open>\<open>os.Lstat\<close> with the fields of \<open>syscall.Stat_t\<close> the code reads: the inode number and the number
  of links to it.\<close>

definition lstat_ino :: "filesys \<Rightarrow> string \<Rightarrow> (nat \<times> inode) res" where
  "lstat_ino fs p =
     rbind (locate fs False p) (\<lambda>q.
       case (gm_get (dents fs) q, lookup fs q) of
         (Some i, Some n) \<Rightarrow> Inr (i, n)
       | _ \<Rightarrow> Inl (Sys ENOENT))"

definition nlink :: "filesys \<Rightarrow> nat \<Rightarrow> nat" where
  "nlink fs i =
     (case gm_get (inodes fs) i of
        None \<Rightarrow> 0
      | Some n \<Rightarrow>
          if ity n = FDir
          then 2 + length (filter (\<lambda>e. fst e \<noteq> [] \<and> gm_get (dents fs) (butlast (fst e)) = Some i \<and>
                                       is_dir_node (lookup fs (fst e))) (dents fs))
          else length (filter (\<lambda>e. snd e = i) (dents fs)))"

definition checkHardlink :: "filesys \<Rightarrow> string \<Rightarrow> nat \<Rightarrow> Tar \<Rightarrow> string option \<times> Tar" where
  "checkHardlink fs p ino t =
     (if nlink fs ino \<le> 1 then (None, t)
      else case gm_get (hardlinks t) ino of
        Some original \<Rightarrow>
          if original \<noteq> p then (Some original, t)
          else (None, t\<lparr>hardlinks := gm_set (hardlinks t) ino p\<rparr>)
      | None \<Rightarrow> (None, t\<lparr>hardlinks := gm_set (hardlinks t) ino p\<rparr>))"

definition tarPathFromRoot :: "config \<Rightarrow> string \<Rightarrow> string" where
  "tarPathFromRoot c p =
     (let root = clean (RootDir c); path = clean p in
      if path = root then ''/''
      else case (if root \<noteq> ''/'' then rel root path else Inl (Msg [])) of
        Inr r \<Rightarrow>
          if r \<noteq> ''..'' \<and> \<not> has_prefix r ''../'' then trim_left CHR ''/'' r else trim_left CHR ''/'' path
      | Inl _ \<Rightarrow> trim_left CHR ''/'' path)"

definition header_type :: "ftype \<Rightarrow> tar_type" where
  "header_type t =
     (case t of FDir \<Rightarrow> TypeDir | FReg s \<Rightarrow> TypeReg s | FLink l \<Rightarrow> TypeSymlink l | FSocket \<Rightarrow> TypeReg [])"

definition file_header :: "config \<Rightarrow> string \<Rightarrow> inode \<Rightarrow> string option \<Rightarrow> tar_entry" where
  "file_header c p i hl =
     (let name = tarPathFromRoot c p;
          name = (if is_dir i \<and> \<not> has_suffix name ''/'' then name @ ''/'' else name);
          typ = (case hl of None \<Rightarrow> header_type (ity i) | Some dst \<Rightarrow> TypeLink (tarPathFromRoot c dst))
      in \<lparr>hName = name, hType = typ, hMode = imode i, hUid = iuid i, hGid = igid i,
          hModTime = imtime i, hCap = icap i\<rparr>)"

definition AddFileToTar :: "world \<Rightarrow> string \<Rightarrow> (Tar, unit) act" where
  "AddFileToTar w p t =
     (case lstat_ino (files w) p of
        Inl e \<Rightarrow> (Inl (Wrap (''Failed to get file info for '' @ p) e), t)
      | Inr (ino, i) \<Rightarrow>
          if ity i = FSocket then (Inr (), t)
          else let (hl, t1) = checkHardlink (files w) p ino t
               in (Inr (), t1\<lparr>entries := entries t1 @ [file_header (conf w) p i hl]\<rparr>))"

definition whiteout_prefix :: string where
  "whiteout_prefix = ''.wh.''"

definition whiteout_header :: "config \<Rightarrow> string \<Rightarrow> tar_entry" where
  "whiteout_header c p =
     \<lparr>hName = trim_left CHR ''/'' (tarPathFromRoot c (join_path [dir p, whiteout_prefix @ base p])),
      hType = TypeReg [], hMode = 0, hUid = 0, hGid = 0, hModTime = 0, hCap = None\<rparr>"

definition Whiteout :: "world \<Rightarrow> string \<Rightarrow> (Tar, unit) act" where
  "Whiteout w p t = (Inr (), t\<lparr>entries := entries t @ [whiteout_header (conf w) p]\<rparr>)"

text \<open>The order of \<open>filepath.WalkDir\<close>: the entries of a directory by name.\<close>

definition CreateTarballOfDirectory :: "world \<Rightarrow> string \<Rightarrow> tar_entry list res" where
  "CreateTarballOfDirectory w pathToDir =
     (if \<not> is_abs pathToDir then Inl (Msg ''pathToDir is not absolute'')
      else case os_Lstat (files w) pathToDir of
        Inl e \<Rightarrow> Inl e
      | Inr _ \<Rightarrow>
          let start = abs_comps pathToDir;
              paths = map abs_path (sort (walk (files w) (\<lambda>_. False) start))
          in (case sfold (AddFileToTar w) paths NewTar of
                (Inl e, _) \<Rightarrow> Inl e
              | (Inr _, t) \<Rightarrow> Inr (entries t)))"

subsection \<open>Hashers\<close>

definition rwx :: "nat \<Rightarrow> string" where
  "rwx m = map (\<lambda>(i, c). if m div 2 ^ i mod 2 = 1 then c else CHR ''-'')
     (zip (rev [0..<9]) ''rwxrwxrwx'')"

text \<open>\<open>FileMode.String\<close>: the letters of the type and special bits, or a dash, then the permissions.\<close>

definition mode_string :: "inode \<Rightarrow> string" where
  "mode_string n =
     (let typ = (case ity n of FDir \<Rightarrow> ''d'' | FLink _ \<Rightarrow> ''L'' | FSocket \<Rightarrow> ''S'' | FReg _ \<Rightarrow> []) @
                (if imode n div 2048 mod 2 = 1 then ''u'' else []) @
                (if imode n div 1024 mod 2 = 1 then ''g'' else []) @
                (if imode n div 512 mod 2 = 1 then ''t'' else [])
      in (if typ = [] then ''-'' else typ) @ rwx (imode n))"

definition base36_char :: "nat \<Rightarrow> char" where
  "base36_char d = (if d < 10 then char_of (48 + d) else char_of (87 + d))"

fun format_uint :: "nat \<Rightarrow> nat \<Rightarrow> string" where
  "format_uint b n =
     (if b < 2 then [] else if n < b then [base36_char n] else format_uint b (n div b) @ [base36_char (n mod b)])"

declare format_uint.simps [simp del]

definition size_of :: "inode \<Rightarrow> nat" where
  "size_of n = (case ity n of FReg s \<Rightarrow> length s | FLink t \<Rightarrow> length t | _ \<Rightarrow> 0)"

definition owner_string :: "inode \<Rightarrow> string" where
  "owner_string n = format_uint 36 (iuid n) @ '','' @ format_uint 36 (igid n)"

definition content_of :: "inode \<Rightarrow> string" where
  "content_of n = (case ity n of FReg s \<Rightarrow> s | FLink t \<Rightarrow> t | _ \<Rightarrow> [])"

definition Hasher :: "(string \<Rightarrow> string) \<Rightarrow> (int \<Rightarrow> string) \<Rightarrow> filesys \<Rightarrow> string \<Rightarrow> string res" where
  "Hasher highway time_str fs p =
     rbind (os_Lstat fs p) (\<lambda>fi.
       Inr (highway (mode_string fi @ time_str (imtime fi) @ owner_string fi @
         (if is_regular fi then (case icap fi of None \<Rightarrow> [] | Some c \<Rightarrow> c) else []) @ content_of fi)))"

definition CacheHasher :: "(string \<Rightarrow> string) \<Rightarrow> filesys \<Rightarrow> string \<Rightarrow> string res" where
  "CacheHasher md5 fs p =
     rbind (os_Lstat fs p) (\<lambda>fi. Inr (md5 (mode_string fi @ owner_string fi @ content_of fi)))"

definition MtimeHasher :: "(string \<Rightarrow> string) \<Rightarrow> (int \<Rightarrow> string) \<Rightarrow> filesys \<Rightarrow> string \<Rightarrow> string res" where
  "MtimeHasher md5 time_str fs p = rbind (os_Lstat fs p) (\<lambda>fi. Inr (md5 (time_str (imtime fi))))"

definition RedoHasher :: "(string \<Rightarrow> string) \<Rightarrow> (int \<Rightarrow> string) \<Rightarrow> filesys \<Rightarrow> string \<Rightarrow> string res" where
  "RedoHasher md5 time_str fs p =
     rbind (os_Lstat fs p) (\<lambda>fi.
       Inr (md5 (mode_string fi @ time_str (imtime fi) @ format_uint 16 (size_of fi) @ owner_string fi)))"

subsection \<open>Hard links refer back\<close>

definition link_base :: "string \<Rightarrow> tar_entry \<Rightarrow> bool" where
  "link_base l e \<longleftrightarrow> (hName e = l \<or> hName e = l @ ''/'') \<and> (\<forall>m. hType e \<noteq> TypeLink m)"

definition links_back :: "tar_entry list \<Rightarrow> bool" where
  "links_back es \<longleftrightarrow> (\<forall>i < length es. \<forall>l. hType (es ! i) = TypeLink l \<longrightarrow> (\<exists>j < i. link_base l (es ! j)))"

lemma links_back_snoc:
  "links_back (es @ [e]) \<longleftrightarrow>
     links_back es \<and> (\<forall>l. hType e = TypeLink l \<longrightarrow> (\<exists>e' \<in> set es. link_base l e'))"
proof -
  have last: "(\<exists>j < length es. link_base l ((es @ [e]) ! j)) \<longleftrightarrow> (\<exists>e' \<in> set es. link_base l e')" for l
    by (metis in_set_conv_nth nth_append)
  have old: "(\<exists>j < i. link_base l ((es @ [e]) ! j)) \<longleftrightarrow> (\<exists>j < i. link_base l (es ! j))"
    if "i < length es" for i l
    using that by (metis nth_append order.strict_trans)
  have "links_back (es @ [e]) \<longleftrightarrow>
      (\<forall>i < length es. \<forall>l. hType ((es @ [e]) ! i) = TypeLink l \<longrightarrow> (\<exists>j < i. link_base l ((es @ [e]) ! j))) \<and>
      (\<forall>l. hType e = TypeLink l \<longrightarrow> (\<exists>j < length es. link_base l ((es @ [e]) ! j)))"
    unfolding links_back_def by (simp add: All_less_Suc conj_commute)
  also have "\<dots> \<longleftrightarrow> links_back es \<and> (\<forall>l. hType e = TypeLink l \<longrightarrow> (\<exists>e' \<in> set es. link_base l e'))"
    unfolding last links_back_def using old by (simp add: nth_append)
  finally show ?thesis .
qed

definition tar_inv :: "config \<Rightarrow> Tar \<Rightarrow> bool" where
  "tar_inv c t \<longleftrightarrow> links_back (entries t) \<and>
     (\<forall>i p. gm_get (hardlinks t) i = Some p \<longrightarrow> (\<exists>e \<in> set (entries t). link_base (tarPathFromRoot c p) e))"

lemma tar_inv_new [simp]: "tar_inv c NewTar"
  by (simp add: tar_inv_def NewTar_def links_back_def)

lemma checkHardlink_cases:
  assumes "checkHardlink fs p ino t = (hl, t1)"
  shows "(\<exists>orig. hl = Some orig \<and> t1 = t \<and> gm_get (hardlinks t) ino = Some orig) \<or>
    (hl = None \<and> entries t1 = entries t \<and>
     (hardlinks t1 = hardlinks t \<or> hardlinks t1 = gm_set (hardlinks t) ino p))"
  using assms by (auto simp: checkHardlink_def split: if_splits option.splits)

lemma header_type_not_link: "header_type t \<noteq> TypeLink l"
  by (cases t) (simp_all add: header_type_def)

lemma file_header_plain: "link_base (tarPathFromRoot c p) (file_header c p i None)"
  by (auto simp: file_header_def link_base_def Let_def header_type_not_link)

lemma file_header_hard: "hType (file_header c p i (Some dst)) = TypeLink (tarPathFromRoot c dst)"
  by (simp add: file_header_def Let_def)

lemma AddFileToTar_cases:
  assumes "AddFileToTar w p t = (r, t')"
  obtains (same) "t' = t"
    | (plain) e where "entries t' = entries t @ [e]" "link_base (tarPathFromRoot (conf w) p) e"
        "\<And>i. gm_get (hardlinks t') i \<in> {gm_get (hardlinks t) i, Some p}"
    | (hard) e orig where "entries t' = entries t @ [e]" "hardlinks t' = hardlinks t"
        "hType e = TypeLink (tarPathFromRoot (conf w) orig)" "\<exists>i. gm_get (hardlinks t) i = Some orig"
proof (cases "lstat_ino (files w) p")
  case (Inl e)
  with assms same show ?thesis by (simp add: AddFileToTar_def)
next
  case (Inr x)
  obtain ino i where x: "x = (ino, i)" by (cases x)
  obtain hl t1 where ch: "checkHardlink (files w) p ino t = (hl, t1)" by fastforce
  show ?thesis
  proof (cases "ity i = FSocket")
    case True
    with assms Inr x same show ?thesis by (simp add: AddFileToTar_def)
  next
    case False
    note d = assms [unfolded AddFileToTar_def Inr x Let_def] ch False
    consider (known) orig where "hl = Some orig" "t1 = t" "gm_get (hardlinks t) ino = Some orig"
      | (new) "hl = None" "entries t1 = entries t"
          "hardlinks t1 = hardlinks t \<or> hardlinks t1 = gm_set (hardlinks t) ino p"
      using checkHardlink_cases [OF ch] by blast
    then show ?thesis
    proof cases
      case known
      then have "entries t' = entries t @ [file_header (conf w) p i (Some orig)]" "hardlinks t' = hardlinks t"
        "\<exists>i. gm_get (hardlinks t) i = Some orig"
        using d by auto
      then show ?thesis using hard file_header_hard by blast
    next
      case new
      then have e: "entries t' = entries t @ [file_header (conf w) p i None]" using d by auto
      have "gm_get (hardlinks t') k \<in> {gm_get (hardlinks t) k, Some p}" for k using d new by auto
      then show ?thesis using plain [OF e file_header_plain] by blast
    qed
  qed
qed

lemma tar_inv_AddFileToTar: "keeps (tar_inv (conf w)) (AddFileToTar w p)"
proof -
  have "tar_inv (conf w) t'" if inv: "tar_inv (conf w) t" and a: "AddFileToTar w p t = (r, t')" for t r t'
    using a
  proof (cases rule: AddFileToTar_cases)
    case same
    with inv show ?thesis by simp
  next
    case (plain e)
    have nl: "hType e \<noteq> TypeLink l" for l using plain(2) by (simp add: link_base_def)
    have "\<exists>e' \<in> set (entries t'). link_base (tarPathFromRoot (conf w) q) e'"
      if "gm_get (hardlinks t') i = Some q" for i q
      using that plain(3) [of i] plain(1,2) inv by (auto simp: tar_inv_def)
    with inv plain(1) nl show ?thesis by (simp add: tar_inv_def links_back_snoc)
  next
    case (hard e orig)
    with inv show ?thesis by (auto simp: tar_inv_def links_back_snoc)
  qed
  then show ?thesis by (auto simp: keeps_def) (metis prod.collapse)
qed

lemma tar_inv_Whiteout: "keeps (tar_inv c) (Whiteout w p)"
  by (auto simp: keeps_def Whiteout_def tar_inv_def links_back_snoc whiteout_header_def)

subsection \<open>What the hashers see\<close>

lemma os_Lstat_Chtimes:
  assumes "os_Lstat fs p = Inr n"
  shows "\<exists>m. os_Lstat (snd (os_Chtimes q t fs)) p = Inr (n\<lparr>imtime := m\<rparr>)"
proof -
  let ?f = "\<lambda>n. n\<lparr>imtime := t\<rparr>"
  obtain r where r: "locate fs False p = Inr r" "lookup fs r = Some n"
    using assms by (auto simp: os_Lstat_def stat_gen_Inr)
  have shape: "same_shape fs (snd (upd_file q ?f fs))" by (rule same_shape_upd_file) simp
  have "lookup (snd (upd_file q ?f fs)) r = Some n \<or> lookup (snd (upd_file q ?f fs)) r = Some (?f n)"
    using r(2) by (auto simp: upd_file_def lookup_upd_inode split: sum.splits)
  then have "\<exists>m. lookup (snd (upd_file q ?f fs)) r = Some (n\<lparr>imtime := m\<rparr>)"
    by (metis inode.surjective inode.update_convs(5))
  then show ?thesis
    using r(1) locate_same_shape [OF shape, of False p] by (auto simp: os_Lstat_def stat_gen_Inr os_Chtimes_def)
qed

lemma mtime_irrelevant [simp]:
  "mode_string (n\<lparr>imtime := m\<rparr>) = mode_string n" "owner_string (n\<lparr>imtime := m\<rparr>) = owner_string n"
  "content_of (n\<lparr>imtime := m\<rparr>) = content_of n"
  by (simp_all add: mode_string_def owner_string_def content_of_def)

text \<open>The hash that keys the layer cache does not depend on modification times: changing the time
  of any file leaves the \<open>CacheHasher\<close> hash of every file as it was, so a build context that was
  checked out again still hits the cache.\<close>

theorem CacheHasher_ignores_mtime:
  assumes "CacheHasher md5 fs p = Inr h"
  shows "CacheHasher md5 (snd (os_Chtimes q t fs)) p = Inr h"
proof -
  obtain n where n: "os_Lstat fs p = Inr n" using assms by (auto simp: CacheHasher_def)
  obtain m where "os_Lstat (snd (os_Chtimes q t fs)) p = Inr (n\<lparr>imtime := m\<rparr>)"
    using os_Lstat_Chtimes [OF n] by blast
  with assms n show ?thesis by (simp add: CacheHasher_def)
qed

theorem CacheHasher_ignores_mtime_witness:
  "CacheHasher (\<lambda>s. s) demo_fs ''/box/usr/sh'' = Inr ''-rwxr-xr-x0,0x'' \<and>
   CacheHasher (\<lambda>s. s) (snd (os_Chtimes ''/box/usr/sh'' 7 demo_fs)) ''/box/usr/sh'' = Inr ''-rwxr-xr-x0,0x'' \<and>
   Hasher (\<lambda>s. s) itoa (snd (os_Chtimes ''/box/usr/sh'' 7 demo_fs)) ''/box/usr/sh'' \<noteq> Hasher (\<lambda>s. s) itoa demo_fs ''/box/usr/sh''"
proof -
  have c: "CacheHasher (\<lambda>s. s) demo_fs ''/box/usr/sh'' = Inr ''-rwxr-xr-x0,0x''" by code_simp
  have "Hasher (\<lambda>s. s) itoa (snd (os_Chtimes ''/box/usr/sh'' 7 demo_fs)) ''/box/usr/sh'' \<noteq>
      Hasher (\<lambda>s. s) itoa demo_fs ''/box/usr/sh''" by code_simp
  then show ?thesis using c CacheHasher_ignores_mtime [OF c] by simp
qed

end
