(* ===== verification/Snapshot.thy ===== *)
theory Snapshot
  imports Layered_Map Resolve_Paths Tar_Util
begin

text \<open>
  \<open>pkg/snapshot/snapshot.go\<close> with \<open>WalkFS\<close> of \<open>pkg/util/fs_util.go\<close>: comparing the file system with
  the layered map and writing the difference as a tar stream of changed files and whiteouts. The walk
  visits the paths that \<open>godirwalk\<close> calls back on; its time limit is not modelled. A snapshot returns
  the entries of its tar file, \<open>None\<close> when it writes none.
\<close>

subsection \<open>Walking the file system\<close>

definition IsDestDir :: "world \<Rightarrow> string \<Rightarrow> bool" where
  "IsDestDir w path =
     (case os_Stat (files w) path of
        Inl _ \<Rightarrow> has_suffix path ''/'' \<or> path = ''.''
      | Inr fi \<Rightarrow> is_dir fi)"

text \<open>The path names under which a walk from the directory \<open>d\<close> calls back.\<close>

definition godirwalk :: "world \<Rightarrow> (string \<Rightarrow> bool) \<Rightarrow> string \<Rightarrow> string list" where
  "godirwalk w skip d =
     (case locate (files w) False d of
        Inl _ \<Rightarrow> []
      | Inr q \<Rightarrow>
          if is_dir_node (lookup (files w) q)
          then let name = (\<lambda>p. abs_path (abs_comps d @ drop (length q) p))
               in map name (walk (files w) (\<lambda>p. skip (name p)) q)
          else [])"

definition skip_ignored :: "world \<Rightarrow> string \<Rightarrow> bool" where
  "skip_ignored w path = (IsInIgnoreList w path \<and> IsDestDir w path)"

text \<open>The callback on each path: the paths left in \<open>deleted\<close> are those the walk did not meet. An error
  of \<open>changeFunc\<close> ends the walk, and the walk's error is dropped.\<close>

fun walk_paths :: "world \<Rightarrow> (string \<Rightarrow> ('s, bool) act) \<Rightarrow> string list \<Rightarrow> string list \<Rightarrow>
    (string, unit) gomap \<Rightarrow> 's \<Rightarrow> (string list \<times> (string, unit) gomap) \<times> 's" where
  "walk_paths w changeFunc [] found deleted s = ((found, deleted), s)"
| "walk_paths w changeFunc (path # paths) found deleted s =
     (if IsInIgnoreList w path then walk_paths w changeFunc paths found deleted s
      else case changeFunc path s of
        (Inl _, s') \<Rightarrow> ((found, gm_del deleted path), s')
      | (Inr isChanged, s') \<Rightarrow>
          walk_paths w changeFunc paths (if isChanged then found @ [path] else found) (gm_del deleted path) s')"

definition gowalkDir :: "world \<Rightarrow> string \<Rightarrow> (string, unit) gomap \<Rightarrow> (string \<Rightarrow> ('s, bool) act) \<Rightarrow>
    's \<Rightarrow> (string list \<times> (string, unit) gomap) \<times> 's" where
  "gowalkDir w d existingPaths changeFunc s =
     walk_paths w changeFunc (godirwalk w (skip_ignored w) d) [] existingPaths s"

definition WalkFS :: "world \<Rightarrow> string \<Rightarrow> (string, unit) gomap \<Rightarrow> (string \<Rightarrow> ('s, bool) act) \<Rightarrow>
    's \<Rightarrow> (string list \<times> (string, unit) gomap) \<times> 's" where
  "WalkFS w d existingPaths changeFunc s = gowalkDir w d existingPaths changeFunc s"

subsection \<open>Writing the tar stream\<close>

definition removeObsoleteWhiteouts :: "(string, unit) gomap \<Rightarrow> string list" where
  "removeObsoleteWhiteouts deletedFiles =
     filter (\<lambda>path. \<not> gm_has deletedFiles (dir path)) (gm_keys deletedFiles)"

fun first_non_dir :: "filesys \<Rightarrow> string list \<Rightarrow> bool res" where
  "first_non_dir fs [] = Inr False"
| "first_non_dir fs (p # ps) =
     (case os_Lstat fs p of Inl e \<Rightarrow> Inl e | Inr i \<Rightarrow> if \<not> is_dir i then Inr True else first_non_dir fs ps)"

definition parentPathIncludesNonDirectory :: "world \<Rightarrow> string \<Rightarrow> bool res" where
  "parentPathIncludesNonDirectory w path =
     rbind (parents (conf w) path) (first_non_dir (files w))"

record tar_state =
  tar :: Tar
  addedPaths :: "(string, bool) gomap"

definition add_path :: "world \<Rightarrow> string \<Rightarrow> (tar_state, unit) act" where
  "add_path w path st =
     (if gm_has (addedPaths st) path then (Inr (), st)
      else case AddFileToTar w path (tar st) of
        (Inl e, t) \<Rightarrow> (Inl e, st\<lparr>tar := t\<rparr>)
      | (Inr _, t) \<Rightarrow> (Inr (), st\<lparr>tar := t, addedPaths := gm_set (addedPaths st) path True\<rparr>))"

definition addParentDirectories :: "world \<Rightarrow> string \<Rightarrow> (tar_state, unit) act" where
  "addParentDirectories w path =
     sbind (sreads (\<lambda>_. parents (conf w) path)) (\<lambda>ps. sfold (add_path w) ps)"

definition on_tar :: "(Tar, 'a) act \<Rightarrow> (tar_state, 'a) act" where
  "on_tar m st = (case m (tar st) of (r, t) \<Rightarrow> (r, st\<lparr>tar := t\<rparr>))"

definition write_whiteout :: "world \<Rightarrow> string \<Rightarrow> (tar_state, unit) act" where
  "write_whiteout w path =
     sbind (sreads (\<lambda>_. parentPathIncludesNonDirectory w path)) (\<lambda>skipWhiteout.
       if skipWhiteout then sret ()
       else sthen (addParentDirectories w path) (on_tar (Whiteout w path)))"

definition write_file :: "world \<Rightarrow> string \<Rightarrow> (tar_state, unit) act" where
  "write_file w path = sthen (addParentDirectories w path) (add_path w path)"

definition writeToTar :: "world \<Rightarrow> string list \<Rightarrow> string list \<Rightarrow> (tar_state, unit) act" where
  "writeToTar w fls whiteouts = sthen (sfold (write_whiteout w) whiteouts) (sfold (write_file w) fls)"

definition new_tar_state :: tar_state where
  "new_tar_state = \<lparr>tar = NewTar, addedPaths = []\<rparr>"

definition tar_of :: "world \<Rightarrow> string list \<Rightarrow> string list \<Rightarrow> tar_entry list res" where
  "tar_of w fls whiteouts =
     (case writeToTar w fls whiteouts new_tar_state of
        (Inl e, _) \<Rightarrow> Inl e
      | (Inr _, st) \<Rightarrow> Inr (entries (tar st)))"

subsection \<open>The snapshotter\<close>

record Snapshotter =
  layers :: LayeredMap
  directory :: string
  snap_ignorelist :: "IgnoreListEntry list"

definition NewSnapshotter :: "world \<Rightarrow> LayeredMap \<Rightarrow> string \<Rightarrow> Snapshotter" where
  "NewSnapshotter w l d = \<lparr>layers = l, directory = d, snap_ignorelist = ignorelist w\<rparr>"

definition on_layers :: "(LayeredMap, 'a) act \<Rightarrow> (Snapshotter, 'a) act" where
  "on_layers m s = (case m (layers s) of (r, l) \<Rightarrow> (r, s\<lparr>layers := l\<rparr>))"

definition record_layer :: "hasher \<Rightarrow> string list \<Rightarrow> string list \<Rightarrow> (LayeredMap, unit) act" where
  "record_layer h added deleted =
     sthen (swrap ''Unable to add file to layered map'' (sfold (lm_Add h) added))
       (swrap ''Unable to whiteout file in layered map'' (sfold AddDelete deleted))"

definition scanFullFilesystem :: "world \<Rightarrow> hasher \<Rightarrow> (Snapshotter, string list \<times> string list) act" where
  "scanFullFilesystem w h s =
     (case os_Stat (files w) (directory s) of
        Inl e \<Rightarrow> (Inl e, s)
      | Inr _ \<Rightarrow>
          let l1 = lm_Snapshot (layers s);
              ((changedPaths, deletedPaths), l2) =
                WalkFS w (directory s) (GetCurrentPaths l1) (CheckFileChange h) l1
          in case ResolvePaths w changedPaths (snap_ignorelist s) of
               Inl e \<Rightarrow> (Inl e, s\<lparr>layers := l2\<rparr>)
             | Inr resolvedFiles \<Rightarrow>
                 let filesToAdd = filter (\<lambda>path. \<not> CheckIgnoreList w path) resolvedFiles
                 in (case record_layer h filesToAdd (gm_keys deletedPaths) l2 of
                       (Inl e, l3) \<Rightarrow> (Inl e, s\<lparr>layers := l3\<rparr>)
                     | (Inr _, l3) \<Rightarrow>
                         (Inr (sort filesToAdd, sort (removeObsoleteWhiteouts deletedPaths)), s\<lparr>layers := l3\<rparr>)))"

definition sn_Init :: "world \<Rightarrow> hasher \<Rightarrow> (Snapshotter, unit) act" where
  "sn_Init w h = sthen (scanFullFilesystem w h) (sret ())"

definition TakeSnapshotFS :: "world \<Rightarrow> hasher \<Rightarrow> (Snapshotter, tar_entry list) act" where
  "TakeSnapshotFS w h =
     sbind (scanFullFilesystem w h) (\<lambda>(filesToAdd, filesToWhiteOut).
       sreads (\<lambda>_. tar_of w filesToAdd filesToWhiteOut))"

definition TakeSnapshot :: "world \<Rightarrow> hasher \<Rightarrow> string list \<Rightarrow> bool \<Rightarrow> bool \<Rightarrow>
    (Snapshotter, tar_entry list option) act" where
  "TakeSnapshot w h fls shdCheckDelete forceBuildMetadata s =
     (let l1 = lm_Snapshot (layers s) in
      if fls = [] \<and> \<not> forceBuildMetadata then (Inr None, s\<lparr>layers := l1\<rparr>)
      else case ResolvePaths w fls (snap_ignorelist s) of
        Inl e \<Rightarrow> (Inl e, s\<lparr>layers := l1\<rparr>)
      | Inr resolved \<Rightarrow>
          let filesToAdd = sort resolved in
          (case swrap ''Unable to add file to layered map'' (sfold (lm_Add h) filesToAdd) l1 of
             (Inl e, l2) \<Rightarrow> (Inl e, s\<lparr>layers := l2\<rparr>)
           | (Inr _, l2) \<Rightarrow>
               let deletedFiles = (if shdCheckDelete
                     then snd (fst (WalkFS w (directory s) (GetCurrentPaths l2) (\<lambda>_. sret True) ())) else []);
                   filesToWhiteout = sort (removeObsoleteWhiteouts deletedFiles)
               in (case swrap ''Unable to whiteout file in layered map''
                          (sfold AddDelete (gm_keys deletedFiles)) l2 of
                     (Inl e, l3) \<Rightarrow> (Inl e, s\<lparr>layers := l3\<rparr>)
                   | (Inr _, l3) \<Rightarrow>
                       (rbind (tar_of w filesToAdd filesToWhiteout) (\<lambda>es. Inr (Some es)), s\<lparr>layers := l3\<rparr>))))"

subsection \<open>Whiteouts\<close>

lemma whiteout_above:
  assumes dirs: "\<And>p. gm_has deleted p \<Longrightarrow> \<exists>cs. p = abs_path cs \<and> comps_ok cs"
    and root: "\<not> gm_has deleted ''/''"
  shows "gm_has deleted (abs_path cs) \<Longrightarrow> comps_ok cs \<Longrightarrow>
    \<exists>ds. abs_path ds \<in> set (removeObsoleteWhiteouts deleted) \<and> prefix ds cs"
proof (induction cs rule: rev_induct)
  case Nil
  with root show ?case by simp
next
  case (snoc c cs)
  have d: "dir (abs_path (cs @ [c])) = abs_path cs" using snoc.prems(2) by (rule dir_abs_path)
  show ?case
  proof (cases "gm_has deleted (abs_path cs)")
    case True
    with snoc show ?thesis by (auto intro: prefix_order.trans)
  next
    case False
    with snoc.prems(1) d have "abs_path (cs @ [c]) \<in> set (removeObsoleteWhiteouts deleted)"
      by (simp add: removeObsoleteWhiteouts_def gm_keys_iff)
    then show ?thesis by blast
  qed
qed

text \<open>C11. The whiteouts written for a set of deleted paths remove exactly them: every deleted path lies
  at or below one of the whiteouts, every whiteout is a deleted path, and the directory of a whiteout
  still exists, so that no whiteout is obsolete.\<close>

theorem whiteouts_cover_deleted:
  assumes "\<And>p. gm_has deleted p \<Longrightarrow> \<exists>cs. p = abs_path cs \<and> comps_ok cs" and "\<not> gm_has deleted ''/''"
  shows "(\<forall>p. gm_has deleted p \<longrightarrow>
      (\<exists>q \<in> set (removeObsoleteWhiteouts deleted). prefix (abs_comps q) (abs_comps p))) \<and>
    (\<forall>q \<in> set (removeObsoleteWhiteouts deleted). gm_has deleted q \<and> \<not> gm_has deleted (dir q))"
proof (intro conjI allI impI)
  fix p assume p: "gm_has deleted p"
  then obtain cs where cs: "p = abs_path cs" "comps_ok cs" using assms(1) by blast
  then obtain ds where ds: "abs_path ds \<in> set (removeObsoleteWhiteouts deleted)" "prefix ds cs"
    using whiteout_above [of deleted cs] assms p by blast
  then have "comps_ok ds" using cs(2) by (auto simp: prefix_def)
  with ds cs show "\<exists>q \<in> set (removeObsoleteWhiteouts deleted). prefix (abs_comps q) (abs_comps p)"
    by (intro bexI [of _ "abs_path ds"]) simp_all
qed (auto simp: removeObsoleteWhiteouts_def gm_keys_iff)

theorem whiteouts_cover_deleted_witness:
  "removeObsoleteWhiteouts [(''/a/b'', ()), (''/a'', ()), (''/c'', ())] = [''/a'', ''/c''] \<and>
   (\<exists>q \<in> set (removeObsoleteWhiteouts [(''/a/b'', ()), (''/a'', ()), (''/c'', ())]).
      prefix (abs_comps q) (abs_comps ''/a/b''))"
proof -
  let ?del = "[(''/a/b'', ()), (''/a'', ()), (''/c'', ())]"
  have keys: "gm_has ?del p \<longleftrightarrow> p \<in> {''/a/b'', ''/a'', ''/c''}" for p
    unfolding gm_keys_iff [symmetric] by (simp add: gm_keys_def)
  have "\<exists>cs. p = abs_path cs \<and> comps_ok cs" if "gm_has ?del p" for p
    using that abs_path_def [of "[''a'', ''b'']"] abs_path_def [of "[''a'']"] abs_path_def [of "[''c'']"]
    unfolding keys by (auto simp: comp_ok_def intro: exI [of _ "[''a'', ''b'']"] exI [of _ "[''a'']"] exI [of _ "[''c'']"])
  moreover have "\<not> gm_has ?del ''/''" unfolding keys by simp
  moreover have "removeObsoleteWhiteouts ?del = [''/a'', ''/c'']" by code_simp
  ultimately show ?thesis using whiteouts_cover_deleted [of ?del] keys [of "''/a/b''"] by blast
qed

subsection \<open>A tar stream lists directories before what is in them\<close>

definition names_path :: "config \<Rightarrow> string \<Rightarrow> tar_entry \<Rightarrow> bool" where
  "names_path c p e \<longleftrightarrow> hName e = tarPathFromRoot c p \<or> hName e = tarPathFromRoot c p @ ''/''"

definition is_socket :: "world \<Rightarrow> string \<Rightarrow> bool" where
  "is_socket w p = (case os_Lstat (files w) p of Inl _ \<Rightarrow> False | Inr i \<Rightarrow> ity i = FSocket)"

text \<open>The stream has an entry for \<open>p\<close>, after an entry for each of its parent directories.\<close>

definition listed :: "world \<Rightarrow> tar_entry list \<Rightarrow> string \<Rightarrow> bool" where
  "listed w es p \<longleftrightarrow> (\<exists>i < length es. names_path (conf w) p (es ! i) \<and>
     (\<forall>ps d. parents (conf w) p = Inr ps \<longrightarrow> d \<in> set ps \<longrightarrow> d \<noteq> p \<longrightarrow>
        is_socket w d \<or> (\<exists>j < i. names_path (conf w) d (es ! j))))"

lemma listed_append: "listed w es p \<Longrightarrow> listed w (es @ fs) p"
proof -
  assume "listed w es p"
  then obtain i where i: "i < length es" "names_path (conf w) p (es ! i)"
    and ps: "\<And>ps d. parents (conf w) p = Inr ps \<Longrightarrow> d \<in> set ps \<Longrightarrow> d \<noteq> p \<Longrightarrow>
      is_socket w d \<or> (\<exists>j < i. names_path (conf w) d (es ! j))"
    unfolding listed_def by blast
  have "is_socket w d \<or> (\<exists>j < i. names_path (conf w) d ((es @ fs) ! j))"
    if "parents (conf w) p = Inr qs" "d \<in> set qs" "d \<noteq> p" for qs d
    using ps [OF that] i(1) by (metis nth_append order.strict_trans)
  with i show ?thesis unfolding listed_def by (intro exI [of _ i]) (simp add: nth_append)
qed

lemma listed_snoc:
  assumes "names_path (conf w) p e"
    and "\<And>ps d. parents (conf w) p = Inr ps \<Longrightarrow> d \<in> set ps \<Longrightarrow> d \<noteq> p \<Longrightarrow>
      is_socket w d \<or> (\<exists>e' \<in> set es. names_path (conf w) d e')"
  shows "listed w (es @ [e]) p"
proof -
  have "is_socket w d \<or> (\<exists>j < length es. names_path (conf w) d ((es @ [e]) ! j))"
    if "parents (conf w) p = Inr qs" "d \<in> set qs" "d \<noteq> p" for qs d
    using assms(2) [OF that] by (metis in_set_conv_nth nth_append)
  with assms(1) show ?thesis unfolding listed_def by (intro exI [of _ "length es"]) simp
qed

lemma listed_names: "listed w es p \<Longrightarrow> \<exists>e \<in> set es. names_path (conf w) p e"
  unfolding listed_def using nth_mem by blast

definition added_inv :: "world \<Rightarrow> tar_state \<Rightarrow> bool" where
  "added_inv w st \<longleftrightarrow> tar_inv (conf w) (tar st) \<and>
     (\<forall>p. gm_has (addedPaths st) p \<longrightarrow> is_socket w p \<or> listed w (entries (tar st)) p)"

lemma AddFileToTar_ok:
  assumes "AddFileToTar w p t = (Inr u, t')"
  shows "is_socket w p \<and> entries t' = entries t \<or>
    \<not> is_socket w p \<and> (\<exists>e. entries t' = entries t @ [e] \<and> names_path (conf w) p e)"
proof -
  obtain ino i where l: "lstat_ino (files w) p = Inr (ino, i)"
    using assms by (auto simp: AddFileToTar_def split: sum.splits)
  then have "os_Lstat (files w) p = Inr i"
    by (auto simp: lstat_ino_def os_Lstat_def stat_gen_Inr split: option.splits)
  then have sock: "is_socket w p \<longleftrightarrow> ity i = FSocket" by (simp add: is_socket_def)
  obtain hl t1 where ch: "checkHardlink (files w) p ino t = (hl, t1)" by fastforce
  have "names_path (conf w) p (file_header (conf w) p i hl)" by (simp add: names_path_def file_header_def Let_def)
  moreover have "entries t1 = entries t" using checkHardlink_cases [OF ch] by auto
  ultimately show ?thesis using assms l ch sock by (auto simp: AddFileToTar_def split: if_splits)
qed

lemma parents_known:
  "(\<forall>ps d. parents (conf w) p = Inr ps \<longrightarrow> d \<in> set ps \<longrightarrow> d \<noteq> p \<longrightarrow> gm_has (addedPaths st) d) \<Longrightarrow>
   added_inv w st \<Longrightarrow> parents (conf w) p = Inr ps \<Longrightarrow> d \<in> set ps \<Longrightarrow> d \<noteq> p \<Longrightarrow>
   is_socket w d \<or> (\<exists>e' \<in> set (entries (tar st)). names_path (conf w) d e')"
  by (auto simp: added_inv_def dest: listed_names)

lemma add_path_step:
  assumes inv: "added_inv w st" and a: "add_path w p st = (Inr u, st')"
    and ps: "\<forall>ps d. parents (conf w) p = Inr ps \<longrightarrow> d \<in> set ps \<longrightarrow> d \<noteq> p \<longrightarrow> gm_has (addedPaths st) d"
  shows "added_inv w st'" and "\<And>q. gm_has (addedPaths st') q \<longleftrightarrow> q = p \<or> gm_has (addedPaths st) q"
proof -
  have both: "added_inv w st' \<and> (\<forall>q. gm_has (addedPaths st') q \<longleftrightarrow> q = p \<or> gm_has (addedPaths st) q)"
  proof (cases "gm_has (addedPaths st) p")
    case True
    with a inv show ?thesis by (auto simp: add_path_def)
  next
    case False
    with a obtain t where t: "AddFileToTar w p (tar st) = (Inr (), t)"
      and st': "st' = st\<lparr>tar := t, addedPaths := gm_set (addedPaths st) p True\<rparr>"
      by (auto simp: add_path_def split: prod.splits sum.splits)
    have ti: "tar_inv (conf w) t"
      using keepsD [OF tar_inv_AddFileToTar, of w "tar st" p] inv t by (simp add: added_inv_def)
    have old: "is_socket w q \<or> listed w (entries t) q" if "gm_has (addedPaths st) q" for q
      using that inv AddFileToTar_ok [OF t] by (auto simp: added_inv_def listed_append)
    have "is_socket w p \<or> listed w (entries t) p"
      using AddFileToTar_ok [OF t] listed_snoc [OF _ parents_known [OF ps inv]] by auto
    with ti old st' show ?thesis by (auto simp: added_inv_def)
  qed
  then show "added_inv w st'" "\<And>q. gm_has (addedPaths st') q \<longleftrightarrow> q = p \<or> gm_has (addedPaths st) q" by auto
qed

definition in_order :: "config \<Rightarrow> (string \<Rightarrow> bool) \<Rightarrow> string list \<Rightarrow> bool" where
  "in_order c known ps \<longleftrightarrow>
     (\<forall>i < length ps. \<forall>qs d. parents c (ps ! i) = Inr qs \<longrightarrow> d \<in> set qs \<longrightarrow> d \<noteq> ps ! i \<longrightarrow>
        d \<in> set (take i ps) \<or> known d)"

lemma in_order_Cons:
  assumes "in_order c known (p # ps)"
  shows "\<forall>qs d. parents c p = Inr qs \<longrightarrow> d \<in> set qs \<longrightarrow> d \<noteq> p \<longrightarrow> known d"
    and "in_order c (\<lambda>q. q = p \<or> known q) ps"
proof -
  show "\<forall>qs d. parents c p = Inr qs \<longrightarrow> d \<in> set qs \<longrightarrow> d \<noteq> p \<longrightarrow> known d"
    using assms [unfolded in_order_def, THEN spec, of 0] by simp
  show "in_order c (\<lambda>q. q = p \<or> known q) ps"
    unfolding in_order_def
  proof (intro allI impI)
    fix i qs d
    assume i: "i < length ps" and "parents c (ps ! i) = Inr qs" "d \<in> set qs" "d \<noteq> ps ! i"
    then have "d \<in> set (take (Suc i) (p # ps)) \<or> known d"
      using assms [unfolded in_order_def, THEN spec, of "Suc i"] by simp
    then show "d \<in> set (take i ps) \<or> d = p \<or> known d" by auto
  qed
qed

lemma sfold_add_path:
  "added_inv w st \<Longrightarrow> sfold (add_path w) ps st = (Inr u, st') \<Longrightarrow>
   in_order (conf w) (gm_has (addedPaths st)) ps \<Longrightarrow>
   added_inv w st' \<and> (\<forall>q. gm_has (addedPaths st') q \<longleftrightarrow> q \<in> set ps \<or> gm_has (addedPaths st) q)"
proof (induction ps arbitrary: st)
  case (Cons p ps)
  from Cons.prems(2) obtain v st1 where a: "add_path w p st = (Inr v, st1)"
    and r: "sfold (add_path w) ps st1 = (Inr u, st')"
    by (auto split: prod.splits sum.splits)
  note step = add_path_step [OF Cons.prems(1) a in_order_Cons(1) [OF Cons.prems(3)]]
  have "gm_has (addedPaths st1) = (\<lambda>q. q = p \<or> gm_has (addedPaths st) q)" using step(2) by blast
  then have "in_order (conf w) (gm_has (addedPaths st1)) ps" using in_order_Cons(2) [OF Cons.prems(3)] by simp
  from Cons.IH [OF step(1) r this] step(2) show ?case by auto
qed simp

lemma parents_in_order:
  assumes "RootDir c = abs_path rs" and "comps_ok rs" and "comps_ok ds" and "parents c (abs_path ds) = Inr ps"
  shows "in_order c known ps"
    and "\<And>d. d \<in> set ps \<Longrightarrow> \<exists>i. d = abs_path (take i ds)"
proof -
  have pre: "prefix rs ds" and
    ps: "ps = map (\<lambda>i. abs_path (take i ds)) [length rs ..< max (length ds) (Suc (length rs))]"
    using ParentDirectories_eq [OF assms(1-3)] assms(4) by (auto simp: parents_def split: if_splits)
  show "\<And>d. d \<in> set ps \<Longrightarrow> \<exists>i. d = abs_path (take i ds)" using ps by auto
  show "in_order c known ps"
    unfolding in_order_def
  proof (intro allI impI disjI1)
    fix i qs d
    assume i: "i < length ps" and q: "parents c (ps ! i) = Inr qs" and d: "d \<in> set qs" "d \<noteq> ps ! i"
    let ?n = "length rs + i"
    have pi: "ps ! i = abs_path (take ?n ds)" using i ps by simp
    have ok: "comps_ok (take ?n ds)" using assms(3) by (auto simp: list_all_iff dest: in_set_takeD)
    have len: "?n \<le> length ds" using i ps pre prefix_length_le [OF pre] by (auto simp: max_def split: if_splits)
    have "qs = map (\<lambda>j. abs_path (take j (take ?n ds))) [length rs ..< max ?n (Suc (length rs))]"
      using ParentDirectories_eq [OF assms(1,2) ok] q pi len by (auto simp: parents_def split: if_splits)
    then obtain j where j: "length rs \<le> j" "j < max ?n (Suc (length rs))" "d = abs_path (take j (take ?n ds))"
      using d(1) by auto
    have "j < ?n"
    proof (rule ccontr)
      assume "\<not> j < ?n"
      then have "take j (take ?n ds) = take ?n ds" by simp
      with j(3) d(2) pi show False by simp
    qed
    then have "d = ps ! (j - length rs)" "j - length rs < i" using j i ps by auto
    then show "d \<in> set (take i ps)" using i by (auto simp: in_set_conv_nth)
  qed
qed

lemma addParentDirectories_ok:
  assumes root: "RootDir (conf w) = abs_path rs" "comps_ok rs" and ds: "comps_ok ds"
    and inv: "added_inv w st" and a: "addParentDirectories w (abs_path ds) st = (Inr u, st')"
  shows "\<exists>ps. parents (conf w) (abs_path ds) = Inr ps \<and> added_inv w st' \<and>
    (\<forall>q. gm_has (addedPaths st') q \<longleftrightarrow> q \<in> set ps \<or> gm_has (addedPaths st) q)"
proof -
  from a obtain ps where ps: "parents (conf w) (abs_path ds) = Inr ps"
    and s: "sfold (add_path w) ps st = (Inr u, st')"
    by (auto simp: addParentDirectories_def act_Inr)
  from sfold_add_path [OF inv s parents_in_order(1) [OF root ds ps]] ps show ?thesis by blast
qed

lemma write_file_ok:
  assumes root: "RootDir (conf w) = abs_path rs" "comps_ok rs" and ds: "comps_ok ds"
    and inv: "added_inv w st" and a: "write_file w (abs_path ds) st = (Inr u, st')"
  shows "added_inv w st' \<and> gm_has (addedPaths st') (abs_path ds) \<and>
    (\<forall>q. gm_has (addedPaths st) q \<longrightarrow> gm_has (addedPaths st') q)"
proof -
  from a obtain v st1 where p: "addParentDirectories w (abs_path ds) st = (Inr v, st1)"
    and f: "add_path w (abs_path ds) st1 = (Inr u, st')"
    by (auto simp: write_file_def act_Inr)
  obtain ps where ps: "parents (conf w) (abs_path ds) = Inr ps" and inv1: "added_inv w st1"
    and known: "\<forall>q. gm_has (addedPaths st1) q \<longleftrightarrow> q \<in> set ps \<or> gm_has (addedPaths st) q"
    using addParentDirectories_ok [OF root ds inv p] by blast
  have "\<forall>qs d. parents (conf w) (abs_path ds) = Inr qs \<longrightarrow> d \<in> set qs \<longrightarrow> d \<noteq> abs_path ds \<longrightarrow>
      gm_has (addedPaths st1) d"
    using ps known by auto
  from add_path_step [OF inv1 f this] known show ?thesis by auto
qed

lemma write_whiteout_ok:
  assumes root: "RootDir (conf w) = abs_path rs" "comps_ok rs" and ds: "comps_ok ds"
    and inv: "added_inv w st" and a: "write_whiteout w (abs_path ds) st = (Inr u, st')"
  shows "added_inv w st'"
proof -
  consider "st' = st" | v st1 where "addParentDirectories w (abs_path ds) st = (Inr v, st1)"
    "on_tar (Whiteout w (abs_path ds)) st1 = (Inr u, st')"
    using a by (auto simp: write_whiteout_def act_Inr split: if_splits)
  then show ?thesis
  proof cases
    case (2 v st1)
    have inv1: "added_inv w st1" using addParentDirectories_ok [OF root ds inv 2(1)] by blast
    have st': "st' = st1\<lparr>tar := snd (Whiteout w (abs_path ds) (tar st1))\<rparr>"
      using 2(2) by (auto simp: on_tar_def split: prod.splits)
    have "tar_inv (conf w) (tar st')"
      using keepsD [OF tar_inv_Whiteout] inv1 st' by (simp add: added_inv_def)
    with inv1 st' show ?thesis by (auto simp: added_inv_def Whiteout_def listed_append)
  qed (use inv in simp)
qed

lemma write_files_ok:
  assumes root: "RootDir (conf w) = abs_path rs" "comps_ok rs"
    and abs: "\<And>f. f \<in> set fls \<Longrightarrow> \<exists>cs. f = abs_path cs \<and> comps_ok cs"
  shows "added_inv w st \<Longrightarrow> sfold (write_file w) fls st = (Inr u, st') \<Longrightarrow>
    added_inv w st' \<and> (\<forall>f. f \<in> set fls \<or> gm_has (addedPaths st) f \<longrightarrow> gm_has (addedPaths st') f)"
  using abs
proof (induction fls arbitrary: st)
  case (Cons f fls)
  from Cons.prems(2) obtain v st1 where a: "write_file w f st = (Inr v, st1)"
    and r: "sfold (write_file w) fls st1 = (Inr u, st')"
    by (auto split: prod.splits sum.splits)
  obtain cs where cs: "f = abs_path cs" "comps_ok cs" using Cons.prems(3) [of f] by auto
  note step = write_file_ok [OF root cs(2) Cons.prems(1) a [unfolded cs(1)]]
  have "added_inv w st' \<and> (\<forall>f. f \<in> set fls \<or> gm_has (addedPaths st1) f \<longrightarrow> gm_has (addedPaths st') f)"
    by (rule Cons.IH [OF _ r]) (use step Cons.prems(3) in auto)
  with step cs(1) show ?case by auto
qed simp

text \<open>C10. A layer's tar stream is well ordered: every file the snapshot adds (sockets apart) has an
  entry, an entry for each of its parent directories up to the root comes before it, and every hard
  link refers back to an earlier entry that is not itself a hard link.\<close>

theorem layer_tar_well_ordered:
  assumes "RootDir (conf w) = abs_path rs" and "comps_ok rs"
    and "\<And>f. f \<in> set fls \<union> set whiteouts \<Longrightarrow> \<exists>cs. f = abs_path cs \<and> comps_ok cs"
    and "tar_of w fls whiteouts = Inr es"
  shows "links_back es \<and> (\<forall>f \<in> set fls. is_socket w f \<or> listed w es f)"
proof -
  from assms(4) obtain st1 st2 where w1: "sfold (write_whiteout w) whiteouts new_tar_state = (Inr (), st1)"
    and w2: "sfold (write_file w) fls st1 = (Inr (), st2)" and es: "es = entries (tar st2)"
    by (auto simp: tar_of_def writeToTar_def act_Inr split: prod.splits sum.splits)
  have "added_inv w new_tar_state" by (simp add: added_inv_def new_tar_state_def)
  with w1 have inv1: "added_inv w st1"
  proof (rule sfold_invariant)
    fix x t t' assume x: "x \<in> set whiteouts" and t: "added_inv w t" "write_whiteout w x t = (Inr (), t')"
    obtain cs where "x = abs_path cs" "comps_ok cs" using assms(3) x by blast
    with t show "added_inv w t'" using write_whiteout_ok [OF assms(1,2)] by blast
  qed
  have abs: "\<And>f. f \<in> set fls \<Longrightarrow> \<exists>cs. f = abs_path cs \<and> comps_ok cs" using assms(3) by blast
  note fin = write_files_ok [OF assms(1,2) abs inv1 w2]
  then have "links_back es" by (simp add: es added_inv_def tar_inv_def)
  moreover have "is_socket w f \<or> listed w es f" if "f \<in> set fls" for f
    using fin that by (simp add: es added_inv_def)
  ultimately show ?thesis by blast
qed

theorem layer_tar_well_ordered_witness:
  "\<exists>es. tar_of (demo_world ''/'') [''/box/usr/sh''] [''/box/old''] = Inr es \<and>
     map hName es = [''/'', ''box/'', ''box/.wh.old'', ''box/usr/'', ''box/usr/sh''] \<and>
     (is_socket (demo_world ''/'') ''/box/usr/sh'' \<or> listed (demo_world ''/'') es ''/box/usr/sh'')"
proof -
  let ?w = "demo_world ''/''"
  have ok: "case tar_of ?w [''/box/usr/sh''] [''/box/old''] of Inl _ \<Rightarrow> False |
      Inr es \<Rightarrow> map hName es = [''/'', ''box/'', ''box/.wh.old'', ''box/usr/'', ''box/usr/sh'']"
    by code_simp
  then obtain es where es: "tar_of ?w [''/box/usr/sh''] [''/box/old''] = Inr es"
    and n: "map hName es = [''/'', ''box/'', ''box/.wh.old'', ''box/usr/'', ''box/usr/sh'']"
    by (auto split: sum.splits)
  have root: "RootDir (conf ?w) = abs_path []" by (simp add: demo_world_def)
  have "\<exists>cs. f = abs_path cs \<and> comps_ok cs" if "f \<in> set [''/box/usr/sh''] \<union> set [''/box/old'']" for f
    using that abs_path_def [of "[''box'', ''usr'', ''sh'']"] abs_path_def [of "[''box'', ''old'']"]
    by (auto simp: comp_ok_def intro: exI [of _ "[''box'', ''usr'', ''sh'']"] exI [of _ "[''box'', ''old'']"])
  from layer_tar_well_ordered [OF root _ this es] es n show ?thesis by auto
qed

subsection \<open>What a walk finds\<close>

definition visited :: "world \<Rightarrow> string list \<Rightarrow> string list" where
  "visited w paths = filter (\<lambda>p. \<not> IsInIgnoreList w p) paths"

text \<open>The walk changes nothing of the layered map but its cache of hashes.\<close>

definition walk_same :: "(string \<Rightarrow> string) \<Rightarrow> string list \<Rightarrow> LayeredMap \<Rightarrow> LayeredMap \<Rightarrow> bool" where
  "walk_same v ps l l' \<longleftrightarrow>
    lm_inv l' = lm_inv l \<and> lm_image l' = lm_image l \<and> lm_started l' = lm_started l \<and>
    lm_pending l' = lm_pending l \<and> lm_get l' = lm_get l \<and>
    (\<forall>p. gm_get (layerHashCache l') p = (if p \<in> set ps then Some (v p) else gm_get (layerHashCache l) p))"

lemma walk_same_refl: "walk_same v [] l l"
  by (simp add: walk_same_def)

lemma walk_same_step:
  assumes "h p = Inr (v p)" and "walk_same v ps (snd (CheckFileChange h p l)) l'"
  shows "walk_same v (p # ps) l l'"
  using assms(2) CheckFileChange_spec [where h = h, OF assms(1), of l] by (auto simp: walk_same_def)

lemma walk_paths_check:
  assumes "\<And>p. p \<in> set (visited w paths) \<Longrightarrow> h p = Inr (v p)"
  shows "\<exists>l'. walk_paths w (CheckFileChange h) paths found del l =
      ((found @ filter (\<lambda>p. lm_get l p \<noteq> Some (v p)) (visited w paths), gm_del_all del (visited w paths)), l') \<and>
    walk_same v (visited w paths) l l'"
  using assms
proof (induction paths arbitrary: found del l)
  case Nil
  then show ?case by (simp add: visited_def walk_same_refl)
next
  case (Cons p paths)
  show ?case
  proof (cases "IsInIgnoreList w p")
    case True
    then have "visited w (p # paths) = visited w paths" by (simp add: visited_def)
    with Cons True show ?thesis by simp
  next
    case False
    then have vis: "visited w (p # paths) = p # visited w paths" by (simp add: visited_def)
    then have hp: "h p = Inr (v p)" using Cons.prems by simp
    note sp = CheckFileChange_spec [where h = h, OF hp, of l]
    let ?l1 = "snd (CheckFileChange h p l)"
    let ?found = "if lm_get l p \<noteq> Some (v p) then found @ [p] else found"
    have c: "CheckFileChange h p l = (Inr (lm_get l p \<noteq> Some (v p)), ?l1)" using sp(1) by (metis prod.collapse)
    obtain l' where l': "walk_paths w (CheckFileChange h) paths ?found (gm_del del p) ?l1 =
        ((?found @ filter (\<lambda>p. lm_get ?l1 p \<noteq> Some (v p)) (visited w paths),
          gm_del_all (gm_del del p) (visited w paths)), l')"
      and same: "walk_same v (visited w paths) ?l1 l'"
      using Cons.IH [of ?found "gm_del del p" ?l1] Cons.prems vis by force
    have "walk_paths w (CheckFileChange h) (p # paths) found del l =
        walk_paths w (CheckFileChange h) paths ?found (gm_del del p) ?l1"
      using False by (subst walk_paths.simps, subst c) simp
    with l' have "walk_paths w (CheckFileChange h) (p # paths) found del l =
        ((found @ filter (\<lambda>p. lm_get l p \<noteq> Some (v p)) (visited w (p # paths)),
          gm_del_all del (visited w (p # paths))), l')"
      by (simp add: vis sp(5))
    then show ?thesis unfolding vis using walk_same_step [OF hp same] by blast
  qed
qed

lemma sfold_add_values:
  "sfold (lm_Add h) fs l = (Inr u, m) \<Longrightarrow> lm_inv l \<Longrightarrow> lm_started l \<Longrightarrow>
   f \<in> set fs \<Longrightarrow> \<exists>v. lm_value h l f = Inr v"
proof (induction fs arbitrary: l)
  case (Cons g fs)
  from Cons.prems(1) obtain v l1 where a: "lm_Add h g l = (Inr v, l1)" "sfold (lm_Add h) fs l1 = (Inr u, m)"
    by (auto split: prod.splits sum.splits)
  then obtain x where x: "lm_value h l g = Inr x"
    using lm_Add_error(1) [OF Cons.prems(2), of h g] by (cases "lm_value h l g") auto
  note ok = lm_Add_ok [OF Cons.prems(2,3) x, unfolded a fst_conv snd_conv]
  have "lm_value h l1 f = lm_value h l f" using ok(6) by (simp add: lm_value_def)
  then show ?case using Cons.IH [OF a(2) ok(2,3)] Cons.prems(4) x by auto
qed simp

text \<open>A walk from the root meets every entry that no ignored directory hides.\<close>

lemma locate_root: "fs_wf fs \<Longrightarrow> locate fs follow ''/'' = Inr []"
  using fs_wfD(2) [of fs] by (simp add: locate_def resolve.simps)

lemma godirwalk_root:
  assumes wf: "fs_wf (files w)"
  shows "p \<in> set (godirwalk w skip ''/'') \<longleftrightarrow>
    (\<exists>cs. p = abs_path cs \<and> visible (files w) (\<lambda>q. skip (abs_path q)) [] cs)"
proof -
  have root: "is_dir_node (lookup (files w) [])" using fs_wfD(2) [OF wf] .
  then have ex: "lookup (files w) [] \<noteq> None" using is_dir_node_Some by blast
  have "abs_comps ''/'' = []" using abs_comps_abs_path [of "[]"] by simp
  then have "godirwalk w skip ''/'' = map abs_path (walk (files w) (\<lambda>q. skip (abs_path q)) [])"
    using root by (simp add: godirwalk_def locate_root [OF wf])
  then show ?thesis using walk_set [OF wf ex] by auto
qed

lemma EvalSymlinks_existing:
  "fs_wf fs \<Longrightarrow> lookup fs cs = Some n \<Longrightarrow> \<not> is_symlink n \<Longrightarrow> EvalSymlinks fs (abs_path cs) = Inr (abs_path cs)"
  using is_symlink_target [of fs cs n] by (simp add: EvalSymlinks_def resolve_existing_abs)

lemma EvalSymlinks_exists:
  "fs_wf fs \<Longrightarrow> EvalSymlinks fs p = Inr q \<Longrightarrow> \<exists>cs. q = abs_path cs \<and> lookup fs cs \<noteq> None"
  by (auto simp: EvalSymlinks_def split: sum.splits errno.splits option.splits)

lemma first_link_existing: "fs_wf fs \<Longrightarrow> lookup fs cs = Some n \<Longrightarrow> first_link fs [] cs = cs"
proof (cases cs rule: rev_cases)
  case (snoc ds c)
  assume wf: "fs_wf fs" and n: "lookup fs cs = Some n"
  have free: "link_free fs ds"
    using existing_parent_dir(2) [OF wf n] snoc by (auto simp: link_free_def strict_prefix_def prefix_def)
  show ?thesis
  proof (cases "link_free fs (ds @ [c])")
    case True
    then show ?thesis using snoc first_link_free [of fs "[]" cs] by simp
  next
    case False
    then show ?thesis using snoc free first_link_at [of fs "[]" ds c "[]"] by simp
  qed
qed simp

lemma ancestor_loop_existing:
  assumes wf: "fs_wf (files w)"
  shows "lookup (files w) cs = Some n \<Longrightarrow> length cs < k \<Longrightarrow> \<exists>q. ancestor_loop k w (abs_path cs) lst = Inr q"
proof (induction k arbitrary: cs n lst)
  case (Suc k)
  show ?case
  proof (cases "is_symlink n")
    case True
    then have "cs \<noteq> []" using fs_wfD(2) [OF wf] Suc.prems(1) by (auto simp: is_dir_node_def is_symlink_def)
    then obtain ds c where cs: "cs = ds @ [c]" by (meson rev_exhaust)
    obtain m where m: "lookup (files w) ds = Some m"
      using existing_parent_dir(1) [OF wf Suc.prems(1), of ds] is_dir_node_Some cs by (auto simp: strict_prefix_def)
    have "dir (abs_path cs) = abs_path ds" using cs fs_wf_entry(1) [OF wf Suc.prems(1)] dir_abs_path by blast
    with Suc.IH [OF m] cs Suc.prems(2) True lstat_existing [OF wf Suc.prems(1)] show ?thesis by simp
  next
    case False
    then show ?thesis
      using lstat_existing [OF wf Suc.prems(1)] EvalSymlinks_existing [OF wf Suc.prems(1)] by simp
  qed
qed simp

lemma resolveSymlinkAncestor_existing:
  assumes wf: "fs_wf (files w)" and root: "RootDir (conf w) = ''/''" and n: "lookup (files w) cs = Some n"
  shows "resolveSymlinkAncestor w (abs_path cs) = Inr (abs_path cs)"
proof -
  have ok: "comps_ok cs" using fs_wf_entry(1) [OF wf n] .
  let ?k = "Suc (length (abs_path cs))"
  obtain q where q: "ancestor_loop ?k w (abs_path cs) [] = Inr q"
    using ancestor_loop_existing [OF wf n, of ?k "[]"] length_abs_path [OF ok] by auto
  moreover have "q = abs_path cs"
    using ancestor_loop_first_link [OF wf root ok q] first_link_existing [OF wf n] by (simp add: up_inv_def)
  ultimately show ?thesis using ok root by (simp add: resolveSymlinkAncestor_def del: ancestor_loop.simps)
qed

subsection \<open>A full scan records the visible file system\<close>

text \<open>Ignore-list entries as \<open>normalizeIgnoreListEntry\<close> leaves them for absolute paths without
  wildcards.\<close>

definition ignorelist_ok :: "world \<Rightarrow> bool" where
  "ignorelist_ok w \<longleftrightarrow>
     list_all (\<lambda>e. let cs = abs_comps (Path e) in Path e = abs_path cs \<and> cs \<noteq> [] \<and> list_all literal cs) (ignorelist w)"

abbreviation scan_paths :: "world \<Rightarrow> string list" where
  "scan_paths w \<equiv> visited w (godirwalk w (skip_ignored w) ''/'')"

lemma ignored_prefix_checked:
  assumes "ignorelist_ok w" and "IsInIgnoreList w (abs_path r)" and "prefix r cs" and "comps_ok cs"
  shows "CheckIgnoreList w (abs_path cs)"
proof -
  have r: "comps_ok r" using assms(3,4) by (auto simp: prefix_def)
  obtain e where e: "e \<in> set (ignorelist w)" "\<not> PrefixMatchOnly e" "abs_path r = Path e"
    using assms(2) r by (auto simp: IsInIgnoreList_def IsInProvidedIgnoreList_def list_ex_iff)
  have "abs_comps (Path e) = r" using e(3) r by (metis abs_comps_abs_path)
  then have "r \<noteq> []" "list_all literal r" using assms(1) e(1) by (auto simp: ignorelist_ok_def list_all_iff Let_def)
  then have "hasCleanedFilepathPrefix (abs_path cs) (Path e) (PrefixMatchOnly e)"
    using hasCleanedFilepathPrefix_abs [OF r assms(4)] assms(3) e by auto
  then show ?thesis using e(1) assms(4)
    by (auto simp: CheckIgnoreList_def CheckCleanedPathAgainstIgnoreList_def
        CheckCleanedPathAgainstProvidedIgnoreList_def list_ex_iff)
qed

lemma scan_pathsI:
  assumes wf: "fs_wf (files w)" and ig: "ignorelist_ok w" and n: "lookup (files w) cs = Some n"
    and c: "\<not> CheckIgnoreList w (abs_path cs)"
  shows "abs_path cs \<in> set (scan_paths w)"
proof -
  have ok: "comps_ok cs" using fs_wf_entry(1) [OF wf n] .
  have "\<not> IsInIgnoreList w (abs_path r)" if "prefix r cs" for r
    using ignored_prefix_checked [OF ig _ that ok] c by blast
  then have "visible (files w) (\<lambda>q. skip_ignored w (abs_path q)) [] cs" "\<not> IsInIgnoreList w (abs_path cs)"
    using n by (auto simp: visible_def skip_ignored_def strict_prefix_def)
  then show ?thesis using godirwalk_root [OF wf] by (auto simp: visited_def)
qed

lemma scan_pathsD:
  assumes "fs_wf (files w)" and "p \<in> set (scan_paths w)"
  shows "\<exists>cs n. p = abs_path cs \<and> lookup (files w) cs = Some n \<and> \<not> IsInIgnoreList w p"
  using assms(2) unfolding visited_def by (auto simp: godirwalk_root [OF assms(1)] visible_def)

text \<open>What the scan of an unchanging file system may assume: hashes exist for the paths it meets, none
  of them falls under an ignore-list prefix, and no symbolic link among them fails to evaluate but for
  being dangling.\<close>

definition scannable :: "world \<Rightarrow> hasher \<Rightarrow> (string \<Rightarrow> string) \<Rightarrow> Snapshotter \<Rightarrow> bool" where
  "scannable w h v s \<longleftrightarrow>
     fs_wf (files w) \<and> RootDir (conf w) = ''/'' \<and> directory s = ''/'' \<and>
     ignorelist_ok w \<and> snap_ignorelist s = ignorelist w \<and>
     list_all (\<lambda>p. h p = Inr (v p) \<and> \<not> CheckIgnoreList w p \<and> \<not> aborts w p) (scan_paths w)"

lemma scannableD:
  assumes "scannable w h v s"
  shows "fs_wf (files w)" "RootDir (conf w) = ''/''" "directory s = ''/''" "ignorelist_ok w"
    "snap_ignorelist s = ignorelist w"
    "\<And>p. p \<in> set (scan_paths w) \<Longrightarrow> h p = Inr (v p) \<and> \<not> CheckIgnoreList w p \<and> \<not> aborts w p"
  using assms by (auto simp: scannable_def list_all_iff)

lemma scannable_layers [simp]: "scannable w h v (s\<lparr>layers := l\<rparr>) = scannable w h v s"
  by (simp add: scannable_def)

lemma resolved_exist:
  assumes sc: "scannable w h v s" and sub: "set changed \<subseteq> set (scan_paths w)"
    and r: "ResolvePaths w changed (snap_ignorelist s) = Inr out"
  shows "set changed \<subseteq> set out" and "\<And>p. p \<in> set out \<Longrightarrow> \<exists>cs n. p = abs_path cs \<and> lookup (files w) cs = Some n"
proof -
  note wf = scannableD(1) [OF sc] and root = scannableD(2) [OF sc]
  have na: "\<And>f. f \<in> set changed \<Longrightarrow> \<not> aborts w f" using sub scannableD(6) [OF sc] by blast
  have out: "set out = abs_path ` {p. prefix [] p \<and>
      (\<exists>f \<in> set changed. \<exists>q \<in> selected w (snap_ignorelist s) f. prefix p (abs_comps q))}"
    using ResolvePaths_set [of w "[]" changed "snap_ignorelist s" out] na r root by simp
  have anc: "resolveSymlinkAncestor w f = Inr f" "\<not> IsInProvidedIgnoreList f (snap_ignorelist s)"
    if f: "f \<in> set changed" for f
  proof -
    obtain cs n where "f = abs_path cs" "lookup (files w) cs = Some n" "\<not> IsInIgnoreList w f"
      using scan_pathsD [OF wf, of f] sub f by blast
    then show "resolveSymlinkAncestor w f = Inr f" "\<not> IsInProvidedIgnoreList f (snap_ignorelist s)"
      using resolveSymlinkAncestor_existing [OF wf root] scannableD(5) [OF sc] by (auto simp: IsInIgnoreList_def)
  qed
  show "set changed \<subseteq> set out"
  proof
    fix f assume f: "f \<in> set changed"
    obtain cs n where cs: "f = abs_path cs" "lookup (files w) cs = Some n" using scan_pathsD [OF wf, of f] sub f by blast
    then have "abs_comps f = cs" using fs_wf_entry(1) [OF wf cs(2)] by simp
    moreover have "f \<in> selected w (snap_ignorelist s) f" using anc [OF f] by (simp add: selected_def)
    ultimately have "\<exists>f \<in> set changed. \<exists>q \<in> selected w (snap_ignorelist s) f. prefix cs (abs_comps q)"
      using f by (intro bexI [of _ f]) auto
    then show "f \<in> set out" unfolding out cs(1) by simp
  qed
  fix p assume "p \<in> set out"
  then obtain d f q where p: "p = abs_path d" "f \<in> set changed" "q \<in> selected w (snap_ignorelist s) f" "prefix d (abs_comps q)"
    unfolding out by blast
  have "q = f \<or> EvalSymlinks (files w) f = Inr q"
    using p(3) anc [OF p(2)] root by (auto simp: selected_def evalSymlinksInRoot_def split: sum.splits if_splits)
  then obtain cs n where cs: "q = abs_path cs" "lookup (files w) cs = Some n"
    using scan_pathsD [OF wf, of f] EvalSymlinks_exists [OF wf, of f q] sub p(2) by blast
  have "abs_comps q = cs" using cs fs_wf_entry(1) [OF wf cs(2)] by simp
  then have "\<exists>m. lookup (files w) d = Some m"
    using fs_wf_prefix [OF wf cs(2), of d] p(4) cs(2) is_dir_node_Some by auto
  with p(1) show "\<exists>cs n. p = abs_path cs \<and> lookup (files w) cs = Some n" by blast
qed

text \<open>The stages of a successful scan.\<close>

lemma scan_stages:
  assumes sc: "scannable w h v s" and inv: "lm_inv (layers s)"
    and r: "scanFullFilesystem w h s = (Inr (fls, whs), s1)"
  obtains l2 out l3 where
    "walk_same v (scan_paths w) (lm_Snapshot (layers s)) l2"
    "ResolvePaths w (filter (\<lambda>p. lm_image (layers s) p \<noteq> Some (v p)) (scan_paths w)) (snap_ignorelist s) = Inr out"
    "record_layer h (filter (\<lambda>p. \<not> CheckIgnoreList w p) out)
       (gm_keys (gm_del_all (GetCurrentPaths (lm_Snapshot (layers s))) (scan_paths w))) l2 = (Inr (), l3)"
    "s1 = s\<lparr>layers := l3\<rparr>" "fls = sort (filter (\<lambda>p. \<not> CheckIgnoreList w p) out)"
    "whs = sort (removeObsoleteWhiteouts (gm_del_all (GetCurrentPaths (lm_Snapshot (layers s))) (scan_paths w)))"
proof -
  let ?l1 = "lm_Snapshot (layers s)"
  have get: "lm_get ?l1 = lm_image (layers s)" using lm_Snapshot_spec(6) [OF inv] .
  obtain l2 where wk: "WalkFS w (directory s) (GetCurrentPaths ?l1) (CheckFileChange h) ?l1 =
      ((filter (\<lambda>p. lm_image (layers s) p \<noteq> Some (v p)) (scan_paths w),
        gm_del_all (GetCurrentPaths ?l1) (scan_paths w)), l2)" and same: "walk_same v (scan_paths w) ?l1 l2"
    using walk_paths_check [of w "godirwalk w (skip_ignored w) ''/''" h v "[]" "GetCurrentPaths ?l1" ?l1]
      scannableD(3,6) [OF sc] get by (auto simp: WalkFS_def gowalkDir_def)
  show ?thesis
    using r same that by (auto simp: scanFullFilesystem_def Let_def wk split: sum.splits prod.splits)
qed

lemma scan_image:
  assumes sc: "scannable w h v s" and inv: "lm_inv (layers s)"
    and r: "scanFullFilesystem w h s = (Inr (fls, whs), s1)"
  shows "lm_inv (layers s1)"
    and "lm_image (layers s1) = (\<lambda>p. if p \<in> set (scan_paths w) then Some (v p) else None)"
    and "scannable w h v s1"
proof -
  let ?l1 = "lm_Snapshot (layers s)"
  let ?changed = "filter (\<lambda>p. lm_image (layers s) p \<noteq> Some (v p)) (scan_paths w)"
  let ?del = "gm_del_all (GetCurrentPaths ?l1) (scan_paths w)"
  obtain l2 out l3 where same: "walk_same v (scan_paths w) ?l1 l2"
    and out: "ResolvePaths w ?changed (snap_ignorelist s) = Inr out"
    and rec: "record_layer h (filter (\<lambda>p. \<not> CheckIgnoreList w p) out) (gm_keys ?del) l2 = (Inr (), l3)"
    and s1: "s1 = s\<lparr>layers := l3\<rparr>"
    by (rule scan_stages [OF assms])
  let ?add = "filter (\<lambda>p. \<not> CheckIgnoreList w p) out"
  note sn = lm_Snapshot_spec [OF inv]
  have l2: "lm_inv l2" "lm_started l2" "lm_pending l2 = {}" "lm_image l2 = lm_image (layers s)"
    and cache: "\<And>p. p \<in> set (scan_paths w) \<Longrightarrow> lm_value h l2 p = Inr (v p)"
    using same sn by (auto simp: walk_same_def lm_value_def)
  have sub: "set ?add \<subseteq> set (scan_paths w)"
    using resolved_exist(2) [OF sc _ out] scan_pathsI [OF scannableD(1,4) [OF sc]] by fastforce
  have cov: "p \<in> set ?add" if "p \<in> set (scan_paths w)" "lm_image (layers s) p \<noteq> Some (v p)" for p
    using that resolved_exist(1) [OF sc _ out] scannableD(6) [OF sc that(1)] by auto
  from rec obtain lm where a: "sfold (lm_Add h) ?add l2 = (Inr (), lm)" and d: "sfold AddDelete (gm_keys ?del) lm = (Inr (), l3)"
    by (auto simp: record_layer_def act_Inr)
  have vals: "\<And>f. f \<in> set ?add \<Longrightarrow> lm_value h l2 f = Inr (v f)" using sub cache by blast
  have lm: "lm_inv lm" "lm_started lm" "lm_image lm = (\<lambda>p. if p \<in> set ?add then Some (v p) else lm_image (layers s) p)"
    using lmap.add_all [of l2 ?add h v, OF l2(1,2,3) vals] a l2(4) by (simp_all add: fun_eq_iff)
  have l3: "lm_inv l3" "lm_image l3 = (\<lambda>p. if p \<in> set (gm_keys ?del) then None else lm_image lm p)"
    using lmap.del_all [OF lm(1,2), of "gm_keys ?del"] d by simp_all
  have del: "p \<in> set (gm_keys ?del) \<longleftrightarrow> p \<notin> set (scan_paths w) \<and> lm_image (layers s) p \<noteq> None" for p
    using GetCurrentPaths_iff [OF sn(1), of p] sn(2) by (auto simp: gm_keys_iff gm_has_def)
  show "lm_inv (layers s1)" using l3(1) s1 by simp
  show "lm_image (layers s1) = (\<lambda>p. if p \<in> set (scan_paths w) then Some (v p) else None)"
  proof
    fix p show "lm_image (layers s1) p = (if p \<in> set (scan_paths w) then Some (v p) else None)"
      using del [of p] sub cov [of p] by (cases "p \<in> set ?add") (auto simp: s1 l3(2) lm(3))
  qed
  show "scannable w h v s1" using sc s1 by simp
qed

text \<open>C2. A successful full scan of a file system that does not change meanwhile leaves the layered map
  with exactly the visible file system: the image records, for every path the walk meets outside the
  ignore list, the hash of that path, and nothing else. Files that disappeared since the last snapshot
  are therefore recorded as deleted, new and changed ones as added.\<close>

theorem scan_records_filesystem:
  assumes "scannable w h v s" and "lm_inv (layers s)"
    and "scanFullFilesystem w h s = (Inr (fls, whs), s1)"
  shows "lm_inv (layers s1) \<and>
    lm_image (layers s1) = (\<lambda>p. if p \<in> set (visited w (godirwalk w (skip_ignored w) ''/'')) then Some (v p) else None)"
  using scan_image [OF assms] by blast

definition demo_hash :: hasher where
  "demo_hash = CacheHasher (\<lambda>s. s) demo_fs"

definition demo_value :: "string \<Rightarrow> string" where
  "demo_value p = (case demo_hash p of Inr x \<Rightarrow> x | Inl _ \<Rightarrow> [])"

definition demo_snapshotter :: Snapshotter where
  "demo_snapshotter = NewSnapshotter (demo_world ''/'') NewLayeredMap ''/''"

definition demo_scanned :: Snapshotter where
  "demo_scanned = snd (scanFullFilesystem (demo_world ''/'') demo_hash demo_snapshotter)"

lemma demo_scannable: "scannable (demo_world ''/'') demo_hash demo_value demo_snapshotter"
  by code_simp

lemma demo_scan:
  "scanFullFilesystem (demo_world ''/'') demo_hash demo_snapshotter =
     (Inr ([''/'', ''/box'', ''/box/bin'', ''/box/usr'', ''/box/usr/sh''], []), demo_scanned)"
proof -
  have "fst (scanFullFilesystem (demo_world ''/'') demo_hash demo_snapshotter) =
      Inr ([''/'', ''/box'', ''/box/bin'', ''/box/usr'', ''/box/usr/sh''], [])"
    by code_simp
  then show ?thesis by (simp add: prod_eq_iff demo_scanned_def)
qed

theorem scan_records_filesystem_witness:
  "lm_image (layers demo_scanned) ''/box/usr/sh'' = Some ''-rwxr-xr-x0,0x'' \<and> lm_image (layers demo_scanned) ''/etc'' = None"
proof -
  have "lm_inv (layers demo_snapshotter)" by (simp add: demo_snapshotter_def NewSnapshotter_def)
  then have i: "lm_image (layers demo_scanned) = (\<lambda>p. if p \<in> set (scan_paths (demo_world ''/''))
      then Some (demo_value p) else None)"
    using scan_records_filesystem [OF demo_scannable _ demo_scan] by blast
  have "''/box/usr/sh'' \<in> set (scan_paths (demo_world ''/''))" "''/etc'' \<notin> set (scan_paths (demo_world ''/''))"
    "demo_value ''/box/usr/sh'' = ''-rwxr-xr-x0,0x''"
    by code_simp+
  then show ?thesis by (simp add: i)
qed

text \<open>C12. Snapshots are idempotent: scanning the same file system again after a successful full scan
  finds nothing to add and nothing to white out, so a command that changes no file gives an empty
  layer.\<close>

theorem scan_idempotent:
  assumes "scannable w h v s" and "lm_inv (layers s)"
    and "scanFullFilesystem w h s = (Inr (fls, whs), s1)"
  shows "fst (scanFullFilesystem w h s1) = Inr ([], [])"
proof -
  let ?l1 = "lm_Snapshot (layers s1)"
  note im = scan_image [OF assms]
  note sc = scannableD [OF im(3)]
  have get: "lm_get ?l1 = lm_image (layers s1)" and sn: "lm_inv ?l1" "lm_image ?l1 = lm_image (layers s1)"
    using lm_Snapshot_spec [OF im(1)] by simp_all
  obtain l2 where wk: "WalkFS w (directory s1) (GetCurrentPaths ?l1) (CheckFileChange h) ?l1 =
      (([], gm_del_all (GetCurrentPaths ?l1) (scan_paths w)), l2)"
    using walk_paths_check [of w "godirwalk w (skip_ignored w) ''/''" h v "[]" "GetCurrentPaths ?l1" ?l1]
      sc(3,6) by (auto simp: WalkFS_def gowalkDir_def get im(2))
  have "\<not> gm_has (gm_del_all (GetCurrentPaths ?l1) (scan_paths w)) p" for p
    using GetCurrentPaths_iff [OF sn(1), of p] by (auto simp: gm_has_def sn(2) im(2) split: if_splits)
  then have none: "gm_del_all (GetCurrentPaths ?l1) (scan_paths w) = []"
    using gm_keys_iff [of _ "gm_del_all (GetCurrentPaths ?l1) (scan_paths w)"]
    by (cases "gm_del_all (GetCurrentPaths ?l1) (scan_paths w)") (auto simp: gm_keys_def)
  have "is_ok (os_Stat (files w) ''/'')"
    using locate_root [OF sc(1), of True] fs_wfD(2) [OF sc(1)]
    by (auto simp: os_Stat_def stat_gen_def is_dir_node_def split: option.splits)
  then show ?thesis using sc(3)
    by (auto simp: scanFullFilesystem_def Let_def wk [unfolded sc(3)] none ResolvePaths_def filesWithParentDirs_def is_ok_iff
        record_layer_def act_defs gm_keys_def removeObsoleteWhiteouts_def)
qed

theorem scan_idempotent_witness:
  "fst (scanFullFilesystem (demo_world ''/'') demo_hash demo_scanned) = Inr ([], [])"
proof -
  have "lm_inv (layers demo_snapshotter)" by (simp add: demo_snapshotter_def NewSnapshotter_def)
  then show ?thesis using scan_idempotent [OF demo_scannable _ demo_scan] by blast
qed

end
