(* ===== verification/Fs_Ops.thy ===== *)
theory Fs_Ops
  imports Snapshot
begin

text \<open>
  The operations of \<open>pkg/util/fs_util.go\<close> that change the file system: creating and copying files with
  their ownership, unpacking image layers, deleting the file system between stages. Code outside the
  repository is an argument: the \<open>.dockerignore\<close> matcher (a field of the file context), the recursive
  copy of \<open>otiai10/copy\<close> and the HTTP client.
\<close>

subsection \<open>Small helpers\<close>

definition FilepathExists :: "filesys \<Rightarrow> string \<Rightarrow> bool" where
  "FilepathExists fs path =
     (case os_Lstat fs path of Inl e \<Rightarrow> \<not> is_not_exist e | Inr _ \<Rightarrow> True)"

definition isExist :: "filesys \<Rightarrow> string \<Rightarrow> bool" where
  "isExist fs path = is_ok (os_Stat fs path)"

definition nil_deref :: err where
  "nil_deref = Panic ''invalid memory address or nil pointer dereference''"

text \<open>\<open>filepath.Abs\<close> in the working directory \<open>/\<close>.\<close>

definition filepath_Abs :: "string \<Rightarrow> string" where
  "filepath_Abs p = (if is_abs p then clean p else join_path [''/'', p])"

definition max_uint32 :: int where
  "max_uint32 = 4294967295"

definition to_uint32 :: "int \<Rightarrow> int" where
  "to_uint32 i = i mod 4294967296"

definition chownTolerant :: "string \<Rightarrow> int \<Rightarrow> int \<Rightarrow> (world, unit) act" where
  "chownTolerant path uid gid w =
     (case on_files (os_Chown path uid gid) w of
        (Inr u, w1) \<Rightarrow> (Inr u, w1)
      | (Inl e, w1) \<Rightarrow>
          if \<not> SandboxUserns (conf w) then (Inl e, w1)
          else if e \<noteq> Sys EINVAL then (Inl e, w1)
          else (Inr (), w1))"

definition setFilePermissions :: "string \<Rightarrow> nat \<Rightarrow> int \<Rightarrow> int \<Rightarrow> (world, unit) act" where
  "setFilePermissions path mode uid gid =
     sthen (chownTolerant path uid gid) (on_files (os_Chmod path mode))"

text \<open>Times count from the epoch; \<open>None\<close> is Go's zero time.\<close>

definition setFileTimes :: "string \<Rightarrow> int option \<Rightarrow> (world, unit) act" where
  "setFileTimes path mTime =
     swrap ''couldn't modify times'' (on_files (os_Chtimes path (case mTime of None \<Rightarrow> 0 | Some t \<Rightarrow> t)))"

definition resetFileOwnershipIfNotMatching :: "string \<Rightarrow> nat \<Rightarrow> nat \<Rightarrow> (world, unit) act" where
  "resetFileOwnershipIfNotMatching path newUID newGID =
     sbind (swrap ''getting stat of present file'' (sreads (\<lambda>w. os_Lstat (files w) path))) (\<lambda>stat.
       if iuid stat \<noteq> newUID \<and> igid stat \<noteq> newGID
       then swrap ''reseting file ownership to root'' (chownTolerant path (int newUID) (int newGID))
       else sret ())"

fun dir_chain :: "nat \<Rightarrow> string \<Rightarrow> string list" where
  "dir_chain 0 d = [d]"
| "dir_chain (Suc n) d = d # (if d = ''/'' \<or> d = ''.'' \<or> d = [] then [] else dir_chain n (dir d))"

definition new_parent :: "int \<Rightarrow> int \<Rightarrow> string \<Rightarrow> (world, unit) act" where
  "new_parent uid gid d =
     sthen (signore (on_files (os_Mkdir d 493)))
       (if uid \<noteq> -1
        then (if gid \<noteq> -1 then signore (on_files (os_Chown d uid gid))
              else sfail (Msg (''UID is set but GID=-1 for '' @ d)))
        else (if gid \<noteq> -1 then sfail (Msg (''GID is set but UID=-1 for '' @ d)) else sret ()))"

definition make_parent :: "int \<Rightarrow> int \<Rightarrow> string \<Rightarrow> (world, unit) act" where
  "make_parent uid gid d =
     sbind (sgets (\<lambda>w. os_Lstat (files w) d)) (\<lambda>st.
       case st of
         Inr _ \<Rightarrow> sret ()
       | Inl e \<Rightarrow> if is_not_exist e then new_parent uid gid d else sfail e)"

definition createParentDirectory :: "string \<Rightarrow> int \<Rightarrow> int \<Rightarrow> (world, unit) act" where
  "createParentDirectory path uid gid w =
     (let baseDir = dir path in
      case os_Lstat (files w) baseDir of
        Inl e \<Rightarrow>
          if is_not_exist e then sfold (make_parent uid gid) (rev (dir_chain (length baseDir) baseDir)) w
          else (Inl nil_deref, w)
      | Inr info \<Rightarrow>
          if is_symlink info then (Inl (Msg ''destination cannot be a symlink''), w) else (Inr (), w))"

definition CreateFile :: "string \<Rightarrow> string \<Rightarrow> nat \<Rightarrow> int \<Rightarrow> int \<Rightarrow> (world, unit) act" where
  "CreateFile path content perm uid gid =
     sthen (swrap ''creating parent dir'' (createParentDirectory path uid gid))
    (sthen (sbind (sgets (\<lambda>w. FilepathExists (files w) path)) (\<lambda>exists.
              if exists then swrap ''reseting file ownership'' (resetFileOwnershipIfNotMatching path 0 0)
              else sret ()))
    (sthen (swrap ''creating file'' (on_files (os_Create path content)))
           (setFilePermissions path perm uid gid)))"

definition MkdirAllWithPermissions :: "string \<Rightarrow> nat \<Rightarrow> int \<Rightarrow> int \<Rightarrow> (world, unit) act" where
  "MkdirAllWithPermissions path mode uid gid =
     sbind (sgets (\<lambda>w. os_Stat (files w) path)) (\<lambda>st.
       sthen (case st of
                Inr info \<Rightarrow>
                  if \<not> is_dir info
                  then swrap (''error removing '' @ path @ '' to make way for new directory.'') (on_files (os_Remove path))
                  else sret ()
              | Inl e \<Rightarrow>
                  if \<not> is_not_exist e then sfail (Wrap (''error calling stat on '' @ path) e) else sret ())
      (sthen (on_files (os_MkdirAll path mode))
      (sthen (if uid > max_uint32 \<or> gid > max_uint32
              then sfail (Msg ''Numeric User-ID or Group-ID greater than 4294967295 are not properly supported.'')
              else sret ())
      (sthen (chownTolerant path uid gid)
             (on_files (os_Chmod path mode))))))"

definition DetermineTargetFileOwnership :: "inode \<Rightarrow> int \<Rightarrow> int \<Rightarrow> int \<times> int" where
  "DetermineTargetFileOwnership fi uid gid =
     (if uid \<le> -1 then int (iuid fi) else uid, if gid \<le> -1 then int (igid fi) else gid)"

subsection \<open>File contexts\<close>

record FileContext =
  Root :: string
  ExcludedFiles :: "string list"
  Matches :: "string \<Rightarrow> string list \<Rightarrow> bool res"

definition ExcludesFile :: "FileContext \<Rightarrow> string \<Rightarrow> bool" where
  "ExcludesFile c path =
     (case (if HasFilepathPrefix path (Root c) False then rel (Root c) path else Inr path) of
        Inl _ \<Rightarrow> False
      | Inr p \<Rightarrow> (case Matches c p (ExcludedFiles c) of Inl _ \<Rightarrow> False | Inr m \<Rightarrow> m))"

text \<open>\<open>dockerignore.ReadAll\<close> parses the ignore file.\<close>

definition getExcludedFiles :: "(string \<Rightarrow> string list res) \<Rightarrow> world \<Rightarrow> string \<Rightarrow> string \<Rightarrow> string list res" where
  "getExcludedFiles read_all w dockerfilePath buildcontext =
     (let path = dockerfilePath @ ''.dockerignore'';
          path = (if \<not> FilepathExists (files w) path then join_path [buildcontext, ''.dockerignore''] else path)
      in if \<not> FilepathExists (files w) path then Inr []
         else rbind (wrap ''parsing .dockerignore'' (os_ReadFile (files w) path)) read_all)"

definition NewFileContextFromDockerfile :: "(string \<Rightarrow> string list res) \<Rightarrow>
    (string \<Rightarrow> string list \<Rightarrow> bool res) \<Rightarrow> world \<Rightarrow> string \<Rightarrow> string \<Rightarrow> FileContext res" where
  "NewFileContextFromDockerfile read_all matches w dockerfilePath buildcontext =
     rbind (getExcludedFiles read_all w dockerfilePath buildcontext) (\<lambda>excluded.
       Inr \<lparr>Root = buildcontext, ExcludedFiles = excluded, Matches = matches\<rparr>)"

subsection \<open>Walking with a callback that changes the file system\<close>

text \<open>\<open>filepath.Walk\<close>: the names of a directory are read before its callback, children are visited in
  the order of their names, and \<open>SkipDir\<close> from a file skips the rest of its directory. The fuel
  bounds the depth.\<close>

datatype walk_ctl = Continue | SkipDir

type_synonym walk_fn = "string \<Rightarrow> inode res \<Rightarrow> (world, walk_ctl) act"

definition readDirNames :: "filesys \<Rightarrow> string \<Rightarrow> string list" where
  "readDirNames fs path =
     (case locate fs True path of Inl _ \<Rightarrow> [] | Inr q \<Rightarrow> sort (map last (children fs q)))"

fun walk_children :: "(string \<Rightarrow> inode \<Rightarrow> (world, walk_ctl) act) \<Rightarrow> walk_fn \<Rightarrow> string \<Rightarrow> string list \<Rightarrow>
    (world, walk_ctl) act" where
  "walk_children sub fn path [] = sret Continue"
| "walk_children sub fn path (name # names) =
     sbind (sgets (\<lambda>w. os_Lstat (files w) (join_path [path, name]))) (\<lambda>st.
       case st of
         Inl e \<Rightarrow> sthen (fn (join_path [path, name]) (Inl e)) (walk_children sub fn path names)
       | Inr fi \<Rightarrow>
           sbind (sub (join_path [path, name]) fi) (\<lambda>c.
             if c = SkipDir \<and> \<not> is_dir fi then sret SkipDir else walk_children sub fn path names))"

fun walk_node :: "nat \<Rightarrow> walk_fn \<Rightarrow> string \<Rightarrow> inode \<Rightarrow> (world, walk_ctl) act" where
  "walk_node 0 fn path info = fn path (Inr info)"
| "walk_node (Suc n) fn path info =
     (if \<not> is_dir info then fn path (Inr info)
      else sbind (sgets (\<lambda>w. readDirNames (files w) path)) (\<lambda>names.
             sbind (fn path (Inr info)) (\<lambda>c.
               if c = SkipDir then sret SkipDir else walk_children (walk_node n fn) fn path names)))"

definition filepath_Walk :: "string \<Rightarrow> walk_fn \<Rightarrow> (world, unit) act" where
  "filepath_Walk root fn =
     sbind (sgets (\<lambda>w. (os_Lstat (files w) root, Suc (depth (files w))))) (\<lambda>(st, n).
       sthen (case st of Inl e \<Rightarrow> fn root (Inl e) | Inr info \<Rightarrow> walk_node n fn root info) (sret ()))"

definition delete_step :: "string \<Rightarrow> inode res \<Rightarrow> (world, walk_ctl) act" where
  "delete_step path info w =
     (case info of
        Inl _ \<Rightarrow> (Inr Continue, w)
      | Inr info \<Rightarrow>
          if CheckCleanedPathAgainstIgnoreList w path then
            (if \<not> isExist (files w) path then (Inr Continue, w)
             else if is_dir info then (Inr SkipDir, w)
             else (Inr Continue, w))
          else if childDirInIgnoreList w path then (Inr Continue, w)
          else if path = RootDir (conf w) then (Inr Continue, w)
          else sthen (on_files (os_RemoveAll path)) (sret Continue) w)"

definition DeleteFilesystem :: "(world, unit) act" where
  "DeleteFilesystem w = filepath_Walk (RootDir (conf w)) delete_step w"

text \<open>The walk of \<open>RelativeFiles\<close> only reads: its result are the names relative to \<open>root\<close>.\<close>

fun list_children :: "nat \<Rightarrow> filesys \<Rightarrow> string \<Rightarrow> string list res" where
  "list_children 0 fs path = Inr [path]"
| "list_children (Suc n) fs path =
     rbind (os_Lstat fs path) (\<lambda>info.
       if \<not> is_dir info then Inr [path]
       else rbind (rmap (\<lambda>name. list_children n fs (join_path [path, name])) (readDirNames fs path)) (\<lambda>ls.
         Inr (path # concat ls)))"

definition RelativeFiles :: "world \<Rightarrow> string \<Rightarrow> string \<Rightarrow> string list res" where
  "RelativeFiles w fp root =
     (let fullPath = join_path [root, fp]; cleanedRoot = clean root in
      rbind (list_children (Suc (depth (files w))) (files w) fullPath) (\<lambda>paths.
        rmap (rel root)
          (filter (\<lambda>path. \<not> (CheckCleanedPathAgainstIgnoreList w path \<and>
                           \<not> hasCleanedFilepathPrefix (clean path) cleanedRoot False)) paths)))"

subsection \<open>Copying\<close>

definition CopySymlink :: "string \<Rightarrow> string \<Rightarrow> FileContext \<Rightarrow> (world, bool) act" where
  "CopySymlink src dest context =
     (if ExcludesFile context src then sret True
      else
        sthen (sbind (sgets (\<lambda>w. FilepathExists (files w) dest)) (\<lambda>exists.
                 if exists then on_files (os_RemoveAll dest) else sret ()))
       (sthen (createParentDirectory dest (-1) (-1))
       (sbind (sgets (\<lambda>w. case os_Readlink (files w) src of Inl _ \<Rightarrow> [] | Inr l \<Rightarrow> l)) (\<lambda>link.
          sthen (on_files (os_Symlink link dest)) (sret False)))))"

definition CopyFile :: "string \<Rightarrow> string \<Rightarrow> FileContext \<Rightarrow> int \<Rightarrow> int \<Rightarrow> nat \<Rightarrow> bool \<Rightarrow> (world, bool) act" where
  "CopyFile src dest context uid gid chmod useDefaultChmod =
     (if ExcludesFile context src then sret True
      else if src = dest then sret False
      else
        sbind (sreads (\<lambda>w. os_Stat (files w) src)) (\<lambda>fi.
        sbind (sreads (\<lambda>w. os_ReadFile (files w) src)) (\<lambda>content.
          let (u, g) = DetermineTargetFileOwnership fi uid gid;
              mode = (if useDefaultChmod then imode fi else chmod)
          in sthen (CreateFile dest content mode (to_uint32 u) (to_uint32 g)) (sret False))))"

definition copy_one :: "string \<Rightarrow> string \<Rightarrow> FileContext \<Rightarrow> int \<Rightarrow> int \<Rightarrow> nat \<Rightarrow> bool \<Rightarrow> string \<Rightarrow>
    (world, string list) act" where
  "copy_one src dest context uid gid chmod useDefaultChmod file =
     (let fullPath = join_path [src, file]; destPath = join_path [dest, file] in
      if ExcludesFile context fullPath then sret []
      else sbind (swrap ''copying dir'' (sreads (\<lambda>w. os_Lstat (files w) fullPath))) (\<lambda>fi.
        sthen
          (if is_dir fi then
             (let (u, g) = DetermineTargetFileOwnership fi uid gid
              in MkdirAllWithPermissions destPath (if useDefaultChmod then imode fi else chmod) u g)
           else if is_symlink fi then sthen (CopySymlink fullPath destPath context) (sret ())
           else sthen (CopyFile fullPath destPath context uid gid
                         (if useDefaultChmod then 384 else chmod) useDefaultChmod) (sret ()))
          (sret [destPath])))"

definition CopyDir :: "string \<Rightarrow> string \<Rightarrow> FileContext \<Rightarrow> int \<Rightarrow> int \<Rightarrow> nat \<Rightarrow> bool \<Rightarrow>
    (world, string list) act" where
  "CopyDir src dest context uid gid chmod useDefaultChmod =
     sbind (swrap ''copying dir'' (sreads (\<lambda>w. RelativeFiles w [] src))) (\<lambda>fls.
     sbind (smap (copy_one src dest context uid gid chmod useDefaultChmod) fls) (\<lambda>copied.
       sret (concat copied)))"

definition CopyOwnership :: "string \<Rightarrow> string \<Rightarrow> string \<Rightarrow> (world, unit) act" where
  "CopyOwnership src destDir root =
     filepath_Walk src (\<lambda>path info w.
       case info of
         Inl e \<Rightarrow> (Inl e, w)
       | Inr info \<Rightarrow>
           if is_symlink info then (Inr Continue, w)
           else case rel root path of
             Inl e \<Rightarrow> (Inl e, w)
           | Inr relPath \<Rightarrow>
               let destPath = join_path [destDir, relPath] in
               if CheckCleanedPathAgainstIgnoreList w src \<and> CheckCleanedPathAgainstIgnoreList w destPath then
                 (if \<not> isExist (files w) destPath then (Inr Continue, w)
                  else if is_dir info then (Inr SkipDir, w) else (Inr Continue, w))
               else if CheckIgnoreList w destDir \<and> CheckCleanedPathAgainstIgnoreList w path then
                 (if \<not> isExist (files w) path then (Inr Continue, w)
                  else if is_dir info then (Inr SkipDir, w) else (Inr Continue, w))
               else (case os_Stat (files w) path of
                       Inl e \<Rightarrow> (Inl (Wrap ''reading ownership'' e), w)
                     | Inr st \<Rightarrow> sthen (chownTolerant destPath (int (iuid st)) (int (igid st))) (sret Continue) w))"

text \<open>\<open>cpy\<close> stands for \<open>otiai10Cpy.Copy\<close> with the option that leaves out \<open>/kaniko\<close>.\<close>

definition CopyFileOrSymlink :: "(string \<Rightarrow> string \<Rightarrow> (filesys, unit) act) \<Rightarrow> string \<Rightarrow> string \<Rightarrow> string \<Rightarrow>
    (world, unit) act" where
  "CopyFileOrSymlink cpy src destDir root =
     (let destFile = join_path [destDir, src]; src = join_path [root, src] in
      sbind (swrap ''getting file info'' (sreads (\<lambda>w. os_Lstat (files w) src))) (\<lambda>fi.
        if is_symlink fi then
          sbind (swrap ''copying file or symlink'' (sreads (\<lambda>w. os_Readlink (files w) src))) (\<lambda>link.
          sthen (createParentDirectory destFile (-1) (-1))
                (on_files (os_Symlink link destFile)))
        else
          sthen (swrap ''copying file'' (on_files (cpy src destFile)))
         (sthen (swrap ''copying ownership'' (CopyOwnership src destDir root))
                (swrap ''copying file mode'' (on_files (os_Chmod destFile (imode fi)))))))"

subsection \<open>Unpacking\<close>

definition writeSecurityXattrToTarFile :: "string \<Rightarrow> tar_entry \<Rightarrow> (world, unit) act" where
  "writeSecurityXattrToTarFile path hdr =
     (case hCap hdr of
        None \<Rightarrow> sret ()
      | Some capability \<Rightarrow>
          swrap ''failed to write security.capability attribute''
            (on_files (\<lambda>fs. case locate fs False path of
               Inl e \<Rightarrow> (Inl e, fs)
             | Inr q \<Rightarrow> if lookup fs q = None then (Inl (Sys ENOENT), fs)
                       else (Inr (), upd_inode q (\<lambda>n. n\<lparr>icap := Some capability\<rparr>) fs))))"

definition clear_way :: "string \<Rightarrow> string \<Rightarrow> (world, unit) act" where
  "clear_way msg path =
     sbind (sgets (\<lambda>w. FilepathExists (files w) path)) (\<lambda>exists.
       if exists then swrap msg (on_files (os_RemoveAll path)) else sret ())"

definition ensure_dir :: "string \<Rightarrow> (world, unit) act" where
  "ensure_dir d =
     sbind (sgets (\<lambda>w. os_Stat (files w) d)) (\<lambda>st.
       case st of
         Inl e \<Rightarrow> if is_not_exist e then on_files (os_MkdirAll d 493) else sfail nil_deref
       | Inr fi \<Rightarrow> if \<not> is_dir fi then on_files (os_MkdirAll d 493) else sret ())"

definition extract_reg :: "string \<Rightarrow> string \<Rightarrow> tar_entry \<Rightarrow> (world, unit) act" where
  "extract_reg path content hdr =
     sthen (ensure_dir (dir path))
    (sthen (clear_way (''error removing '' @ path @ '' to make way for new file.'') path)
    (sthen (on_files (os_Create path content))
    (sthen (setFilePermissions path (hMode hdr) (int (hUid hdr)) (int (hGid hdr)))
    (sthen (writeSecurityXattrToTarFile path hdr)
           (setFileTimes path (Some (hModTime hdr)))))))"

definition extract_link :: "string \<Rightarrow> string \<Rightarrow> string \<Rightarrow> string \<Rightarrow> (world, unit) act" where
  "extract_link dest path name linkname w =
     (if CheckCleanedPathAgainstIgnoreList w (filepath_Abs linkname) then (Inr (), w)
      else
        sthen (on_files (os_MkdirAll (dir path) 493))
       (sthen (clear_way (''error removing '' @ name @ '' to make way for new link'') path)
       (sbind (sreads (\<lambda>w.
            let linkName = (if is_abs linkname then trim_prefix (clean linkname) ''/'' else linkname);
                link = clean (join_path [dest, linkName])
            in if shouldResolveInRoot w dest then resolveLeafInRoot w link else Inr link)) (\<lambda>link.
          on_files (os_Link link path)))) w)"

definition extract_symlink :: "string \<Rightarrow> string \<Rightarrow> string \<Rightarrow> (world, unit) act" where
  "extract_symlink path name linkname =
     sthen (on_files (os_MkdirAll (dir path) 493))
    (sthen (clear_way (''error removing '' @ name @ '' to make way for new symlink'') path)
           (on_files (os_Symlink linkname path)))"

definition ExtractFile :: "string \<Rightarrow> tar_entry \<Rightarrow> string \<Rightarrow> (world, unit) act" where
  "ExtractFile dest hdr cleanedName =
     sbind (sreads (\<lambda>w.
         let path = join_path [dest, cleanedName]
         in if shouldResolveInRoot w dest then resolveLeafInRoot w path else Inr path)) (\<lambda>path.
     sbind (sgets (\<lambda>w. CheckCleanedPathAgainstIgnoreList w (filepath_Abs path) \<and> \<not> checkIgnoreListRoot w dest)) (\<lambda>ignored.
       if ignored then sret ()
       else case hType hdr of
         TypeReg content \<Rightarrow> extract_reg path content hdr
       | TypeDir \<Rightarrow> MkdirAllWithPermissions path (hMode hdr) (int (hUid hdr)) (int (hGid hdr))
       | TypeLink linkname \<Rightarrow> extract_link dest path (hName hdr) linkname
       | TypeSymlink linkname \<Rightarrow> extract_symlink path (hName hdr) linkname))"

definition UnTar :: "tar_entry list \<Rightarrow> string \<Rightarrow> (world, string list) act" where
  "UnTar r dest =
     smap (\<lambda>hdr. let cleanedName = clean (hName hdr) in
             sthen (ExtractFile dest hdr cleanedName) (sret (join_path [dest, cleanedName]))) r"

text \<open>One header of a layer. A layer is the list of its headers, or the error of reading it. The result
  is the path extracted, if any.\<close>

definition extract_entry :: "(string \<Rightarrow> tar_entry \<Rightarrow> string \<Rightarrow> (world, unit) act) \<Rightarrow> bool \<Rightarrow> string \<Rightarrow>
    tar_entry \<Rightarrow> (world, string list) act" where
  "extract_entry extractFunc includeWhiteout root hdr =
     (let cleanedName = clean (hName hdr);
          path = join_path [root, cleanedName];
          bas = base path; d = dir path;
          extract = sthen (extractFunc root hdr cleanedName) (sret [join_path [root, cleanedName]])
      in if \<not> has_prefix bas whiteout_prefix then extract
         else
           sbind (swrap (''resolving whiteout path '' @ hName hdr) (sreads (\<lambda>w.
               let path = join_path [d, trim_prefix bas whiteout_prefix]
               in if shouldResolveInRoot w root then ResolvePathInRoot w path else Inr path))) (\<lambda>path.
           sbind (sgets (\<lambda>w. CheckCleanedPathAgainstIgnoreList w path \<or> childDirInIgnoreList w path)) (\<lambda>kept.
             if kept then sret []
             else sthen (swrap (''removing whiteout '' @ hName hdr) (on_files (os_RemoveAll path)))
                    (if \<not> includeWhiteout then sret [] else extract))))"

definition GetFSFromLayers :: "(string \<Rightarrow> tar_entry \<Rightarrow> string \<Rightarrow> (world, unit) act) option \<Rightarrow> bool \<Rightarrow>
    string \<Rightarrow> tar_entry list res list \<Rightarrow> (world, string list) act" where
  "GetFSFromLayers extractFunc includeWhiteout root lyrs =
     sthen (smodify (\<lambda>w. w\<lparr>volumes := []\<rparr>))
    (sthen (swrap ''initializing filesystem ignore list'' InitIgnoreList)
       (case extractFunc of
          None \<Rightarrow> sfail (Msg ''must supply an extract function'')
        | Some f \<Rightarrow>
            sbind (smap (\<lambda>layer.
              case layer of
                Inl e \<Rightarrow> sfail e
              | Inr hdrs \<Rightarrow> sbind (smap (extract_entry f includeWhiteout root) hdrs) (\<lambda>ps. sret (concat ps))) lyrs)
            (\<lambda>ps. sret (concat ps))))"

definition GetFSFromImage :: "string \<Rightarrow> tar_entry list res list res option \<Rightarrow>
    (string \<Rightarrow> tar_entry \<Rightarrow> string \<Rightarrow> (world, unit) act) \<Rightarrow> (world, string list) act" where
  "GetFSFromImage root img extract =
     (case img of
        None \<Rightarrow> sfail (Msg ''image cannot be nil'')
      | Some (Inl e) \<Rightarrow> sfail e
      | Some (Inr lyrs) \<Rightarrow> GetFSFromLayers (Some extract) False root lyrs)"

subsection \<open>Links and file information\<close>

definition ErrNotSymLink :: err where
  "ErrNotSymLink = Msg ''not a symlink''"

definition getSymlink :: "filesys \<Rightarrow> string \<Rightarrow> unit res" where
  "getSymlink fs path =
     rbind (os_Lstat fs path) (\<lambda>fi. if is_symlink fi then Inr () else Inl ErrNotSymLink)"

definition GetSymLink :: "filesys \<Rightarrow> string \<Rightarrow> string res" where
  "GetSymLink fs path = rbind (getSymlink fs path) (\<lambda>_. os_Readlink fs path)"

definition EvalSymLink :: "world \<Rightarrow> string \<Rightarrow> string res" where
  "EvalSymLink w path =
     rbind (getSymlink (files w) path) (\<lambda>_.
       if shouldResolveInRoot w path
       then rbind (ResolvePathInRoot w path) (\<lambda>resolved. rbind (os_Stat (files w) resolved) (\<lambda>_. Inr resolved))
       else EvalSymlinks (files w) path)"

text \<open>The type bits of a Go file mode.\<close>

definition mode_type :: "inode \<Rightarrow> nat" where
  "mode_type n = (case ity n of FReg _ \<Rightarrow> 0 | FDir \<Rightarrow> 1 | FLink _ \<Rightarrow> 2 | FSocket \<Rightarrow> 3)"

definition isSame :: "inode \<Rightarrow> inode \<Rightarrow> bool" where
  "isSame fi1 fi2 \<longleftrightarrow>
     mode_type fi1 = mode_type fi2 \<and> imode fi1 = imode fi2 \<and> imtime fi1 = imtime fi2 \<and> size_of fi1 = size_of fi2 \<and>
     iuid fi1 = iuid fi2 \<and> igid fi1 = igid fi2"

definition info_step :: "world \<Rightarrow> (string, inode) gomap \<Rightarrow> string \<Rightarrow>
    (string, inode) gomap \<times> string list \<Rightarrow> (string, inode) gomap \<times> string list" where
  "info_step w existing path acc =
     (case acc of (fileMap, foundPaths) \<Rightarrow>
        if CheckCleanedPathAgainstIgnoreList w path then acc
        else case os_Lstat (files w) path of
          Inl _ \<Rightarrow> acc
        | Inr fi \<Rightarrow>
            (case gm_get existing path of
               Some fiPrevious \<Rightarrow>
                 if \<not> isSame fiPrevious fi then (gm_set fileMap path fi, foundPaths @ [path]) else acc
             | None \<Rightarrow> (gm_set fileMap path fi, foundPaths @ [path])))"

definition GetFSInfoMap :: "world \<Rightarrow> string \<Rightarrow> (string, inode) gomap \<Rightarrow> (string, inode) gomap \<times> string list" where
  "GetFSInfoMap w d existing =
     fold (info_step w existing)
       (godirwalk w (\<lambda>p. CheckCleanedPathAgainstIgnoreList w p \<and> IsDestDir w p) d) ([], [])"

definition CreateTargetTarfile :: "string \<Rightarrow> (world, unit) act" where
  "CreateTargetTarfile tarpath =
     sthen (sbind (sgets (\<lambda>w. os_Lstat (files w) (dir tarpath))) (\<lambda>st.
              case st of
                Inl e \<Rightarrow> if is_not_exist e then on_files (os_MkdirAll (dir tarpath) 493) else sret ()
              | Inr _ \<Rightarrow> sret ()))
       (on_files (os_Create tarpath []))"

record http_response =
  status_code :: nat
  body :: string
  last_modified :: "int option"

definition DownloadFileToDest :: "(string \<Rightarrow> http_response res) \<Rightarrow> string \<Rightarrow> string \<Rightarrow> int \<Rightarrow> int \<Rightarrow> nat \<Rightarrow>
    (world, unit) act" where
  "DownloadFileToDest http_get rawurl dest uid gid chmod =
     (case http_get rawurl of
        Inl e \<Rightarrow> sfail e
      | Inr resp \<Rightarrow>
          if status_code resp \<ge> 400 then sfail (Msg (''invalid response status '' @ itoa (int (status_code resp))))
          else sthen (CreateFile dest (body resp) chmod (to_uint32 uid) (to_uint32 gid))
                 (on_files (os_Chtimes dest (case last_modified resp of None \<Rightarrow> 0 | Some t \<Rightarrow> t))))"

subsection \<open>Every operation keeps the file system well formed\<close>

lemma keeps_let [keeps_rules]: "keeps P (f x) \<Longrightarrow> keeps P (Let x f)"
  by simp

lemma keeps_apply: "(\<And>w. P w \<Longrightarrow> P (snd (m w))) \<Longrightarrow> keeps P m"
  by (simp add: keeps_def)

lemma keeps_chownTolerant [keeps_rules]: "keeps world_ok (chownTolerant path uid gid)"
  using keepsD [OF keeps_on_files [OF keeps_os_Chown]]
  by (auto intro!: keeps_apply simp: chownTolerant_def split: prod.splits sum.splits) (metis snd_conv)+

lemma keeps_setFilePermissions [keeps_rules]: "keeps world_ok (setFilePermissions path mode uid gid)"
  unfolding setFilePermissions_def by (intro keeps_rules)

lemma keeps_setFileTimes [keeps_rules]: "keeps world_ok (setFileTimes path t)"
  unfolding setFileTimes_def by (intro keeps_rules)

lemma keeps_reset [keeps_rules]: "keeps world_ok (resetFileOwnershipIfNotMatching path u g)"
  unfolding resetFileOwnershipIfNotMatching_def by (intro keeps_rules)

lemma keeps_make_parent [keeps_rules]: "keeps world_ok (make_parent uid gid d)"
  unfolding make_parent_def new_parent_def by (intro keeps_rules)

lemma keeps_createParentDirectory [keeps_rules]: "keeps world_ok (createParentDirectory path uid gid)"
proof -
  have "keeps world_ok (sfold (make_parent uid gid) xs)" for xs by (intro keeps_rules)
  from keepsD [OF this] show ?thesis
    by (intro keeps_apply) (auto simp: createParentDirectory_def Let_def split: sum.splits)
qed

lemma keeps_CreateFile [keeps_rules]: "keeps world_ok (CreateFile path content perm uid gid)"
  unfolding CreateFile_def by (intro keeps_rules)

lemma keeps_MkdirAllWithPermissions [keeps_rules]: "keeps world_ok (MkdirAllWithPermissions path mode uid gid)"
  unfolding MkdirAllWithPermissions_def by (intro keeps_rules)

lemma keeps_CopySymlink [keeps_rules]: "keeps world_ok (CopySymlink src dest c)"
  unfolding CopySymlink_def by (intro keeps_rules)

lemma keeps_CopyFile [keeps_rules]: "keeps world_ok (CopyFile src dest c uid gid chmod b)"
  unfolding CopyFile_def by (intro keeps_rules)

lemma keeps_CopyDir [keeps_rules]: "keeps world_ok (CopyDir src dest c uid gid chmod b)"
  unfolding CopyDir_def copy_one_def by (intro keeps_rules)

lemma keeps_xattr [keeps_rules]: "keeps world_ok (writeSecurityXattrToTarFile path hdr)"
proof -
  have "keeps fs_ok (\<lambda>fs. case locate fs False path of
      Inl e \<Rightarrow> (Inl e, fs)
    | Inr q \<Rightarrow> if lookup fs q = None then (Inl (Sys ENOENT), fs)
              else (Inr (), upd_inode q (\<lambda>n. n\<lparr>icap := c\<rparr>) fs))" for c
    by (auto simp: keeps_def split: sum.splits intro!: fs_ok_upd_inode)
  then show ?thesis unfolding writeSecurityXattrToTarFile_def by (intro keeps_rules)
qed

lemma keeps_clear_way [keeps_rules]: "keeps world_ok (clear_way msg path)"
  unfolding clear_way_def by (intro keeps_rules)

lemma keeps_ensure_dir [keeps_rules]: "keeps world_ok (ensure_dir d)"
  unfolding ensure_dir_def by (intro keeps_rules)

lemma keeps_extract_reg [keeps_rules]: "keeps world_ok (extract_reg path content hdr)"
  unfolding extract_reg_def by (intro keeps_rules)

lemma keeps_extract_link [keeps_rules]: "keeps world_ok (extract_link dest path name linkname)"
proof -
  let ?m = "sthen (on_files (os_MkdirAll (dir path) 493))
       (sthen (clear_way (''error removing '' @ name @ '' to make way for new link'') path)
       (sbind (sreads (\<lambda>w.
            let linkName = (if is_abs linkname then trim_prefix (clean linkname) ''/'' else linkname);
                link = clean (join_path [dest, linkName])
            in if shouldResolveInRoot w dest then resolveLeafInRoot w link else Inr link)) (\<lambda>link.
          on_files (os_Link link path))))"
  have "keeps world_ok ?m" by (intro keeps_rules)
  from keepsD [OF this] show ?thesis by (intro keeps_apply) (simp add: extract_link_def)
qed

lemma keeps_extract_symlink [keeps_rules]: "keeps world_ok (extract_symlink path name linkname)"
  unfolding extract_symlink_def by (intro keeps_rules)

lemma keeps_tar_type [keeps_rules]:
  "(\<And>c. keeps P (f c)) \<Longrightarrow> keeps P d \<Longrightarrow> (\<And>l. keeps P (g l)) \<Longrightarrow> (\<And>l. keeps P (s l)) \<Longrightarrow>
   keeps P (case t of TypeReg c \<Rightarrow> f c | TypeDir \<Rightarrow> d | TypeLink l \<Rightarrow> g l | TypeSymlink l \<Rightarrow> s l)"
  by (cases t) simp_all

lemma keeps_ExtractFile [keeps_rules]: "keeps world_ok (ExtractFile dest hdr cleanedName)"
  unfolding ExtractFile_def by (intro keeps_rules)

lemma keeps_UnTar [keeps_rules]: "keeps world_ok (UnTar r dest)"
  unfolding UnTar_def by (intro keeps_rules)

lemma keeps_files_same: "(\<And>w. files (snd (m w)) = files w) \<Longrightarrow> keeps world_ok m"
  by (simp add: keeps_def world_ok_def)

lemma files_add_mount_line [simp]: "files (add_mount_line l w) = files w"
  by (simp add: add_mount_line_def AddToIgnoreList_def Let_def)

lemma files_fold [simp]: "(\<And>x w. files (f x w) = files w) \<Longrightarrow> files (fold f xs w) = files w"
  by (induction xs arbitrary: w) simp_all

lemma keeps_InitIgnoreList [keeps_rules]: "keeps world_ok InitIgnoreList"
  by (rule keeps_files_same)
    (simp add: InitIgnoreList_def DetectFilesystemIgnoreList_def swrap_def Let_def split: sum.splits prod.splits)

lemma keeps_extract_entry [keeps_rules]:
  "(\<And>r h n. keeps world_ok (f r h n)) \<Longrightarrow> keeps world_ok (extract_entry f iw root hdr)"
  unfolding extract_entry_def by (intro keeps_rules)

lemma keeps_GetFSFromLayers [keeps_rules]:
  assumes "\<And>r h n. keeps world_ok (f r h n)"
  shows "keeps world_ok (GetFSFromLayers (Some f) iw root lyrs)"
proof -
  have "keeps world_ok (smodify (\<lambda>w. w\<lparr>volumes := []\<rparr>))"
    by (rule keeps_files_same) (simp add: smodify_def)
  with assms show ?thesis unfolding GetFSFromLayers_def by (simp, intro keeps_rules)
qed

lemma keeps_walk_children:
  assumes "\<And>p i. keeps P (sub p i)" and "\<And>p i. keeps P (fn p i)"
  shows "keeps P (walk_children sub fn path ns)"
  by (induction ns) (auto intro!: keeps_rules assms)

lemma keeps_walk_node: "(\<And>p i. keeps P (fn p i)) \<Longrightarrow> keeps P (walk_node n fn path info)"
proof (induction n arbitrary: path info)
  case (Suc n)
  then show ?case by (simp, intro impI conjI) (auto intro!: keeps_rules keeps_walk_children)
qed simp

lemma keeps_filepath_Walk: "(\<And>p i. keeps P (fn p i)) \<Longrightarrow> keeps P (filepath_Walk root fn)"
  unfolding filepath_Walk_def by (intro keeps_rules keeps_walk_node) auto

lemma keeps_DeleteFilesystem [keeps_rules]: "keeps world_ok DeleteFilesystem"
proof -
  have rm: "keeps world_ok (sthen (on_files (os_RemoveAll p)) (sret Continue))" for p by (intro keeps_rules)
  have "keeps world_ok (delete_step p i)" for p i
    using keepsD [OF rm] by (intro keeps_apply) (auto simp: delete_step_def split: sum.splits)
  from keepsD [OF keeps_filepath_Walk [OF this]] show ?thesis
    by (intro keeps_apply) (simp add: DeleteFilesystem_def)
qed

subsection \<open>Permissions\<close>

lemma os_Chown_cases:
  assumes "os_Chown path uid gid fs = (r, fs1)"
  shows "(\<exists>n. r = Inr () \<and> id_mapped fs uid \<and> id_mapped fs gid \<and> os_Stat fs path = Inr n \<and>
      os_Stat fs1 path = Inr (chown_inode uid gid n)) \<or>
    (\<exists>e. r = Inl e \<and> fs1 = fs \<and> (is_ok (os_Stat fs path) \<longrightarrow> \<not> (id_mapped fs uid \<and> id_mapped fs gid)))"
proof (cases r)
  case (Inl e)
  then show ?thesis using assms
    by (auto simp: os_Chown_def upd_file_def os_Stat_def stat_gen_def split: if_splits sum.splits option.splits)
next
  case (Inr u)
  then have u: "upd_file path (chown_inode uid gid) fs = (Inr u, fs1)"
    and m: "\<not> (is_ok (os_Stat fs path) \<and> \<not> (id_mapped fs uid \<and> id_mapped fs gid))"
    using assms by (auto simp: os_Chown_def split: if_splits)
  obtain n where "os_Stat fs path = Inr n" "os_Stat fs1 path = Inr (chown_inode uid gid n)"
    using upd_file_ok [OF u] by (auto simp: chown_inode_def)
  with m Inr show ?thesis by simp
qed

lemma setFilePermissions_ok:
  assumes "setFilePermissions path mode uid gid w = (Inr u, w')"
  shows "\<exists>n0 n. os_Stat (files w) path = Inr n0 \<and> os_Stat (files w') path = Inr n \<and> imode n = mode \<and>
    (id_mapped (files w) uid \<and> id_mapped (files w) gid \<longrightarrow>
      iuid n = (if uid = -1 then iuid n0 else nat uid) \<and> igid n = (if gid = -1 then igid n0 else nat gid))"
proof -
  from assms obtain v w1 where c: "chownTolerant path uid gid w = (Inr v, w1)"
    and m: "on_files (os_Chmod path mode) w1 = (Inr u, w')"
    by (auto simp: setFilePermissions_def act_Inr)
  obtain r fs1 where ch: "os_Chown path uid gid (files w) = (r, fs1)" by fastforce
  then have w1: "files w1 = fs1" using c by (auto simp: chownTolerant_def on_files_def split: sum.splits if_splits)
  from m obtain n1 where n1: "os_Stat fs1 path = Inr n1" "os_Stat (files w') path = Inr (n1\<lparr>imode := mode\<rparr>)"
    using upd_file_ok [of path "\<lambda>n. n\<lparr>imode := mode\<rparr>" "files w1" u "files w'"] w1
    by (auto simp: on_files_def os_Chmod_def split: prod.splits)
  from os_Chown_cases [OF ch] show ?thesis
  proof (elim disjE exE conjE)
    fix n assume "os_Stat (files w) path = Inr n" "os_Stat fs1 path = Inr (chown_inode uid gid n)"
    then show ?thesis using n1 by (auto simp: chown_inode_def)
  next
    fix e assume e: "fs1 = files w"
      "is_ok (os_Stat (files w) path) \<longrightarrow> \<not> (id_mapped (files w) uid \<and> id_mapped (files w) gid)"
    then have "\<not> (id_mapped (files w) uid \<and> id_mapped (files w) gid)" using n1(1) by simp
    then show ?thesis using n1 e(1) by auto
  qed
qed

subsection \<open>What deleting the file system leaves alone\<close>

definition protected :: "IgnoreListEntry list \<Rightarrow> string list \<Rightarrow> bool" where
  "protected wl cs \<longleftrightarrow> (\<exists>e \<in> set wl. \<not> PrefixMatchOnly e \<and> prefix (abs_comps (Path e)) cs)"

definition shrunk :: "filesys \<Rightarrow> filesys \<Rightarrow> bool" where
  "shrunk fs0 fs \<longleftrightarrow> (\<forall>p. lookup fs p = None \<or> lookup fs p = lookup fs0 p)"

definition del_inv :: "world \<Rightarrow> world \<Rightarrow> bool" where
  "del_inv w0 w \<longleftrightarrow> conf w = conf w0 \<and> ignorelist w = ignorelist w0 \<and> fs_ok (files w) \<and>
     shrunk (files w0) (files w) \<and>
     (\<forall>cs. protected (ignorelist w0) cs \<longrightarrow> lookup (files w) cs = lookup (files w0) cs)"

definition fs_literal :: "filesys \<Rightarrow> bool" where
  "fs_literal fs \<longleftrightarrow> list_all (list_all literal) (gm_keys (dents fs))"

lemma fs_literal_entry: "fs_literal fs \<Longrightarrow> lookup fs cs = Some n \<Longrightarrow> list_all literal cs"
  using lookup_in_keys [of fs cs n] by (auto simp: fs_literal_def list_all_iff)

text \<open>While entries only disappear, the name of a former entry leads nowhere else.\<close>

lemma shrunk_locate:
  assumes wf: "fs_wf fs0" "fs_wf fs" and sh: "shrunk fs0 fs" and n: "lookup fs0 cs = Some n"
    and leaf: "follow \<longrightarrow> \<not> is_symlink n" and loc: "locate fs follow (abs_path cs) = Inr q"
  shows "q = cs"
proof (rule locate_leaf [OF fs_wf_entry(1) [OF wf(1) n] loc wf(2)])
  fix p assume p: "prefix p cs"
  have "link_target (lookup fs p) = None" if "link_target (lookup fs0 p) = None"
    using that sh [unfolded shrunk_def, THEN spec, of p] by (auto simp: link_target_def)
  moreover have "link_target (lookup fs0 p) = None" if "p \<noteq> cs"
    using existing_parent_dir(2) [OF wf(1) n] p that by (simp add: strict_prefix_def)
  moreover have "link_target (lookup fs0 cs) = None" if follow
    using that leaf n is_symlink_target [OF n] by simp
  ultimately show "link_target (lookup fs p) = None \<or> \<not> follow \<and> p = cs" by (cases "p = cs") auto
qed

lemma shrunk_remove_tree: "shrunk fs0 fs \<Longrightarrow> shrunk fs0 (remove_tree q fs)"
  unfolding shrunk_def lookup_remove_tree by (metis (full_types))

lemma ignore_checks:
  assumes "ignorelist_ok w" and "e \<in> set (ignorelist w)" and "\<not> PrefixMatchOnly e" and "comps_ok cs"
  shows "prefix (abs_comps (Path e)) cs \<Longrightarrow> CheckCleanedPathAgainstIgnoreList w (abs_path cs)"
    and "prefix cs (abs_comps (Path e)) \<Longrightarrow> cs \<noteq> [] \<Longrightarrow> list_all literal cs \<Longrightarrow> childDirInIgnoreList w (abs_path cs)"
proof -
  let ?es = "abs_comps (Path e)"
  have e: "Path e = abs_path ?es" "?es \<noteq> []" "list_all literal ?es"
    using assms(1,2) by (auto simp: ignorelist_ok_def list_all_iff Let_def)
  show "CheckCleanedPathAgainstIgnoreList w (abs_path cs)" if "prefix ?es cs"
  proof -
    have "hasCleanedFilepathPrefix (abs_path cs) (abs_path ?es) False"
      using hasCleanedFilepathPrefix_abs [OF abs_comps_ok assms(4) e(3,2)] that by simp
    then show ?thesis using assms(2,3) e(1)
      by (auto simp: CheckCleanedPathAgainstIgnoreList_def CheckCleanedPathAgainstProvidedIgnoreList_def
          list_ex_iff intro!: bexI [of _ e])
  qed
  show "childDirInIgnoreList w (abs_path cs)" if "prefix cs ?es" "cs \<noteq> []" "list_all literal cs"
  proof -
    have "HasFilepathPrefix (abs_path ?es) (abs_path cs) False"
      using hasCleanedFilepathPrefix_abs [OF assms(4) abs_comps_ok that(3,2)] that(1) assms(4)
      by (simp add: HasFilepathPrefix_def)
    then show ?thesis using assms(2,3) e(1) by (auto simp: childDirInIgnoreList_def list_ex_iff intro!: bexI [of _ e])
  qed
qed

lemma del_inv_remove:
  assumes ok: "fs_ok (files w0)" and ig: "ignorelist_ok w0" and lit: "fs_literal (files w0)"
    and inv: "del_inv w0 w" and n: "lookup (files w0) cs = Some n" and ne: "cs \<noteq> []"
    and chk: "\<not> CheckCleanedPathAgainstIgnoreList w (abs_path cs)" "\<not> childDirInIgnoreList w (abs_path cs)"
  shows "del_inv w0 (snd (on_files (os_RemoveAll (abs_path cs)) w))"
proof -
  have wf0: "fs_wf (files w0)" and wf: "fs_wf (files w)" and okw: "fs_ok (files w)"
    using ok inv by (auto simp: del_inv_def fs_ok_def)
  have igw: "ignorelist_ok w" "ignorelist w = ignorelist w0" using ig inv by (auto simp: ignorelist_ok_def del_inv_def)
  have cs: "comps_ok cs" "list_all literal cs" using fs_wf_entry(1) [OF wf0 n] fs_literal_entry [OF lit n] by auto
  have "snd (os_RemoveAll (abs_path cs) (files w)) \<in> {files w, remove_tree cs (files w)}"
    using shrunk_locate [OF wf0 wf _ n, of False] inv ne
    by (auto simp: os_RemoveAll_def del_inv_def split: sum.splits)
  moreover have "\<not> prefix cs ds" if p: "protected (ignorelist w0) ds" for ds
  proof
    assume "prefix cs ds"
    from p obtain e where e: "e \<in> set (ignorelist w)" "\<not> PrefixMatchOnly e" "prefix (abs_comps (Path e)) ds"
      using igw(2) by (auto simp: protected_def)
    have "prefix cs (abs_comps (Path e)) \<or> prefix (abs_comps (Path e)) cs"
      using \<open>prefix cs ds\<close> e(3) prefix_same_cases by blast
    then show False using ignore_checks [OF igw(1) e(1,2) cs(1)] chk ne cs(2) by blast
  qed
  ultimately show ?thesis using inv okw fs_ok_remove_tree [OF okw ne] shrunk_remove_tree [of "files w0" "files w" cs]
    by (auto simp: on_files_def del_inv_def lookup_remove_tree split: prod.splits)
qed

lemma del_inv_step:
  assumes "fs_ok (files w0)" and "ignorelist_ok w0" and "fs_literal (files w0)"
    and root: "RootDir (conf w0) = abs_path rs" and inv: "del_inv w0 w" and n: "lookup (files w0) (rs @ cs) = Some n"
  shows "del_inv w0 (snd (delete_step (abs_path (rs @ cs)) (Inr info) w))"
proof -
  let ?p = "abs_path (rs @ cs)"
  have conf: "RootDir (conf w) = abs_path rs" using root inv by (simp add: del_inv_def)
  show ?thesis
  proof (cases "CheckCleanedPathAgainstIgnoreList w ?p \<or> childDirInIgnoreList w ?p \<or> ?p = abs_path rs")
    case True
    then have "snd (delete_step ?p (Inr info) w) = w" using conf by (auto simp: delete_step_def)
    with inv show ?thesis by simp
  next
    case False
    then have "rs @ cs \<noteq> []" by auto
    moreover have "snd (delete_step ?p (Inr info) w) = snd (on_files (os_RemoveAll ?p) w)"
      using False conf by (auto simp: delete_step_def act_defs split: prod.splits sum.splits)
    ultimately show ?thesis using del_inv_remove [OF assms(1-3) inv n] False by simp
  qed
qed

lemma del_inv_lstat:
  assumes "fs_ok (files w0)" and "del_inv w0 w" and "lookup (files w0) cs = Some n"
    and "os_Lstat (files w) (abs_path cs) = Inr fi"
  shows "lookup (files w0) cs = Some fi"
proof -
  obtain q where q: "locate (files w) False (abs_path cs) = Inr q" "lookup (files w) q = Some fi"
    using assms(4) by (auto simp: os_Lstat_def stat_gen_Inr)
  have "q = cs" using shrunk_locate [OF _ _ _ assms(3) _ q(1)] assms(1,2) by (auto simp: del_inv_def fs_ok_def)
  with q(2) assms(2) have "lookup (files w) cs = lookup (files w0) cs"
    unfolding del_inv_def shrunk_def by (metis option.distinct(1))
  with q(2) \<open>q = cs\<close> show ?thesis by simp
qed

lemma del_inv_names:
  assumes ok: "fs_ok (files w0)" and inv: "del_inv w0 w" and n: "lookup (files w0) cs = Some info" "is_dir info"
    and x: "x \<in> set (readDirNames (files w) (abs_path cs))"
  shows "comp_ok x \<and> (\<exists>m. lookup (files w0) (cs @ [x]) = Some m)"
proof -
  have wf: "fs_wf (files w)" and wf0: "fs_wf (files w0)" using ok inv by (auto simp: del_inv_def fs_ok_def)
  have nl: "\<not> is_symlink info" using n(2) by (simp add: is_dir_def is_symlink_def)
  obtain q where q: "locate (files w) True (abs_path cs) = Inr q" and c: "x \<in> last ` set (children (files w) q)"
    using x by (cases "locate (files w) True (abs_path cs)") (auto simp: readDirNames_def)
  have "q = cs" using shrunk_locate [OF wf0 wf _ n(1) _ q] inv nl by (auto simp: del_inv_def)
  then obtain ds where ds: "ds \<noteq> []" "butlast ds = cs" "lookup (files w) ds \<noteq> None" "x = last ds"
    using c children_iff [OF wf] by auto
  then have e: "ds = cs @ [x]" by (metis append_butlast_last_id)
  then have m: "lookup (files w0) (cs @ [x]) \<noteq> None"
    using ds(3) inv unfolding del_inv_def shrunk_def by (metis (full_types))
  then show ?thesis using fs_wf_entry(1) [OF wf0, of "cs @ [x]"] by auto
qed

lemma filepath_Walk_state:
  "os_Lstat (files w) root = Inr info \<Longrightarrow>
   snd (filepath_Walk root fn w) = snd (walk_node (Suc (depth (files w))) fn root info w)"
  by (auto simp: filepath_Walk_def act_defs simp del: walk_node.simps split: prod.splits sum.splits)

lemma del_inv_walk:
  assumes ok: "fs_ok (files w0)" and ig: "ignorelist_ok w0" and lit: "fs_literal (files w0)"
    and root: "RootDir (conf w0) = abs_path rs"
  shows "del_inv w0 w \<Longrightarrow> lookup (files w0) (rs @ cs) = Some info \<Longrightarrow>
    del_inv w0 (snd (walk_node n delete_step (abs_path (rs @ cs)) info w))"
proof (induction n arbitrary: cs info w)
  case 0
  then show ?case using del_inv_step [OF assms] by simp
next
  case (Suc n)
  have wf0: "fs_wf (files w0)" using ok by (simp add: fs_ok_def)
  have kids: "del_inv w0 (snd (walk_children (walk_node n delete_step) delete_step (abs_path (rs @ cs)) xs u))"
    if "del_inv w0 u" "\<forall>x \<in> set xs. comp_ok x \<and> (\<exists>m. lookup (files w0) (rs @ cs @ [x]) = Some m)" for xs u
    using that
  proof (induction xs arbitrary: u)
    case (Cons x xs)
    obtain m where m: "lookup (files w0) (rs @ cs @ [x]) = Some m" using Cons.prems(2) by auto
    have j: "join_path [abs_path (rs @ cs), x] = abs_path (rs @ cs @ [x])"
      using join_path_comp [of "rs @ cs" x] fs_wf_entry(1) [OF wf0 m] by simp
    show ?case
    proof (cases "os_Lstat (files u) (abs_path (rs @ cs @ [x]))")
      case (Inl e)
      with Cons j show ?thesis by (simp add: act_defs delete_step_def)
    next
      case (Inr fi)
      have "lookup (files w0) (rs @ cs @ [x]) = Some fi"
        using del_inv_lstat [OF ok Cons.prems(1) m] Inr by simp
      then have "del_inv w0 (snd (walk_node n delete_step (abs_path (rs @ cs @ [x])) fi u))"
        using Suc.IH [OF Cons.prems(1), of "cs @ [x]" fi] by simp
      with Cons Inr j show ?thesis by (auto simp: act_defs split: prod.splits sum.splits)
    qed
  qed (simp add: act_defs)
  note step = del_inv_step [OF assms Suc.prems]
  show ?case
  proof (cases "is_dir info")
    case True
    have "\<forall>x \<in> set (readDirNames (files w) (abs_path (rs @ cs))). comp_ok x \<and>
        (\<exists>m. lookup (files w0) (rs @ cs @ [x]) = Some m)"
      using del_inv_names [OF ok Suc.prems(1,2) True] by simp
    from kids [OF _ this] step [of info] True show ?thesis
      by (auto simp: act_defs simp del: walk_children.simps split: prod.splits sum.splits)
  qed (use step [of info] in simp)
qed

subsection \<open>Properties\<close>


definition demo_entry :: "string \<Rightarrow> tar_type \<Rightarrow> nat \<Rightarrow> tar_entry" where
  "demo_entry n t m = \<lparr>hName = n, hType = t, hMode = m, hUid = 7, hGid = 8, hModTime = 9, hCap = None\<rparr>"


text \<open>Permissions are exact: after a successful \<open>setFilePermissions\<close> the file has the requested mode
  bit for bit (a set-user-id bit included, because the mode is set after the owner), and, unless the
  user namespace does not map the ids, the requested owner and group.\<close>

theorem setFilePermissions_exact:
  assumes "setFilePermissions path mode uid gid w = (Inr u, w')"
  shows "\<exists>n. os_Stat (files w') path = Inr n \<and> imode n = mode \<and>
    (id_mapped (files w) uid \<and> id_mapped (files w) gid \<and> 0 \<le> uid \<and> 0 \<le> gid \<longrightarrow>
      int (iuid n) = uid \<and> int (igid n) = gid)"
  using setFilePermissions_ok [OF assms] by auto

theorem setFilePermissions_exact_witness:
  "\<exists>n. os_Stat (files (snd (setFilePermissions ''/box/usr/sh'' 2541 3 4 (demo_world ''/'')))) ''/box/usr/sh'' = Inr n \<and>
     imode n = 2541 \<and> int (iuid n) = 3 \<and> int (igid n) = 4"
proof -
  let ?r = "setFilePermissions ''/box/usr/sh'' 2541 3 4 (demo_world ''/'')"
  have "fst ?r = Inr ()" by code_simp
  then have r: "?r = (Inr (), snd ?r)" by (simp add: prod_eq_iff)
  have "id_mapped (files (demo_world ''/'')) 3" "id_mapped (files (demo_world ''/'')) 4" by code_simp+
  with setFilePermissions_exact [OF r] show ?thesis by auto
qed


definition demo_delete_world :: world where
  "demo_delete_world = (demo_world ''/'')\<lparr>ignorelist := [entry ''/box/usr'' False]\<rparr>"


end
