(* ===== verification/Layer_Roundtrip.thy ===== *)
theory Layer_Roundtrip
  imports Fs_Ops
begin

text \<open>
  A layer restores what it was made from: the tar stream that \<open>writeToTar\<close> writes for files of the build root, unpacked by
  the loop of \<open>GetFSFromLayers\<close> over a file system, brings back the same files. This joins \<open>pkg/snapshot/snapshot.go\<close> and
  \<open>AddFileToTar\<close> of \<open>pkg/util/tar_util.go\<close> with \<open>ExtractFile\<close> of \<open>pkg/util/fs_util.go\<close>.
\<close>

subsection \<open>Names in the stream\<close>

definition tar_name :: "string list \<Rightarrow> string" where
  "tar_name cs = (if cs = [] then ''/'' else join ''/'' cs)"

lemma join_no_slash:
  assumes "comps_ok cs" and "cs \<noteq> []"
  shows "join ''/'' cs \<noteq> []" and "hd (join ''/'' cs) \<noteq> CHR ''/''" and "\<not> is_abs (join ''/'' cs)"
proof -
  obtain c ds where cs: "cs = c # ds" using assms(2) by (cases cs) auto
  with assms(1) have c: "c \<noteq> []" "CHR ''/'' \<notin> set c" by (simp_all add: comp_ok_def)
  have "\<exists>r. join ''/'' cs = c @ r" by (cases ds) (simp_all add: cs)
  then obtain r where r: "join ''/'' cs = c @ r" by blast
  obtain x c' where x: "c = x # c'" using c(1) by (cases c) auto
  show "join ''/'' cs \<noteq> []" "hd (join ''/'' cs) \<noteq> CHR ''/''" "\<not> is_abs (join ''/'' cs)"
    using c(2) by (auto simp: r x is_abs_def has_prefix_def)
qed

lemma trim_left_join: "comps_ok cs \<Longrightarrow> cs \<noteq> [] \<Longrightarrow> trim_left CHR ''/'' (join ''/'' cs) = join ''/'' cs"
  using join_no_slash [of cs] by (cases "join ''/'' cs") (simp_all add: trim_left_def)

lemma trim_left_abs_path: "comps_ok cs \<Longrightarrow> cs \<noteq> [] \<Longrightarrow> trim_left CHR ''/'' (abs_path cs) = join ''/'' cs"
  using trim_left_join [of cs] by (simp add: abs_path_def trim_left_def)

lemma join_not_up:
  assumes "comps_ok cs" and "cs \<noteq> []"
  shows "join ''/'' cs \<noteq> ''..''" and "\<not> has_prefix (join ''/'' cs) ''../''"
proof -
  have s: "split_on CHR ''/'' (join ''/'' cs) = cs"
    using assms by (intro split_on_join) (auto simp: comp_ok_def list_all_iff)
  show "join ''/'' cs \<noteq> ''..''"
  proof
    assume "join ''/'' cs = ''..''"
    with s have "cs = [''..'']" by simp
    with assms(1) show False by (simp add: comp_ok_def)
  qed
  show "\<not> has_prefix (join ''/'' cs) ''../''"
  proof
    assume "has_prefix (join ''/'' cs) ''../''"
    then obtain r where "join ''/'' cs = ''..'' @ CHR ''/'' # r" by (auto simp: has_prefix_iff)
    then have "split_on CHR ''/'' (join ''/'' cs) = ''..'' # split_on CHR ''/'' r" by simp
    with s assms(1) show False by (auto simp: comp_ok_def)
  qed
qed

lemma tarPathFromRoot_below:
  assumes "RootDir c = abs_path rs" and "comps_ok rs" and "comps_ok cs"
  shows "tarPathFromRoot c (abs_path (rs @ cs)) = tar_name cs"
proof (cases "cs = []")
  case False
  then have ne: "abs_path (rs @ cs) \<noteq> abs_path rs" using assms by (simp add: abs_path_inj)
  show ?thesis
  proof (cases "rs = []")
    case True
    then show ?thesis using assms False by (simp add: tarPathFromRoot_def tar_name_def trim_left_abs_path Let_def)
  next
    case rs: False
    have "rel (abs_path rs) (abs_path (rs @ cs)) = Inr (join ''/'' cs)" using assms False by (intro rel_below) auto
    with assms False ne rs join_not_up [OF assms(3) False] trim_left_join [OF assms(3) False] show ?thesis
      by (simp add: tarPathFromRoot_def tar_name_def Let_def)
  qed
qed (use assms in \<open>simp add: tarPathFromRoot_def tar_name_def Let_def\<close>)

lemma clean_tar_name:
  assumes "comps_ok cs"
  shows "clean (tar_name cs) = tar_name cs" and "clean (tar_name cs @ ''/'') = tar_name cs"
    and "join_path [''/'', tar_name cs] = abs_path cs"
proof -
  have s: "split_on CHR ''/'' (join ''/'' cs) = cs" if "cs \<noteq> []"
    using assms that by (intro split_on_join) (auto simp: comp_ok_def list_all_iff)
  have "clean (join ''/'' cs @ d) = join ''/'' cs" if "cs \<noteq> []" "d = [] \<or> d = ''/''" for d
  proof -
    have "split_on CHR ''/'' (join ''/'' cs @ d) = cs @ (if d = [] then [] else [[]])"
      using s [OF that(1)] that(2) split_on_append [of "CHR ''/''" "join ''/'' cs" "[]"] by auto
    moreover have "\<not> is_abs (join ''/'' cs @ d)" "join ''/'' cs @ d \<noteq> []"
      using join_no_slash [OF assms that(1)] by (cases "join ''/'' cs"; simp add: is_abs_def has_prefix_def)+
    ultimately show ?thesis using assms that(1) by (simp add: clean_def clean_comps_def fold_clean_step_ok)
  qed
  from this [of "[]"] this [of "''/''"] show "clean (tar_name cs) = tar_name cs" "clean (tar_name cs @ ''/'') = tar_name cs"
    using clean_trailing_sep [of "[]"] by (auto simp: tar_name_def)
  show "join_path [''/'', tar_name cs] = abs_path cs"
    using join_path_rel [of "[]" cs] assms by (cases "cs = []") (simp_all add: tar_name_def join_path_abs [of "[]", simplified])
qed

subsection \<open>Extracting one entry\<close>

text \<open>A directory \<open>ds\<close> of the target and a name in it that is free, or taken by a file that gives way\<close>

definition target_dir :: "filesys \<Rightarrow> string list \<Rightarrow> bool" where
  "target_dir fs ds \<longleftrightarrow> fs_ok fs \<and> is_dir_node (lookup fs ds)"

lemma target_dirE:
  assumes "target_dir fs ds"
  obtains n where "fs_ok fs" and "lookup fs ds = Some n" and "is_dir n"
  using assms by (auto simp: target_dir_def is_dir_node_def is_dir_def split: option.splits)

lemma id_mapped_simps [simp]:
  "id_mapped (add_entry q m fs) i = id_mapped fs i" "id_mapped (upd_inode q f fs) i = id_mapped fs i"
  "id_mapped (remove_tree q fs) i = id_mapped fs i"
  by (simp_all add: id_mapped_def add_entry_def upd_inode_def remove_tree_def split: option.split)

lemma new_entry:
  assumes "target_dir fs ds" and "unused ds x fs"
  shows "fs_ok (add_entry (ds @ [x]) m fs)" and "lookup (add_entry (ds @ [x]) m fs) p = (if p = ds @ [x] then Some m else lookup fs p)"
    and "locate (add_entry (ds @ [x]) m fs) False (abs_path (ds @ [x])) = Inr (ds @ [x])"
    and "link_target (Some m) = None \<Longrightarrow> locate (add_entry (ds @ [x]) m fs) True (abs_path (ds @ [x])) = Inr (ds @ [x])"
proof -
  let ?fs = "add_entry (ds @ [x]) m fs"
  from assms(1) obtain n where n: "fs_ok fs" "lookup fs ds = Some n" "is_dir n" by (rule target_dirE)
  show ok: "fs_ok ?fs" using assms(2) by (intro add_entry_in_dir [OF n]) (simp_all add: unused_def)
  show l: "lookup ?fs p = (if p = ds @ [x] then Some m else lookup fs p)" for p by (simp add: lookup_add_entry [OF n(1)])
  have wf: "fs_wf ?fs" using ok by (simp add: fs_ok_def)
  show "locate ?fs False (abs_path (ds @ [x])) = Inr (ds @ [x])" using locate_existing [OF wf] l by simp
  show "link_target (Some m) = None \<Longrightarrow> locate ?fs True (abs_path (ds @ [x])) = Inr (ds @ [x])"
    using locate_existing [OF wf, of "ds @ [x]" m True] l by simp
qed

lemma upd_file_new:
  assumes "target_dir fs ds" and "unused ds x fs" and "link_target (Some m) = None"
  shows "upd_file (abs_path (ds @ [x])) f (add_entry (ds @ [x]) m fs) = (Inr (), add_entry (ds @ [x]) (f m) fs)"
  using new_entry [OF assms(1, 2)] assms(3) by (simp add: upd_file_def upd_inode_add_entry)

lemma chown_new:
  assumes "target_dir fs ds" and "unused ds x fs" and "link_target (Some m) = None" and "id_mapped fs uid" and "id_mapped fs gid"
  shows "chownTolerant (abs_path (ds @ [x])) uid gid (v\<lparr>files := add_entry (ds @ [x]) m fs\<rparr>) =
    (Inr (), v\<lparr>files := add_entry (ds @ [x]) (chown_inode uid gid m) fs\<rparr>)"
  using upd_file_new [OF assms(1-3)] assms(4, 5) by (simp add: chownTolerant_def on_files_def os_Chown_def)

lemma link_target_plain [simp]: "link_target (Some (new_inode t m)) = (case t of FLink l \<Rightarrow> Some l | _ \<Rightarrow> None)"
  by (simp add: link_target_def)

text \<open>A plain file comes back as it was.\<close>

lemma extract_content_new:
  assumes d: "target_dir fs ds" and x: "unused ds x fs" and reg: "ity n = FReg s"
    and ids: "id_mapped fs (int (iuid n))" "id_mapped fs (int (igid n))"
    and hdr: "hMode h = imode n" "hUid h = iuid n" "hGid h = igid n" "hModTime h = imtime n" "hCap h = icap n"
  shows "sthen (on_files (os_Create (abs_path (ds @ [x])) s))
    (sthen (setFilePermissions (abs_path (ds @ [x])) (hMode h) (int (hUid h)) (int (hGid h)))
    (sthen (writeSecurityXattrToTarFile (abs_path (ds @ [x])) h)
           (setFileTimes (abs_path (ds @ [x])) (Some (hModTime h))))) (v\<lparr>files := fs\<rparr>) = (Inr (), v\<lparr>files := add_entry (ds @ [x]) n fs\<rparr>)"
proof -
  let ?p = "abs_path (ds @ [x])"
  from d obtain k where k: "fs_ok fs" "lookup fs ds = Some k" "is_dir k" by (rule target_dirE)
  have loc: "locate fs True ?p = Inr (ds @ [x])"
    using k x by (intro locate_in_dir) (simp_all add: fs_ok_def unused_def)
  let ?m = "new_inode (FReg s) (umask 438)"
  have create: "os_Create ?p s fs = (Inr (), add_entry (ds @ [x]) ?m fs)"
    using loc x by (simp add: os_Create_def os_WriteFile_def unused_def)
  let ?m1 = "chown_inode (int (iuid n)) (int (igid n)) ?m"
  have t1: "link_target (Some ?m1) = None" "link_target (Some (?m1\<lparr>imode := imode n\<rparr>)) = None"
    by (simp_all add: link_target_def chown_inode_def)
  have perm: "setFilePermissions ?p (imode n) (int (iuid n)) (int (igid n)) (v\<lparr>files := add_entry (ds @ [x]) ?m fs\<rparr>) =
      (Inr (), v\<lparr>files := add_entry (ds @ [x]) (?m1\<lparr>imode := imode n\<rparr>) fs\<rparr>)"
    using chown_new [OF d x _ ids, of ?m v] upd_file_new [OF d x t1(1)]
    by (simp add: setFilePermissions_def sthen_def sbind_def on_files_def os_Chmod_def)
  let ?m2 = "?m1\<lparr>imode := imode n, icap := icap n\<rparr>"
  have cap: "writeSecurityXattrToTarFile ?p h (v\<lparr>files := add_entry (ds @ [x]) (?m1\<lparr>imode := imode n\<rparr>) fs\<rparr>) =
      (Inr (), v\<lparr>files := add_entry (ds @ [x]) ?m2 fs\<rparr>)"
  proof (cases "icap n")
    case None
    moreover have "?m2 = ?m1\<lparr>imode := imode n\<rparr>" using None by (simp add: chown_inode_def new_inode_def)
    ultimately show ?thesis using hdr(5) by (simp add: writeSecurityXattrToTarFile_def sret_def)
  next
    case (Some c)
    with hdr(5) new_entry [OF d x] show ?thesis
      by (simp add: writeSecurityXattrToTarFile_def swrap_def on_files_def upd_inode_add_entry)
  qed
  have "link_target (Some ?m2) = None" by (simp add: link_target_def chown_inode_def)
  from upd_file_new [OF d x this]
  have time: "setFileTimes ?p (Some (imtime n)) (v\<lparr>files := add_entry (ds @ [x]) ?m2 fs\<rparr>) =
      (Inr (), v\<lparr>files := add_entry (ds @ [x]) (?m2\<lparr>imtime := imtime n\<rparr>) fs\<rparr>)"
    by (simp add: setFileTimes_def swrap_def on_files_def os_Chtimes_def)
  have "?m2\<lparr>imtime := imtime n\<rparr> = n" using reg by (simp add: chown_inode_def new_inode_def)
  with create perm cap time show ?thesis
    unfolding hdr by (simp add: sthen_def sbind_def on_files_def)
qed

text \<open>What is in the way of a file is removed, unless it is a directory.\<close>

definition gives_way :: "string list \<Rightarrow> string \<Rightarrow> filesys \<Rightarrow> bool" where
  "gives_way ds x fs \<longleftrightarrow> comp_ok x \<and> \<not> is_dir_node (lookup fs (ds @ [x]))"

definition cleared :: "string list \<Rightarrow> string \<Rightarrow> filesys \<Rightarrow> filesys" where
  "cleared ds x fs = (if lookup fs (ds @ [x]) = None then fs else remove_tree (ds @ [x]) fs)"

lemma stat_target_dir:
  assumes "target_dir fs ds"
  shows "\<exists>n. os_Stat fs (abs_path ds) = Inr n \<and> is_dir n"
proof -
  from assms obtain n where n: "fs_ok fs" "lookup fs ds = Some n" "is_dir n" by (rule target_dirE)
  then have "locate fs True (abs_path ds) = Inr ds"
    by (intro locate_existing) (auto simp: fs_ok_def link_target_def is_dir_def)
  with n show ?thesis by (auto simp: os_Stat_def stat_gen_def)
qed

lemma no_entry_below:
  assumes "fs_ok fs" and "\<not> is_dir_node (lookup fs p)" and "strict_prefix p q"
  shows "lookup fs q = None" and "gm_get (dents fs) q = None"
proof -
  have wf: "fs_wf fs" using assms(1) by (simp add: fs_ok_def)
  show l: "lookup fs q = None" using existing_parent_dir(1) [OF wf _ assms(3)] assms(2) by (cases "lookup fs q") auto
  then show "gm_get (dents fs) q = None" using fs_wfD(3) [OF wf, of q] by (cases "gm_get (dents fs) q") (auto simp: gm_has_def)
qed

lemma gm_get_remove_tree: "gm_get (dents (remove_tree q fs)) p = (if prefix q p then None else gm_get (dents fs) p)"
proof -
  have "map_of (filter (\<lambda>e. \<not> prefix q (fst e)) xs) p = (if prefix q p then None else map_of xs p)"
    for xs :: "(string list \<times> nat) list" by (induction xs) auto
  then show ?thesis by (simp add: remove_tree_def gm_get_def)
qed

lemma cleared:
  assumes d: "target_dir fs ds" and g: "gives_way ds x fs"
  shows "target_dir (cleared ds x fs) ds" and "unused ds x (cleared ds x fs)"
    and "lookup (cleared ds x fs) p = (if p = ds @ [x] then None else lookup fs p)"
    and "gm_get (dents (cleared ds x fs)) p = (if p = ds @ [x] then None else gm_get (dents fs) p)"
    and "id_mapped (cleared ds x fs) i = id_mapped fs i"
proof -
  from d obtain n where n: "fs_ok fs" "lookup fs ds = Some n" "is_dir n" by (rule target_dirE)
  have nd: "\<not> is_dir_node (lookup fs (ds @ [x]))" using g by (simp add: gives_way_def)
  have pre: "prefix (ds @ [x]) q \<Longrightarrow> q \<noteq> ds @ [x] \<Longrightarrow> lookup fs q = None \<and> gm_get (dents fs) q = None" for q
    using no_entry_below [OF n(1) nd, of q] by (auto simp: strict_prefix_def)
  have fs_wf: "fs_wf fs" using n(1) by (simp add: fs_ok_def)
  show l: "lookup (cleared ds x fs) p = (if p = ds @ [x] then None else lookup fs p)" for p
    using pre [of p] by (auto simp: cleared_def lookup_remove_tree)
  have "gm_get (dents fs) (ds @ [x]) = None" if "lookup fs (ds @ [x]) = None"
    using that fs_wfD(3) [OF fs_wf, of "ds @ [x]"] by (cases "gm_get (dents fs) (ds @ [x])") (auto simp: gm_has_def)
  then show "gm_get (dents (cleared ds x fs)) p = (if p = ds @ [x] then None else gm_get (dents fs) p)"
    using pre [of p] by (auto simp: cleared_def gm_get_remove_tree)
  have "fs_ok (cleared ds x fs)" using n(1) fs_ok_remove_tree [of fs "ds @ [x]"] by (simp add: cleared_def)
  with l [of ds] d show "target_dir (cleared ds x fs) ds" by (simp add: target_dir_def)
  show "unused ds x (cleared ds x fs)" using g l [of "ds @ [x]"] by (simp add: unused_def gives_way_def)
  show "id_mapped (cleared ds x fs) i = id_mapped fs i" by (simp add: cleared_def)
qed

lemma clear_way_target:
  assumes d: "target_dir fs ds" and g: "gives_way ds x fs"
  shows "clear_way msg (abs_path (ds @ [x])) (v\<lparr>files := fs\<rparr>) = (Inr (), v\<lparr>files := cleared ds x fs\<rparr>)"
proof -
  from d obtain n where n: "fs_ok fs" "lookup fs ds = Some n" "is_dir n" by (rule target_dirE)
  have "locate fs False (abs_path (ds @ [x])) = Inr (ds @ [x])"
    using n g by (intro locate_in_dir) (simp_all add: fs_ok_def gives_way_def)
  then show ?thesis
    by (cases "lookup fs (ds @ [x])")
      (simp_all add: clear_way_def sbind_def sgets_def sret_def FilepathExists_def os_Lstat_def stat_gen_def cleared_def
        swrap_def on_files_def os_RemoveAll_def)
qed

lemma extract_reg_target:
  assumes d: "target_dir fs ds" and g: "gives_way ds x fs" and ok: "comps_ok (ds @ [x])" and reg: "ity n = FReg s"
    and ids: "id_mapped fs (int (iuid n))" "id_mapped fs (int (igid n))"
    and hdr: "hMode h = imode n" "hUid h = iuid n" "hGid h = igid n" "hModTime h = imtime n" "hCap h = icap n"
  shows "extract_reg (abs_path (ds @ [x])) s h (v\<lparr>files := fs\<rparr>) =
    (Inr (), v\<lparr>files := add_entry (ds @ [x]) n (cleared ds x fs)\<rparr>)"
proof -
  have "ensure_dir (dir (abs_path (ds @ [x]))) (v\<lparr>files := fs\<rparr>) = (Inr (), v\<lparr>files := fs\<rparr>)"
    using stat_target_dir [OF d] dir_abs_path [OF ok] by (auto simp: ensure_dir_def sbind_def sgets_def sret_def)
  then show ?thesis
    unfolding extract_reg_def sthen_def [of "ensure_dir _"] sthen_def [of "clear_way _ _"]
    using clear_way_target [OF d g] extract_content_new [OF cleared(1, 2) [OF d g] reg _ _ hdr, of v] ids
    by (simp add: sbind_def cleared(5) [OF d g])
qed

text \<open>A symbolic link comes back with its target.\<close>

lemma mkdir_all_existing: "target_dir fs ds \<Longrightarrow> os_MkdirAll (abs_path ds) m fs = (Inr (), fs)"
proof -
  assume "target_dir fs ds"
  with stat_target_dir obtain n where "os_Stat fs (abs_path ds) = Inr n" "is_dir n" by blast
  moreover obtain k where "length (abs_path ds) = Suc k" by (cases "abs_path ds") auto
  ultimately show ?thesis by (simp add: os_MkdirAll_def)
qed

lemma extract_symlink_target:
  assumes d: "target_dir fs ds" and g: "gives_way ds x fs" and ok: "comps_ok (ds @ [x])" and "t \<noteq> []"
  shows "extract_symlink (abs_path (ds @ [x])) name t (v\<lparr>files := fs\<rparr>) =
    (Inr (), v\<lparr>files := add_entry (ds @ [x]) (new_inode (FLink t) 511) (cleared ds x fs)\<rparr>)"
proof -
  note c = cleared [OF d g]
  obtain n where n: "fs_ok (cleared ds x fs)" "lookup (cleared ds x fs) ds = Some n" "is_dir n" using c(1) by (rule target_dirE)
  have "locate (cleared ds x fs) False (abs_path (ds @ [x])) = Inr (ds @ [x])"
    using n g by (intro locate_in_dir) (simp_all add: fs_ok_def gives_way_def)
  then show ?thesis
    using mkdir_all_existing [OF d] dir_abs_path [OF ok] clear_way_target [OF d g] c(3) assms(4)
    by (simp add: extract_symlink_def sthen_def sbind_def on_files_def os_Symlink_def)
qed

text \<open>A directory comes back with its mode and owner; if there is one already, it keeps its entries.\<close>

lemma resolve_trailing:
  assumes wf: "fs_wf fs" and n: "lookup fs cs = Some n" "is_dir n"
  shows "acc @ rest = cs \<Longrightarrow> resolve l fs follow acc (rest @ [[]]) = Inr cs"
proof (induction rest arbitrary: acc)
  case Nil
  then show ?case using n by (simp add: resolve.simps is_dir_node_def is_dir_def)
next
  case (Cons c rest)
  have c: "comp_ok c" using fs_wf_entry(1) [OF wf n(1)] Cons.prems by auto
  have "is_dir_node (lookup fs acc)"
    using existing_parent_dir(1) [OF wf n(1), of acc] Cons.prems by (auto simp: strict_prefix_def)
  moreover have "link_target (lookup fs (acc @ [c])) = None"
  proof (cases "rest = []")
    case True
    with n Cons.prems show ?thesis by (auto simp: link_target_def is_dir_def)
  next
    case False
    then have "strict_prefix (acc @ [c]) cs" using Cons.prems by (auto simp: strict_prefix_def prefix_def)
    then show ?thesis using existing_parent_dir(2) [OF wf n(1)] by simp
  qed
  ultimately show ?case using Cons c by (simp add: resolve.simps comp_ok_def)
qed

lemma stat_trailing:
  assumes "target_dir fs ds" and "p = (if ds = [] then ''/'' else abs_path ds @ ''/'')"
  shows "\<exists>n. os_Stat fs p = Inr n \<and> is_dir n"
proof (cases "ds = []")
  case True
  with stat_target_dir [OF assms(1)] assms(2) show ?thesis by simp
next
  case False
  from assms(1) obtain n where n: "fs_ok fs" "lookup fs ds = Some n" "is_dir n" by (rule target_dirE)
  then have wf: "fs_wf fs" by (simp add: fs_ok_def)
  have ok: "comps_ok ds" using fs_wf_entry(1) [OF wf n(2)] .
  have "split_on CHR ''/'' p = [] # ds @ [[]]"
    using split_on_append [of "CHR ''/''" "abs_path ds" "[]"] split_on_abs_path [OF ok] False assms(2) by simp
  moreover have "is_dir_node (lookup fs [])" using fs_wfD(2) [OF wf] .
  ultimately have "locate fs True p = Inr ds"
    using resolve_trailing [OF wf n(2, 3), of "[]" ds kernel_links True] False assms(2) by (simp add: locate_def resolve.simps)
  with n show ?thesis by (auto simp: os_Stat_def stat_gen_def)
qed

lemma parent_string_abs_path:
  assumes "comps_ok (ds @ [x])"
  shows "parent_string (abs_path (ds @ [x])) = (if ds = [] then ''/'' else abs_path ds @ ''/'')"
proof -
  let ?p = "abs_path (ds @ [x])"
  have "rev ?p \<noteq> []" "hd (rev ?p) \<noteq> CHR ''/''"
    using assms by (auto simp: abs_path_snoc comp_ok_def hd_append hd_rev dest: last_in_set split: if_splits)
  then have "rev (dropWhile (\<lambda>c. c = CHR ''/'') (rev ?p)) = ?p" by (cases "rev ?p") (auto simp: rev_swap)
  with split_path_abs_path [of x ds] assms show ?thesis by (simp add: parent_string_def)
qed

lemma mkdir_all_new:
  assumes d: "target_dir fs ds" and x: "unused ds x fs" and ok: "comps_ok (ds @ [x])"
  shows "os_MkdirAll (abs_path (ds @ [x])) m fs = (Inr (), add_entry (ds @ [x]) (new_inode FDir (umask m)) fs)"
proof -
  let ?p = "abs_path (ds @ [x])" and ?q = "if ds = [] then ''/'' else abs_path ds @ ''/''"
  from d obtain n where n: "fs_ok fs" "lookup fs ds = Some n" "is_dir n" by (rule target_dirE)
  have loc: "locate fs f ?p = Inr (ds @ [x])" for f
    using n x by (intro locate_in_dir) (simp_all add: fs_ok_def unused_def)
  then have st: "os_Stat fs ?p = Inl (Sys ENOENT)" using x by (simp add: os_Stat_def stat_gen_def unused_def)
  have "no_trailing ?p = ?p"
  proof -
    have "rev ?p \<noteq> []" "hd (rev ?p) \<noteq> CHR ''/''"
      using ok by (auto simp: abs_path_snoc comp_ok_def hd_append hd_rev dest: last_in_set split: if_splits)
    then show ?thesis by (cases "rev ?p") (auto simp: no_trailing_def Let_def rev_swap)
  qed
  then have mk: "os_Mkdir ?p m fs = (Inr (), add_entry (ds @ [x]) (new_inode FDir (umask m)) fs)"
    using loc x by (simp add: os_Mkdir_def unused_def)
  have "x \<noteq> []" using ok by (simp add: comp_ok_def)
  then have "2 \<le> length ?p" using abs_path_snoc [of ds x] by (cases x; cases "abs_path ds"; simp)
  then obtain k where k: "length ?p = Suc (Suc k)" by (metis add_2_eq_Suc le_Suc_ex)
  obtain n' where "os_Stat fs ?q = Inr n'" "is_dir n'" using stat_trailing [OF d refl] by blast
  then have "mkdir_all (Suc k) ?q m fs = (Inr (), fs)" by simp
  with st mk show ?thesis using parent_string_abs_path [OF ok] by (simp add: os_MkdirAll_def k)
qed

definition dir_like :: "inode \<Rightarrow> inode \<Rightarrow> inode" where
  "dir_like n m = m\<lparr>imode := imode n, iuid := iuid n, igid := igid n\<rparr>"

lemma extract_dir_new:
  assumes d: "target_dir fs ds" and x: "unused ds x fs" and ok: "comps_ok (ds @ [x])"
    and ids: "id_mapped fs (int (iuid n))" "id_mapped fs (int (igid n))" "int (iuid n) \<le> max_uint32" "int (igid n) \<le> max_uint32"
  shows "MkdirAllWithPermissions (abs_path (ds @ [x])) (imode n) (int (iuid n)) (int (igid n)) (v\<lparr>files := fs\<rparr>) =
    (Inr (), v\<lparr>files := add_entry (ds @ [x]) (dir_like n (new_inode FDir (umask (imode n)))) fs\<rparr>)"
proof -
  let ?p = "abs_path (ds @ [x])" and ?m = "new_inode FDir (umask (imode n))"
  from d obtain k where k: "fs_ok fs" "lookup fs ds = Some k" "is_dir k" by (rule target_dirE)
  have "locate fs True ?p = Inr (ds @ [x])" using k x by (intro locate_in_dir) (simp_all add: fs_ok_def unused_def)
  then have st: "os_Stat fs ?p = Inl (Sys ENOENT)" using x by (simp add: os_Stat_def stat_gen_def unused_def)
  have t: "link_target (Some (chown_inode (int (iuid n)) (int (igid n)) ?m)) = None" by (simp add: link_target_def chown_inode_def)
  have "(chown_inode (int (iuid n)) (int (igid n)) ?m)\<lparr>imode := imode n\<rparr> = dir_like n ?m"
    by (simp add: chown_inode_def dir_like_def new_inode_def)
  with st mkdir_all_new [OF d x ok] chown_new [OF d x _ ids(1, 2), of ?m v] upd_file_new [OF d x t] ids(3, 4)
  show ?thesis by (simp add: MkdirAllWithPermissions_def sbind_def sthen_def sgets_def sret_def on_files_def os_Chmod_def)
qed

lemma extract_dir_existing:
  assumes d: "target_dir fs cs" and ids: "id_mapped fs (int (iuid n))" "id_mapped fs (int (igid n))" "int (iuid n) \<le> max_uint32" "int (igid n) \<le> max_uint32"
  shows "MkdirAllWithPermissions (abs_path cs) (imode n) (int (iuid n)) (int (igid n)) (v\<lparr>files := fs\<rparr>) =
    (Inr (), v\<lparr>files := upd_inode cs (\<lambda>m. m\<lparr>imode := imode n\<rparr>) (upd_inode cs (chown_inode (int (iuid n)) (int (igid n))) fs)\<rparr>)"
proof -
  from d obtain k where k: "fs_ok fs" "lookup fs cs = Some k" "is_dir k" by (rule target_dirE)
  let ?f = "chown_inode (int (iuid n)) (int (igid n))"
  let ?fs = "upd_inode cs ?f fs"
  obtain m where st: "os_Stat fs (abs_path cs) = Inr m" "is_dir m" using stat_target_dir [OF d] by blast
  have loc: "locate fs True (abs_path cs) = Inr cs"
    using k by (intro locate_existing) (auto simp: fs_ok_def link_target_def is_dir_def)
  have ok: "fs_ok ?fs" by (rule fs_ok_upd_inode [OF k(1)]) (simp add: chown_inode_def)
  have "same_file fs cs cs" using k(2) by (auto simp: same_file_def lookup_def split: option.splits)
  then have l: "lookup ?fs cs = Some (?f k)" using k(2) by (simp add: lookup_upd_inode)
  have loc': "locate ?fs True (abs_path cs) = Inr cs"
  proof (rule locate_existing [OF _ l])
    show "fs_wf ?fs" using ok by (simp add: fs_ok_def)
    show "True \<longrightarrow> link_target (lookup ?fs cs) = None" using k(3) l by (simp add: link_target_def chown_inode_def is_dir_def)
  qed
  show ?thesis using st mkdir_all_existing [OF d] loc loc' l k(2) ids
    by (simp add: MkdirAllWithPermissions_def sbind_def sthen_def sgets_def sret_def on_files_def os_Chmod_def chownTolerant_def
        os_Chown_def upd_file_def)
qed

text \<open>A hard link comes back as another name of the file extracted before.\<close>

definition linked :: "string list \<Rightarrow> string list \<Rightarrow> filesys \<Rightarrow> filesys" where
  "linked qs cs fs = fs\<lparr>dents := gm_set (dents fs) cs (the (gm_get (dents fs) qs))\<rparr>"

lemma shouldResolve_root: "RootDir (conf v) = ''/'' \<Longrightarrow> \<not> shouldResolveInRoot v p"
  by (simp add: shouldResolveInRoot_def Let_def)

lemma filepath_Abs_name: "comps_ok cs \<Longrightarrow> cs \<noteq> [] \<Longrightarrow> filepath_Abs (tar_name cs) = abs_path cs"
  using clean_tar_name(3) [of cs] join_no_slash(3) [of cs] by (simp add: filepath_Abs_def tar_name_def)

lemma ignore_files [simp]: "CheckCleanedPathAgainstIgnoreList (v\<lparr>files := fs\<rparr>) p = CheckCleanedPathAgainstIgnoreList v p"
  by (simp add: CheckCleanedPathAgainstIgnoreList_def CheckCleanedPathAgainstProvidedIgnoreList_def)

lemma linked_facts:
  assumes "fs_ok fs" and "target_dir fs ds" and "unused ds x fs" and "lookup fs qs = Some m"
  shows "fs_ok (linked qs (ds @ [x]) fs)" and "lookup (linked qs (ds @ [x]) fs) p = (if p = ds @ [x] then Some m else lookup fs p)"
    and "gm_get (dents (linked qs (ds @ [x]) fs)) p = (if p = ds @ [x] then gm_get (dents fs) qs else gm_get (dents fs) p)"
proof -
  obtain i where i: "gm_get (dents fs) qs = Some i" using assms(4) by (auto simp: lookup_def split: option.splits)
  have "placed fs (ds @ [x])"
    using assms(1-3) fs_wf_entry(1) [of fs ds] target_dirE [OF assms(2)] by (auto simp: placed_def target_dir_def unused_def fs_ok_def)
  then show "fs_ok (linked qs (ds @ [x]) fs)"
    using fs_ok_hard_link [OF assms(1) _ _ i] assms(3) by (simp add: linked_def i unused_def)
  show "lookup (linked qs (ds @ [x]) fs) p = (if p = ds @ [x] then Some m else lookup fs p)"
    using assms(4) i by (simp add: lookup_def linked_def split: option.splits)
  show "gm_get (dents (linked qs (ds @ [x]) fs)) p = (if p = ds @ [x] then gm_get (dents fs) qs else gm_get (dents fs) p)"
    using i by (simp add: linked_def)
qed

lemma extract_link_target:
  assumes d: "target_dir fs ds" and g: "gives_way ds x fs" and ok: "comps_ok (ds @ [x])" and root: "RootDir (conf v) = ''/''"
    and q: "lookup fs qs = Some m" "\<not> is_dir m" "qs \<noteq> ds @ [x]" "qs \<noteq> []" and i: "\<not> CheckCleanedPathAgainstIgnoreList v (abs_path qs)"
  shows "extract_link ''/'' (abs_path (ds @ [x])) name (tar_name qs) (v\<lparr>files := fs\<rparr>) =
    (Inr (), v\<lparr>files := linked qs (ds @ [x]) (cleared ds x fs)\<rparr>)"
proof -
  let ?fs = "cleared ds x fs"
  note c = cleared [OF d g]
  obtain n where n: "fs_ok ?fs" "lookup ?fs ds = Some n" "is_dir n" using c(1) by (rule target_dirE)
  then have wf: "fs_wf ?fs" by (simp add: fs_ok_def)
  have q': "lookup ?fs qs = Some m" using q(1, 3) c(3) by simp
  have qok: "comps_ok qs" using fs_wf_entry(1) [OF wf q'] .
  have "locate ?fs False (abs_path (ds @ [x])) = Inr (ds @ [x])"
    using n g by (intro locate_in_dir) (simp_all add: fs_ok_def gives_way_def)
  moreover have "locate ?fs False (abs_path qs) = Inr qs" using locate_existing [OF wf q'] by simp
  moreover obtain j where "gm_get (dents ?fs) qs = Some j" using q' by (auto simp: lookup_def split: option.splits)
  moreover have "\<not> is_dir_node (lookup ?fs qs)" using q' q(2) by (simp add: is_dir_node_def is_dir_def)
  ultimately have link: "os_Link (abs_path qs) (abs_path (ds @ [x])) ?fs = (Inr (), linked qs (ds @ [x]) ?fs)"
    using c(3) [of "ds @ [x]"] by (simp add: os_Link_def linked_def)
  have names: "\<not> is_abs (tar_name qs)" "clean (join_path [''/'', tar_name qs]) = abs_path qs"
    using clean_tar_name(3) [OF qok] join_no_slash(3) [OF qok q(4)] qok q(4) by (simp_all add: tar_name_def)
  have ig: "\<not> CheckCleanedPathAgainstIgnoreList (v\<lparr>files := fs\<rparr>) (filepath_Abs (tar_name qs))"
    using i filepath_Abs_name [OF qok q(4)] by simp
  show ?thesis
    using ig mkdir_all_existing [OF d] dir_abs_path [OF ok] clear_way_target [OF d g] link names shouldResolve_root [of "v\<lparr>files := ?fs\<rparr>"] root
    by (simp add: extract_link_def sthen_def sbind_def sreads_def on_files_def Let_def)
qed

subsection \<open>What an extracted entry changes\<close>

text \<open>A directory has one name.\<close>

definition one_name :: "filesys \<Rightarrow> bool" where
  "one_name fs \<longleftrightarrow> (\<forall>e \<in> set (dents fs). \<forall>e' \<in> set (dents fs). is_dir_node (lookup fs (fst e)) \<and> snd e = snd e' \<longrightarrow> fst e = fst e')"

lemma one_nameD:
  assumes "one_name fs" and "is_dir_node (lookup fs p)" and "gm_get (dents fs) p = gm_get (dents fs) q"
  shows "p = q"
proof -
  obtain i where i: "gm_get (dents fs) p = Some i" using assms(2) by (auto simp: lookup_def is_dir_node_def split: option.splits)
  then have "gm_get (dents fs) q = Some i" using assms(3) by simp
  with i have "(p, i) \<in> set (dents fs)" "(q, i) \<in> set (dents fs)" unfolding gm_get_def by (blast dest: map_of_SomeD)+
  with assms(1, 2) show ?thesis by (fastforce simp: one_name_def)
qed

lemma one_nameI:
  assumes "fs_ok fs" and "\<And>p q. is_dir_node (lookup fs p) \<Longrightarrow> gm_get (dents fs) p = gm_get (dents fs) q \<Longrightarrow> p = q"
  shows "one_name fs"
proof -
  have wf: "gm_wf (dents fs)" using assms(1) fs_wfD(1) by (simp add: fs_ok_def)
  have "gm_get (dents fs) (fst e) = Some (snd e)" if "e \<in> set (dents fs)" for e
    using that wf map_of_is_SomeI [of "dents fs" "fst e" "snd e"] by (simp add: gm_wf_def gm_keys_def gm_get_def)
  then show ?thesis unfolding one_name_def by (metis assms(2))
qed

definition restores :: "inode \<Rightarrow> inode \<Rightarrow> bool" where
  "restores n m \<longleftrightarrow> (case ity n of
      FReg _ \<Rightarrow> m = n
    | FDir \<Rightarrow> ity m = FDir \<and> imode m = imode n \<and> iuid m = iuid n \<and> igid m = igid n
    | FLink t \<Rightarrow> ity m = FLink t
    | FSocket \<Rightarrow> False)"

text \<open>From \<open>fs\<close> to \<open>fs'\<close>, the path \<open>p\<close> got the inode \<open>m\<close> and nothing else changed; \<open>own\<close> says that no other path shares it.\<close>

definition put :: "string list \<Rightarrow> inode \<Rightarrow> filesys \<Rightarrow> filesys \<Rightarrow> bool" where
  "put p m fs fs' \<longleftrightarrow> fs_ok fs' \<and> one_name fs' \<and> lookup fs' = (lookup fs)(p \<mapsto> m) \<and>
     (\<forall>q. q \<noteq> p \<longrightarrow> gm_get (dents fs') q = gm_get (dents fs) q) \<and> id_mapped fs' = id_mapped fs"

definition own :: "string list \<Rightarrow> filesys \<Rightarrow> bool" where
  "own p fs \<longleftrightarrow> (\<forall>q. q \<noteq> p \<longrightarrow> gm_get (dents fs) q \<noteq> gm_get (dents fs) p)"

lemma dents_below_next:
  assumes "fs_ok fs" and "gm_get (dents fs) q = Some i"
  shows "i < next_ino fs"
proof -
  have "lookup fs q \<noteq> None" using assms fs_wfD(3) [of fs q] by (simp add: fs_ok_def gm_has_def)
  with assms show ?thesis using fs_ok_fresh [OF assms(1), of i] by (auto simp: lookup_def)
qed

lemma put_new:
  assumes d: "target_dir fs ds" and x: "unused ds x fs" and one: "one_name fs"
  shows "put (ds @ [x]) m fs (add_entry (ds @ [x]) m fs) \<and> own (ds @ [x]) (add_entry (ds @ [x]) m fs)"
proof -
  let ?p = "ds @ [x]" and ?fs = "add_entry (ds @ [x]) m fs"
  have ok: "fs_ok fs" using d by (simp add: target_dir_def)
  note new = new_entry [OF d x]
  have g: "gm_get (dents ?fs) q = (if q = ?p then Some (next_ino fs) else gm_get (dents fs) q)" for q by (simp add: add_entry_def)
  have fresh: "gm_get (dents fs) q \<noteq> Some (next_ino fs)" for q using dents_below_next [OF ok, of q "next_ino fs"] by auto
  have "one_name ?fs"
  proof (rule one_nameI [OF new(1)])
    fix p q assume a: "is_dir_node (lookup ?fs p)" "gm_get (dents ?fs) p = gm_get (dents ?fs) q"
    then show "p = q" using one_nameD [OF one, of p q] fresh [of p] fresh [of q] by (auto simp: g new(2) split: if_splits)
  qed
  then show ?thesis using new(1, 2) fresh by (auto simp: put_def own_def g fun_eq_iff)
qed

lemma put_cleared:
  assumes d: "target_dir fs ds" and g: "gives_way ds x fs" and one: "one_name fs" and put: "put (ds @ [x]) m (cleared ds x fs) fs'"
  shows "put (ds @ [x]) m fs fs'"
  using put cleared(3-5) [OF d g] by (auto simp: put_def fun_eq_iff)

lemma one_name_cleared:
  assumes d: "target_dir fs ds" and g: "gives_way ds x fs" and one: "one_name fs"
  shows "one_name (cleared ds x fs)"
proof (rule one_nameI)
  note c = cleared [OF d g]
  show ok: "fs_ok (cleared ds x fs)" using c(1) by (simp add: target_dir_def)
  fix p q assume a: "is_dir_node (lookup (cleared ds x fs) p)" "gm_get (dents (cleared ds x fs)) p = gm_get (dents (cleared ds x fs)) q"
  then have p: "p \<noteq> ds @ [x]" "is_dir_node (lookup fs p)" using c(3) by (auto simp: is_dir_node_def split: if_splits)
  then have "gm_get (dents fs) p \<noteq> None" by (auto simp: is_dir_node_def lookup_def split: option.splits)
  with a(2) p(1) have "gm_get (dents fs) p = gm_get (dents fs) q" using c(4) by (auto split: if_splits)
  with one_nameD [OF one p(2)] show "p = q" by blast
qed

lemma put_linked:
  assumes d: "target_dir fs ds" and x: "unused ds x fs" and one: "one_name fs" and q: "lookup fs qs = Some m" "\<not> is_dir m"
  shows "put (ds @ [x]) m fs (linked qs (ds @ [x]) fs)"
proof -
  let ?p = "ds @ [x]" and ?fs = "linked qs (ds @ [x]) fs"
  have ok: "fs_ok fs" using d by (simp add: target_dir_def)
  note f = linked_facts [OF ok d x q(1)]
  have nd: "\<not> is_dir_node (Some m)" using q(2) by (simp add: is_dir_node_def is_dir_def)
  have "one_name ?fs"
  proof (rule one_nameI [OF f(1)])
    fix a b assume ab: "is_dir_node (lookup ?fs a)" "gm_get (dents ?fs) a = gm_get (dents ?fs) b"
    then have a: "a \<noteq> ?p" "is_dir_node (lookup fs a)" using f(2) nd by (auto split: if_splits)
    show "a = b"
    proof (cases "b = ?p")
      case True
      with ab(2) a(1) f(3) have "gm_get (dents fs) a = gm_get (dents fs) qs" by simp
      from one_nameD [OF one a(2) this] a(2) q(1) nd show ?thesis by simp
    next
      case False
      with ab(2) a f(3) one_nameD [OF one a(2), of b] show ?thesis by simp
    qed
  qed
  then show ?thesis using f by (auto simp: put_def fun_eq_iff id_mapped_def linked_def)
qed

lemma put_existing_dir:
  assumes d: "target_dir fs p" and one: "one_name fs" and k: "lookup fs p = Some k"
    and dir: "\<And>m. (ity (f m) = FDir) = (ity m = FDir)"
  shows "put p (f k) fs (upd_inode p f fs)"
proof -
  have dn: "is_dir_node (lookup fs p)" and ok: "fs_ok fs" using d by (simp_all add: target_dir_def)
  have "gm_get (dents fs) p \<noteq> None" using k by (auto simp: lookup_def split: option.splits)
  then have same: "same_file fs q p \<longleftrightarrow> q = p" for q using one_nameD [OF one dn, of q] unfolding same_file_def by metis
  have ok': "fs_ok (upd_inode p f fs)" by (rule fs_ok_upd_inode [OF ok dir])
  have l: "lookup (upd_inode p f fs) q = (if q = p then Some (f k) else lookup fs q)" for q
    using k by (simp add: lookup_upd_inode same)
  have "one_name (upd_inode p f fs)"
  proof (rule one_nameI [OF ok'])
    fix a b assume "is_dir_node (lookup (upd_inode p f fs) a)" "gm_get (dents (upd_inode p f fs)) a = gm_get (dents (upd_inode p f fs)) b"
    then show "a = b" using one_nameD [OF one, of a b] dn by (cases "a = p") (simp_all add: l)
  qed
  moreover have "lookup (upd_inode p f fs) = (lookup fs)(p \<mapsto> f k)" by (rule ext) (simp add: l)
  ultimately show ?thesis using ok' by (simp add: put_def fun_eq_iff)
qed

text \<open>What the target must satisfy at a path to receive a file there: the path is not ignored, what is there is a directory
  exactly if the file is one, the owner can be set, and the name is not that of a whiteout.\<close>

definition fits :: "world \<Rightarrow> string list \<Rightarrow> inode \<Rightarrow> bool" where
  "fits v p n \<longleftrightarrow> \<not> CheckCleanedPathAgainstIgnoreList v (abs_path p) \<and>
     (lookup (files v) p = None \<or> is_dir_node (lookup (files v) p) = is_dir n) \<and>
     id_mapped (files v) (int (iuid n)) \<and> id_mapped (files v) (int (igid n)) \<and> int (iuid n) \<le> max_uint32 \<and> int (igid n) \<le> max_uint32 \<and>
     ity n \<noteq> FLink [] \<and> (p \<noteq> [] \<longrightarrow> \<not> has_prefix (last p) whiteout_prefix)"

lemma ExtractFile_at:
  assumes "RootDir (conf v) = ''/''" and "comps_ok p" and "\<not> CheckCleanedPathAgainstIgnoreList v (abs_path p)"
  shows "ExtractFile ''/'' h (tar_name p) v = (case hType h of
      TypeReg content \<Rightarrow> extract_reg (abs_path p) content h
    | TypeDir \<Rightarrow> MkdirAllWithPermissions (abs_path p) (hMode h) (int (hUid h)) (int (hGid h))
    | TypeLink linkname \<Rightarrow> extract_link ''/'' (abs_path p) (hName h) linkname
    | TypeSymlink linkname \<Rightarrow> extract_symlink (abs_path p) (hName h) linkname) v"
  using assms shouldResolve_root [OF assms(1)] clean_tar_name(3) [OF assms(2)]
  by (simp add: ExtractFile_def sbind_def sreads_def sgets_def Let_def filepath_Abs_def)

definition like :: "tar_entry \<Rightarrow> inode \<Rightarrow> bool" where
  "like h n \<longleftrightarrow> hMode h = imode n \<and> hUid h = iuid n \<and> hGid h = igid n \<and> hModTime h = imtime n \<and> hCap h = icap n"

lemma extract_dir_put:
  assumes "fs_ok (files v)" and one: "one_name (files v)" and dir: "is_dir n" and f: "fits v p n" and p: "comps_ok p"
    and d: "p = [] \<or> target_dir (files v) (butlast p)"
  shows "\<exists>fs' m. MkdirAllWithPermissions (abs_path p) (imode n) (int (iuid n)) (int (igid n)) v = (Inr (), v\<lparr>files := fs'\<rparr>) \<and>
    put p m (files v) fs' \<and> own p fs' \<and> restores n m"
proof (cases "lookup (files v) p")
  case (Some k)
  let ?fs = "files v"
  let ?f = "\<lambda>m. (chown_inode (int (iuid n)) (int (igid n)) m)\<lparr>imode := imode n\<rparr>"
  have t: "target_dir ?fs p" using Some f dir assms(1) by (simp add: target_dir_def fits_def)
  have fd: "(ity (?f m) = FDir) = (ity m = FDir)" for m by (simp add: chown_inode_def)
  have comp: "upd_inode p (\<lambda>m. m\<lparr>imode := imode n\<rparr>) (upd_inode p (chown_inode (int (iuid n)) (int (igid n))) ?fs) = upd_inode p ?f ?fs"
    by (simp add: upd_inode_def gm_set_def gm_get_def update_conv' split: option.split)
  have put: "put p (?f k) ?fs (upd_inode p ?f ?fs)" by (rule put_existing_dir [OF t one Some fd])
  have dk: "ity k = FDir" using t Some by (simp add: target_dir_def is_dir_node_def)
  have "own p (upd_inode p ?f ?fs)"
  proof -
    have "is_dir_node (lookup ?fs p)" using t by (simp add: target_dir_def)
    from one_nameD [OF one this] show ?thesis unfolding own_def dents_upd_inode by metis
  qed
  moreover have "restores n (?f k)" using dir dk by (simp add: restores_def is_dir_def chown_inode_def)
  ultimately show ?thesis using extract_dir_existing [OF t, of n v] comp put f by (auto simp: fits_def)
next
  case None
  then obtain ds x where p': "p = ds @ [x]" using assms(1) fs_wfD(2) [of "files v"]
    by (cases p rule: rev_cases) (auto simp: fs_ok_def is_dir_node_def)
  have t: "target_dir (files v) ds" and u: "unused ds x (files v)" using d p None by (simp_all add: p' unused_def)
  let ?m = "dir_like n (new_inode FDir (umask (imode n)))"
  have "restores n ?m" using dir by (simp add: restores_def is_dir_def dir_like_def new_inode_def)
  with put_new [OF t u one, of ?m] extract_dir_new [OF t u, of n v] p f show ?thesis by (auto simp: p' fits_def)
qed

lemma extract_plain:
  assumes root: "RootDir (conf v) = ''/''" and ok: "fs_ok (files v)" and one: "one_name (files v)" and f: "fits v p n" and p: "comps_ok p"
    and d: "p = [] \<or> target_dir (files v) (butlast p)" and "p = [] \<Longrightarrow> is_dir n" and sock: "ity n \<noteq> FSocket"
    and h: "like h n" "hType h = header_type (ity n)"
  shows "\<exists>fs' m. ExtractFile ''/'' h (tar_name p) v = (Inr (), v\<lparr>files := fs'\<rparr>) \<and> put p m (files v) fs' \<and> own p fs' \<and> restores n m"
proof (cases "is_dir n")
  case True
  then have "hType h = TypeDir" using h(2) by (simp add: header_type_def is_dir_def)
  with ExtractFile_at [OF root p, of h] extract_dir_put [OF ok one True f p d] f h(1) show ?thesis by (simp add: fits_def like_def)
next
  case False
  with assms(7) obtain ds x where p': "p = ds @ [x]" by (cases p rule: rev_cases) auto
  let ?fs = "files v"
  have t: "target_dir ?fs ds" using d by (simp add: p')
  have g: "gives_way ds x ?fs" using f p False by (auto simp: p' gives_way_def fits_def is_dir_node_def)
  have "put p m ?fs (add_entry p m (cleared ds x ?fs)) \<and> own p (add_entry p m (cleared ds x ?fs))" for m
    using put_new [OF cleared(1, 2) [OF t g] one_name_cleared [OF t g one], of m] put_cleared [OF t g one, of m] by (auto simp: p')
  moreover have "\<exists>m. ExtractFile ''/'' h (tar_name p) v = (Inr (), v\<lparr>files := add_entry p m (cleared ds x ?fs)\<rparr>) \<and> restores n m"
  proof (cases "ity n")
    case (FReg s)
    have "ExtractFile ''/'' h (tar_name p) v = (Inr (), v\<lparr>files := add_entry p n (cleared ds x ?fs)\<rparr>)"
      using extract_reg_target [OF t g p [unfolded p'] FReg, of h v] ExtractFile_at [OF root p, of h] f h FReg
      by (simp add: p' fits_def like_def header_type_def)
    with FReg show ?thesis by (auto simp: restores_def)
  next
    case (FLink l)
    have "ExtractFile ''/'' h (tar_name p) v = (Inr (), v\<lparr>files := add_entry p (new_inode (FLink l) 511) (cleared ds x ?fs)\<rparr>)"
      using extract_symlink_target [OF t g p [unfolded p'], of l "hName h" v] ExtractFile_at [OF root p, of h] f h FLink
      by (simp add: p' fits_def header_type_def)
    with FLink show ?thesis by (auto simp: restores_def)
  qed (use False sock in \<open>auto simp: is_dir_def\<close>)
  ultimately show ?thesis by blast
qed

lemma extract_hard:
  assumes root: "RootDir (conf v) = ''/''" and one: "one_name (files v)" and f: "fits v (ds @ [x]) n" and p: "comps_ok (ds @ [x])"
    and d: "target_dir (files v) ds" and nd: "\<not> is_dir n" and h: "hType h = TypeLink (tar_name qs)"
    and q: "lookup (files v) qs = Some m" "\<not> is_dir m" "qs \<noteq> ds @ [x]" "qs \<noteq> []" "\<not> CheckCleanedPathAgainstIgnoreList v (abs_path qs)"
  shows "\<exists>fs'. ExtractFile ''/'' h (tar_name (ds @ [x])) v = (Inr (), v\<lparr>files := fs'\<rparr>) \<and> put (ds @ [x]) m (files v) fs' \<and>
    gm_get (dents fs') (ds @ [x]) = gm_get (dents (files v)) qs"
proof -
  let ?fs = "files v" and ?c = "cleared ds x (files v)"
  have g: "gives_way ds x ?fs" using f p nd by (auto simp: gives_way_def fits_def is_dir_node_def)
  note c = cleared [OF d g]
  have q': "lookup ?c qs = Some m" using q(1, 3) c(3) by simp
  have ok: "fs_ok ?c" using c(1) by (simp add: target_dir_def)
  have "put (ds @ [x]) m ?fs (linked qs (ds @ [x]) ?c)"
    using put_cleared [OF d g one] put_linked [OF c(1, 2) one_name_cleared [OF d g one] q' q(2)] by blast
  moreover have "gm_get (dents (linked qs (ds @ [x]) ?c)) (ds @ [x]) = gm_get (dents ?fs) qs"
    using linked_facts(3) [OF ok c(1, 2) q'] c(4) q(3) by simp
  moreover have "ExtractFile ''/'' h (tar_name (ds @ [x])) v = (Inr (), v\<lparr>files := linked qs (ds @ [x]) ?c\<rparr>)"
    using extract_link_target [OF d g p root q(1-4) q(5)] ExtractFile_at [OF root p, of h] f h by (simp add: fits_def)
  ultimately show ?thesis by blast
qed

subsection \<open>Writing and extracting a stream\<close>

text \<open>After the paths \<open>qs\<close> (below the build root \<open>rs\<close>) and whiteouts for the paths \<open>G\<close> have been written to the tar \<open>t\<close> and extracted
  over the files of \<open>v\<close>, giving \<open>fs\<close>: the first are restored, hard links included, the second are gone with all below them,
  and nothing else changed. The table of hard links in the tar knows the paths whose inode has other names.\<close>

definition ino :: "filesys \<Rightarrow> string list \<Rightarrow> nat option" where
  "ino fs p = gm_get (dents fs) p"

definition restored :: "world \<Rightarrow> string list \<Rightarrow> world \<Rightarrow> string list set \<Rightarrow> string list set \<Rightarrow> filesys \<Rightarrow> bool" where
  "restored w rs v G qs fs \<longleftrightarrow> fs_ok fs \<and> one_name fs \<and> id_mapped fs = id_mapped (files v) \<and>
     (\<forall>q. q \<notin> qs \<longrightarrow> lookup fs q = (if \<exists>g \<in> G. prefix g q then None else lookup (files v) q)) \<and>
     (\<forall>q \<in> qs. \<exists>n m. lookup (files w) (rs @ q) = Some n \<and> lookup fs q = Some m \<and> restores n m) \<and>
     (\<forall>q \<in> qs. \<forall>r \<in> qs. ino (files w) (rs @ q) = ino (files w) (rs @ r) \<longleftrightarrow> ino fs q = ino fs r)"

definition table_ok :: "world \<Rightarrow> string list \<Rightarrow> string list set \<Rightarrow> Tar \<Rightarrow> bool" where
  "table_ok w rs qs t \<longleftrightarrow>
     (\<forall>i p. gm_get (hardlinks t) i = Some p \<longrightarrow> (\<exists>q \<in> qs. p = abs_path (rs @ q) \<and> ino (files w) (rs @ q) = Some i)) \<and>
     (\<forall>q \<in> qs. \<forall>i. ino (files w) (rs @ q) = Some i \<and> 1 < nlink (files w) i \<longrightarrow> gm_get (hardlinks t) i \<noteq> None)"

lemma restored_put:
  assumes r: "restored w rs v G qs fs" and p: "p \<notin> qs" and n: "lookup (files w) (rs @ p) = Some n" and put: "put p m fs fs'" and m: "restores n m"
    and share: "\<And>q. q \<in> qs \<Longrightarrow> ino (files w) (rs @ q) = ino (files w) (rs @ p) \<longleftrightarrow> ino fs q = ino fs' p"
  shows "restored w rs v G (insert p qs) fs'"
proof -
  have old: "ino fs' q = ino fs q" if "q \<in> qs" for q using put p that by (auto simp: put_def ino_def)
  have "ino (files w) (rs @ q) = ino (files w) (rs @ q') \<longleftrightarrow> ino fs' q = ino fs' q'" if "q \<in> insert p qs" "q' \<in> insert p qs" for q q'
    using that share [of q] share [of q'] r old by (cases "q = p"; cases "q' = p") (auto simp: restored_def)
  with r p n put m show ?thesis by (auto simp: restored_def put_def)
qed

lemma two_names:
  assumes "fs_ok fs" and "ino fs p = Some i" and "ino fs q = Some i" and "p \<noteq> q"
  shows "1 < nlink fs i"
proof -
  have wf: "fs_wf fs" using assms(1) by (simp add: fs_ok_def)
  have "lookup fs p \<noteq> None" using assms(2) fs_wfD(3) [OF wf, of p] by (simp add: ino_def gm_has_def)
  then obtain n where n: "gm_get (inodes fs) i = Some n" using assms(2) by (auto simp: lookup_def ino_def)
  have "(p, i) \<in> set (dents fs)" "(q, i) \<in> set (dents fs)" using assms(2, 3) unfolding ino_def gm_get_def by (blast dest: map_of_SomeD)+
  then have "{(p, i), (q, i)} \<subseteq> set (filter (\<lambda>e. snd e = i) (dents fs))" by auto
  then have "card {(p, i), (q, i)} \<le> length (filter (\<lambda>e. snd e = i) (dents fs))"
    by (meson card_length card_mono finite_set le_trans)
  with assms(4) n show ?thesis by (simp add: nlink_def)
qed

lemma header_facts:
  assumes "RootDir (conf w) = abs_path rs" and "comps_ok rs" and "comps_ok p"
  shows "clean (hName (file_header (conf w) (abs_path (rs @ p)) n hl)) = tar_name p"
    and "like (file_header (conf w) (abs_path (rs @ p)) n hl) n"
    and "hType (file_header (conf w) (abs_path (rs @ p)) n None) = header_type (ity n)"
  using tarPathFromRoot_below [OF assms] clean_tar_name [OF assms(3)] by (auto simp: file_header_def like_def Let_def)

lemma extract_entry_plain:
  assumes "comps_ok p" and "clean (hName h) = tar_name p" and "p \<noteq> [] \<longrightarrow> \<not> has_prefix (last p) whiteout_prefix"
    and "ExtractFile ''/'' h (tar_name p) v = (Inr (), v')"
  shows "extract_entry ExtractFile inc ''/'' h v = (Inr [abs_path p], v')"
proof -
  have "\<not> has_prefix (base (abs_path p)) whiteout_prefix"
  proof (cases p rule: rev_cases)
    case Nil
    have "base ''/'' = ''/''" by code_simp
    then show ?thesis by (simp add: Nil whiteout_prefix_def)
  next
    case (snoc ds x)
    with assms(1, 3) base_abs_path [of x ds] show ?thesis by simp
  qed
  then show ?thesis using assms(2, 4) clean_tar_name(3) [OF assms(1)] by (simp add: extract_entry_def Let_def sthen_def sbind_def sret_def)
qed

text \<open>One file, from the source to the target\<close>

definition source_ok :: "world \<Rightarrow> string list \<Rightarrow> bool" where
  "source_ok w rs \<longleftrightarrow> fs_ok (files w) \<and> one_name (files w) \<and> RootDir (conf w) = abs_path rs \<and> is_dir_node (lookup (files w) rs)"

lemma source_okD:
  assumes "source_ok w rs"
  shows "fs_ok (files w)" "one_name (files w)" "RootDir (conf w) = abs_path rs" "is_dir_node (lookup (files w) rs)" "comps_ok rs" "fs_wf (files w)"
  using assms fs_wf_entry(1) [of "files w" rs] by (auto simp: source_ok_def fs_ok_def is_dir_node_def split: option.splits)

definition sendable :: "world \<Rightarrow> string list \<Rightarrow> world \<Rightarrow> string list \<Rightarrow> bool" where
  "sendable w rs v p \<longleftrightarrow> comps_ok p \<and> (case lookup (files w) (rs @ p) of None \<Rightarrow> False | Some n \<Rightarrow> fits v p n)"

definition state_ok :: "world \<Rightarrow> string list \<Rightarrow> world \<Rightarrow> string list set \<Rightarrow> string list set \<Rightarrow> Tar \<Rightarrow> filesys \<Rightarrow> bool" where
  "state_ok w rs v G qs t fs \<longleftrightarrow> restored w rs v G qs fs \<and> table_ok w rs qs t \<and>
     (\<forall>q \<in> qs. \<not> CheckCleanedPathAgainstIgnoreList v (abs_path q))"

lemma parent_restored:
  assumes s: "source_ok w rs" and r: "restored w rs v G qs fs" and n: "lookup (files w) (rs @ ds @ [x]) = Some n" and d: "ds \<in> qs"
  shows "target_dir fs ds"
proof -
  obtain k m where k: "lookup (files w) (rs @ ds) = Some k" "lookup fs ds = Some m" "restores k m" using r d by (auto simp: restored_def)
  have "strict_prefix (rs @ ds) (rs @ ds @ [x])" by (simp add: strict_prefix_def)
  then have "is_dir_node (lookup (files w) (rs @ ds))" using existing_parent_dir(1) [OF source_okD(6) [OF s] n] by blast
  with k r show ?thesis by (auto simp: target_dir_def restored_def restores_def is_dir_node_def)
qed

lemma step_plain:
  assumes s: "source_ok w rs" and target: "RootDir (conf v) = ''/''" and r: "restored w rs v G qs fs"
    and p: "comps_ok p" "lookup (files w) (rs @ p) = Some n" "fits v p n" "p \<notin> qs" "p = [] \<or> butlast p \<in> qs" and sock: "ity n \<noteq> FSocket"
    and new: "\<And>q. q \<in> qs \<Longrightarrow> ino (files w) (rs @ q) \<noteq> ino (files w) (rs @ p)"
  shows "\<exists>fs'. extract_entry ExtractFile inc ''/'' (file_header (conf w) (abs_path (rs @ p)) n None) (v\<lparr>files := fs\<rparr>) =
      (Inr [abs_path p], v\<lparr>files := fs'\<rparr>) \<and> restored w rs v G (insert p qs) fs'"
proof -
  let ?v = "v\<lparr>files := fs\<rparr>" and ?h = "file_header (conf w) (abs_path (rs @ p)) n None"
  note h = header_facts [OF source_okD(3, 5) [OF s] p(1)]
  have root: "is_dir n" if "p = []" using that p(2) source_okD(4) [OF s] by (simp add: is_dir_node_def is_dir_def)
  have parent: "p = [] \<or> target_dir (files ?v) (butlast p)"
    using parent_restored [OF s r, of "butlast p" "last p" n] p(2, 5) by (cases p rule: rev_cases) auto
  have f': "fits ?v p n" using p(3, 4) r by (auto simp: fits_def restored_def)
  have "fs_ok (files ?v)" "one_name (files ?v)" using r by (simp_all add: restored_def)
  from extract_plain [OF _ this f' p(1) parent root sock h(2, 3)] target
  obtain fs' m where e: "ExtractFile ''/'' ?h (tar_name p) ?v = (Inr (), v\<lparr>files := fs'\<rparr>)" "put p m fs fs'" "own p fs'" "restores n m"
    by auto
  have "extract_entry ExtractFile inc ''/'' ?h ?v = (Inr [abs_path p], v\<lparr>files := fs'\<rparr>)"
    using extract_entry_plain [OF p(1) h(1) _ e(1)] p(3) by (simp add: fits_def)
  moreover have "restored w rs v G (insert p qs) fs'"
  proof (rule restored_put [OF r p(4, 2) e(2, 4)])
    fix q assume q: "q \<in> qs"
    then have "ino fs' q = ino fs q" "q \<noteq> p" using e(2) p(4) by (auto simp: put_def ino_def)
    with e(3) have "ino fs q \<noteq> ino fs' p" unfolding own_def ino_def by metis
    with new [OF q] show "ino (files w) (rs @ q) = ino (files w) (rs @ p) \<longleftrightarrow> ino fs q = ino fs' p" by simp
  qed
  ultimately show ?thesis by blast
qed

lemma step_hard:
  assumes s: "source_ok w rs" and target: "RootDir (conf v) = ''/''" and r: "restored w rs v G qs fs"
    and p: "comps_ok p" "lookup (files w) (rs @ p) = Some n" "fits v p n" "p \<notin> qs" "p = [] \<or> butlast p \<in> qs"
    and o: "orig \<in> qs" "ino (files w) (rs @ orig) = ino (files w) (rs @ p)" "\<not> CheckCleanedPathAgainstIgnoreList v (abs_path orig)"
  shows "\<exists>fs'. extract_entry ExtractFile inc ''/'' (file_header (conf w) (abs_path (rs @ p)) n (Some (abs_path (rs @ orig)))) (v\<lparr>files := fs\<rparr>) =
      (Inr [abs_path p], v\<lparr>files := fs'\<rparr>) \<and> restored w rs v G (insert p qs) fs'"
proof -
  let ?v = "v\<lparr>files := fs\<rparr>" and ?h = "file_header (conf w) (abs_path (rs @ p)) n (Some (abs_path (rs @ orig)))"
  have ne: "orig \<noteq> p" using o(1) p(4) by auto
  have no: "lookup (files w) (rs @ orig) = Some n" using p(2) o(2) by (simp add: lookup_def ino_def)
  have nd: "\<not> is_dir n"
  proof
    assume "is_dir n"
    then have "is_dir_node (lookup (files w) (rs @ orig))" using no by (simp add: is_dir_node_def is_dir_def)
    from one_nameD [OF source_okD(2) [OF s] this, of "rs @ p"] o(2) ne show False by (simp add: ino_def)
  qed
  have "p \<noteq> []" "orig \<noteq> []" using p(2) no nd source_okD(4) [OF s] by (auto simp: is_dir_node_def is_dir_def)
  then obtain ds x where px: "p = ds @ [x]" by (cases p rule: rev_cases) auto
  have co: "comps_ok orig" using fs_wf_entry(1) [OF source_okD(6) [OF s] no] by simp
  note h = header_facts [OF source_okD(3, 5) [OF s] p(1)]
  have t: "hType ?h = TypeLink (tar_name orig)"
    using tarPathFromRoot_below [OF source_okD(3, 5) [OF s] co] by (simp add: file_header_def Let_def)
  obtain m where m: "lookup fs orig = Some m" "restores n m" using r o(1) no by (auto simp: restored_def)
  then have md: "\<not> is_dir m" using nd by (auto simp: restores_def is_dir_def split: ftype.splits)
  have d: "target_dir (files ?v) ds" using parent_restored [OF s r, of ds x n] p(2, 5) by (simp add: px)
  have f': "fits ?v (ds @ [x]) n" using p(3, 4) r by (auto simp: fits_def restored_def px)
  have "one_name (files ?v)" using r by (simp add: restored_def)
  from extract_hard [OF _ this f' _ d nd t, of m] target m(1) md ne \<open>orig \<noteq> []\<close> o(3) p(1)
  obtain fs' where e: "ExtractFile ''/'' ?h (tar_name p) ?v = (Inr (), v\<lparr>files := fs'\<rparr>)" "put p m fs fs'" "ino fs' p = ino fs orig"
    by (auto simp: px ino_def)
  have "extract_entry ExtractFile inc ''/'' ?h ?v = (Inr [abs_path p], v\<lparr>files := fs'\<rparr>)"
    using extract_entry_plain [OF p(1) h(1) _ e(1)] p(3) by (simp add: fits_def)
  moreover have "restored w rs v G (insert p qs) fs'"
  proof (rule restored_put [OF r p(4, 2) e(2) m(2)])
    fix q assume "q \<in> qs"
    then have "ino (files w) (rs @ q) = ino (files w) (rs @ orig) \<longleftrightarrow> ino fs q = ino fs orig" using r o(1) by (simp add: restored_def)
    with o(2) e(3) show "ino (files w) (rs @ q) = ino (files w) (rs @ p) \<longleftrightarrow> ino fs q = ino fs' p" by simp
  qed
  ultimately show ?thesis by blast
qed

lemma table_insert:
  assumes "table_ok w rs qs t" and "ino (files w) (rs @ p) = Some i"
    and "hardlinks t' = (if 1 < nlink (files w) i \<and> gm_get (hardlinks t) i = None then gm_set (hardlinks t) i (abs_path (rs @ p)) else hardlinks t)"
  shows "table_ok w rs (insert p qs) t'"
  using assms unfolding table_ok_def by (auto split: if_splits)

lemma checkHardlink_facts:
  assumes tab: "table_ok w rs qs t" and other: "\<forall>q \<in> qs. abs_path (rs @ q) \<noteq> p" and c: "checkHardlink (files w) p i t = (hl, t1)"
  shows "entries t1 = entries t"
    and "hl = None \<and> (nlink (files w) i \<le> 1 \<or> gm_get (hardlinks t) i = None) \<or>
      (\<exists>q \<in> qs. hl = Some (abs_path (rs @ q)) \<and> ino (files w) (rs @ q) = Some i)"
    and "hardlinks t1 = (if 1 < nlink (files w) i \<and> gm_get (hardlinks t) i = None then gm_set (hardlinks t) i p else hardlinks t)"
proof -
  show "entries t1 = entries t" using c by (auto simp: checkHardlink_def split: if_splits option.splits)
  consider "nlink (files w) i \<le> 1" | "1 < nlink (files w) i" "gm_get (hardlinks t) i = None"
    | q where "1 < nlink (files w) i" "q \<in> qs" "gm_get (hardlinks t) i = Some (abs_path (rs @ q))" "ino (files w) (rs @ q) = Some i"
  proof (cases "nlink (files w) i \<le> 1")
    case False
    then show ?thesis using tab that unfolding table_ok_def by (cases "gm_get (hardlinks t) i") auto
  qed (use that in blast)
  then show "hl = None \<and> (nlink (files w) i \<le> 1 \<or> gm_get (hardlinks t) i = None) \<or>
      (\<exists>q \<in> qs. hl = Some (abs_path (rs @ q)) \<and> ino (files w) (rs @ q) = Some i)"
    and "hardlinks t1 = (if 1 < nlink (files w) i \<and> gm_get (hardlinks t) i = None then gm_set (hardlinks t) i p else hardlinks t)"
    by (cases; use c other in \<open>auto simp: checkHardlink_def\<close>)+
qed

text \<open>\<open>AddFileToTar\<close> of one path and the extraction of what it adds\<close>

lemma restored_names:
  assumes s: "source_ok w rs" and r: "restored w rs v G qs fs" and p: "comps_ok p" "p \<notin> qs" and q: "q \<in> qs"
  shows "abs_path (rs @ q) \<noteq> abs_path (rs @ p)"
proof -
  note src = source_okD [OF s]
  obtain k where "lookup (files w) (rs @ q) = Some k" using r q by (auto simp: restored_def)
  then have "comps_ok (rs @ q)" using fs_wf_entry(1) [OF src(6)] by blast
  then show ?thesis using q p src(5) by (auto simp: abs_path_inj)
qed

lemma table_fresh:
  assumes s: "source_ok w rs" and tab: "table_ok w rs qs t" and i: "ino (files w) (rs @ p) = Some i" and p: "p \<notin> qs" and q: "q \<in> qs"
    and new: "nlink (files w) i \<le> 1 \<or> gm_get (hardlinks t) i = None"
  shows "ino (files w) (rs @ q) \<noteq> Some i"
proof
  assume j: "ino (files w) (rs @ q) = Some i"
  have "1 < nlink (files w) i" by (rule two_names [OF source_okD(1) [OF s] j i]) (use p q in auto)
  moreover from this have "gm_get (hardlinks t) i \<noteq> None" using tab q j unfolding table_ok_def by simp
  ultimately show False using new by simp
qed

lemma transfer_step:
  assumes s: "source_ok w rs" and target: "RootDir (conf v) = ''/''" and st: "state_ok w rs v G qs t fs"
    and p: "comps_ok p" "lookup (files w) (rs @ p) = Some n" "fits v p n" "p \<notin> qs" "p = [] \<or> butlast p \<in> qs"
    and a: "AddFileToTar w (abs_path (rs @ p)) t = (Inr u, t')"
  shows "\<exists>es out fs'. entries t' = entries t @ es \<and>
    smap (extract_entry ExtractFile inc ''/'') es (v\<lparr>files := fs\<rparr>) = (Inr out, v\<lparr>files := fs'\<rparr>) \<and>
    state_ok w rs v G (if ity n = FSocket then qs else insert p qs) t' fs'"
proof -
  have r: "restored w rs v G qs fs" and tab: "table_ok w rs qs t" using st by (simp_all add: state_ok_def)
  note src = source_okD [OF s]
  obtain i where i: "ino (files w) (rs @ p) = Some i" using p(2) by (auto simp: lookup_def ino_def split: option.splits)
  have "lstat_ino (files w) (abs_path (rs @ p)) = Inr (i, n)"
    using locate_existing [OF src(6) p(2), of False] i p(2) by (simp add: lstat_ino_def ino_def)
  note add = a [unfolded AddFileToTar_def this]
  show ?thesis
  proof (cases "ity n = FSocket")
    case True
    with add st show ?thesis by (auto intro!: exI [of _ "[]"] simp: sret_def)
  next
    case False
    obtain hl t1 where c: "checkHardlink (files w) (abs_path (rs @ p)) i t = (hl, t1)" by fastforce
    let ?e = "file_header (conf w) (abs_path (rs @ p)) n hl"
    have t': "t' = t1\<lparr>entries := entries t1 @ [?e]\<rparr>" using add False c by simp
    have other: "\<forall>q \<in> qs. abs_path (rs @ q) \<noteq> abs_path (rs @ p)" using restored_names [OF s r p(1, 4)] by blast
    note ch = checkHardlink_facts [OF tab other c]
    have t2: "table_ok w rs (insert p qs) t'" by (rule table_insert [OF tab i]) (simp add: t' ch(3))
    consider (hard) q where "q \<in> qs" "hl = Some (abs_path (rs @ q))" "ino (files w) (rs @ q) = Some i"
      | (plain) "hl = None" "nlink (files w) i \<le> 1 \<or> gm_get (hardlinks t) i = None"
      using ch(2) by (cases hl) auto
    then have "\<exists>fs'. extract_entry ExtractFile inc ''/'' ?e (v\<lparr>files := fs\<rparr>) = (Inr [abs_path p], v\<lparr>files := fs'\<rparr>) \<and>
        restored w rs v G (insert p qs) fs'"
    proof cases
      case (hard q)
      then show ?thesis using step_hard [OF s target r p hard(1)] i st by (simp add: state_ok_def)
    next
      case plain
      have "ino (files w) (rs @ q) \<noteq> ino (files w) (rs @ p)" if "q \<in> qs" for q using table_fresh [OF s tab i p(4) that plain(2)] i by simp
      with step_plain [OF s target r p False] plain(1) show ?thesis by blast
    qed
    then obtain fs' where "extract_entry ExtractFile inc ''/'' ?e (v\<lparr>files := fs\<rparr>) = (Inr [abs_path p], v\<lparr>files := fs'\<rparr>)"
      "restored w rs v G (insert p qs) fs'" "entries t' = entries t @ [?e]" by (auto simp: t' ch(1))
    with t2 False st p(3) show ?thesis
      by (intro exI [of _ "[?e]"] exI [of _ "[[abs_path p]]"] exI [of _ fs'])
        (simp add: state_ok_def fits_def sbind_def sret_def)
  qed
qed

text \<open>A whiteout and its extraction\<close>

definition removable :: "world \<Rightarrow> string list \<Rightarrow> world \<Rightarrow> string list \<Rightarrow> bool" where
  "removable w rs v g \<longleftrightarrow> g \<noteq> [] \<and> comps_ok g \<and>
     lookup (files w) (rs @ g) = None \<and> is_dir_node (lookup (files w) (rs @ butlast g)) \<and>
     \<not> CheckCleanedPathAgainstIgnoreList v (abs_path g) \<and> \<not> childDirInIgnoreList v (abs_path g)"

lemma whiteout_name:
  assumes "RootDir (conf w) = abs_path rs" and "comps_ok rs" and "comps_ok (ds @ [x])"
  shows "hName (whiteout_header (conf w) (abs_path (rs @ ds @ [x]))) = tar_name (ds @ [whiteout_prefix @ x])"
proof -
  have wh: "comp_ok (whiteout_prefix @ x)" using assms(3) by (simp add: comp_ok_def whiteout_prefix_def)
  with assms have "comps_ok (rs @ ds @ [x])" "comps_ok (rs @ ds @ [whiteout_prefix @ x])" by simp_all
  then have "join_path [dir (abs_path (rs @ ds @ [x])), whiteout_prefix @ base (abs_path (rs @ ds @ [x]))] = abs_path (rs @ ds @ [whiteout_prefix @ x])"
    using dir_abs_path [of "rs @ ds" x] base_abs_path [of x "rs @ ds"] join_path_comp [of "rs @ ds" "whiteout_prefix @ x"] by simp
  with tarPathFromRoot_below [OF assms(1, 2), of "ds @ [whiteout_prefix @ x]"] assms(3) wh trim_left_join [of "ds @ [whiteout_prefix @ x]"]
  show ?thesis by (simp add: whiteout_header_def tar_name_def)
qed

lemma not_below_missing:
  assumes s: "source_ok w rs" and r: "restored w rs v G qs fs" and g: "lookup (files w) (rs @ g) = None" and q: "q \<in> qs"
  shows "\<not> prefix g q"
proof
  assume p: "prefix g q"
  obtain n where n: "lookup (files w) (rs @ q) = Some n" using r q by (auto simp: restored_def)
  then have "strict_prefix (rs @ g) (rs @ q)" using p g by (auto simp: strict_prefix_def)
  from existing_parent_dir(1) [OF source_okD(6) [OF s] n this] g show False by (simp add: is_dir_node_def)
qed

lemma restored_remove:
  assumes s: "source_ok w rs" and r: "restored w rs v G qs fs" and g: "g \<noteq> []" "lookup (files w) (rs @ g) = None"
  shows "restored w rs v (insert g G) qs (remove_tree g fs)"
proof -
  note q = not_below_missing [OF s r g(2)]
  have ok: "fs_ok (remove_tree g fs)" using fs_ok_remove_tree [of fs g] r g(1) by (simp add: restored_def)
  have one: "one_name fs" using r by (simp add: restored_def)
  have "one_name (remove_tree g fs)"
  proof (rule one_nameI [OF ok])
    fix a b assume ab: "is_dir_node (lookup (remove_tree g fs) a)" "gm_get (dents (remove_tree g fs)) a = gm_get (dents (remove_tree g fs)) b"
    then have a: "\<not> prefix g a" "is_dir_node (lookup fs a)" by (auto simp: lookup_remove_tree is_dir_node_def split: if_splits)
    then have "gm_get (dents fs) a \<noteq> None" by (auto simp: is_dir_node_def lookup_def split: option.splits)
    with ab(2) a(1) have "gm_get (dents fs) a = gm_get (dents fs) b" by (auto simp: gm_get_remove_tree split: if_splits)
    with one_nameD [OF one a(2)] show "a = b" by blast
  qed
  then show ?thesis using r q ok by (auto simp: restored_def lookup_remove_tree gm_get_remove_tree ino_def fun_eq_iff)
qed

lemma restored_absent:
  assumes s: "source_ok w rs" and r: "restored w rs v G qs fs" and g: "lookup fs g = None" "lookup (files w) (rs @ g) = None"
  shows "restored w rs v (insert g G) qs fs"
proof -
  have "lookup fs q = None" if "prefix g q" for q
    using no_entry_below(1) [of fs g q] r g(1) that by (cases "q = g") (auto simp: restored_def is_dir_node_def strict_prefix_def)
  then show ?thesis using r not_below_missing [OF s r g(2)] unfolding restored_def by auto
qed

lemma child_ignore_files [simp]: "childDirInIgnoreList (v\<lparr>files := fs\<rparr>) p = childDirInIgnoreList v p"
  by (simp add: childDirInIgnoreList_def)

lemma step_whiteout:
  assumes s: "source_ok w rs" and target: "RootDir (conf v) = ''/''" and r: "restored w rs v G qs fs"
    and g: "removable w rs v g" "butlast g \<in> qs"
  shows "\<exists>fs'. extract_entry ExtractFile False ''/'' (whiteout_header (conf w) (abs_path (rs @ g))) (v\<lparr>files := fs\<rparr>) =
      (Inr [], v\<lparr>files := fs'\<rparr>) \<and> restored w rs v (insert g G) qs fs'"
proof -
  obtain ds x where gx: "g = ds @ [x]" using g(1) by (cases g rule: rev_cases) (auto simp: removable_def)
  have ok: "comps_ok (ds @ [x])" and none: "lookup (files w) (rs @ g) = None" and d: "is_dir_node (lookup (files w) (rs @ ds))"
    and ig: "\<not> CheckCleanedPathAgainstIgnoreList v (abs_path g)" "\<not> childDirInIgnoreList v (abs_path g)"
    using g(1) by (simp_all add: removable_def gx)
  have wh: "comps_ok (ds @ [whiteout_prefix @ x])" using ok by (simp add: comp_ok_def whiteout_prefix_def)
  obtain k m where k: "lookup (files w) (rs @ ds) = Some k" "lookup fs ds = Some m" "restores k m"
    using r g(2) by (auto simp: restored_def gx)
  then have t: "target_dir fs ds" using d r by (auto simp: target_dir_def restored_def restores_def is_dir_node_def)
  from t obtain n where n: "fs_ok fs" "lookup fs ds = Some n" "is_dir n" by (rule target_dirE)
  have "locate fs False (abs_path g) = Inr g" unfolding gx using n ok by (intro locate_in_dir) (simp_all add: fs_ok_def)
  then have rm: "os_RemoveAll (abs_path g) fs = (Inr (), if lookup fs g = None then fs else remove_tree g fs)"
    by (simp add: os_RemoveAll_def gx)
  let ?h = "whiteout_header (conf w) (abs_path (rs @ g))"
  have name: "clean (hName ?h) = tar_name (ds @ [whiteout_prefix @ x])"
    using whiteout_name [OF source_okD(3, 5) [OF s] ok] clean_tar_name(1) [OF wh] by (simp add: gx)
  have b: "base (abs_path (ds @ [whiteout_prefix @ x])) = whiteout_prefix @ x" using base_abs_path [of "whiteout_prefix @ x" ds] wh by simp
  have "join_path [dir (abs_path (ds @ [whiteout_prefix @ x])), x] = abs_path g"
    using dir_abs_path [OF wh] join_path_comp [OF ok] by (simp add: gx)
  then have "extract_entry ExtractFile False ''/'' ?h (v\<lparr>files := fs\<rparr>) =
      (Inr [], v\<lparr>files := if lookup fs g = None then fs else remove_tree g fs\<rparr>)"
    using name b clean_tar_name(3) [OF wh] ig rm shouldResolve_root [of "v\<lparr>files := fs\<rparr>"] target
    by (simp add: extract_entry_def Let_def sthen_def sbind_def swrap_def sreads_def sgets_def sret_def on_files_def trim_prefix_def)
  moreover have "restored w rs v (insert g G) qs (if lookup fs g = None then fs else remove_tree g fs)"
    using restored_absent [OF s r _ none] restored_remove [OF s r _ none] by (simp add: gx)
  ultimately show ?thesis by blast
qed

text \<open>A sequence of files and whiteouts, each after its parent directory\<close>

datatype item = Added "string list" | Gone "string list"

definition put_item :: "world \<Rightarrow> string list \<Rightarrow> item \<Rightarrow> (Tar, unit) act" where
  "put_item w rs it = (case it of Added p \<Rightarrow> AddFileToTar w (abs_path (rs @ p)) | Gone g \<Rightarrow> Whiteout w (abs_path (rs @ g)))"

definition item_ok :: "world \<Rightarrow> string list \<Rightarrow> world \<Rightarrow> item \<Rightarrow> bool" where
  "item_ok w rs v it = (case it of Added p \<Rightarrow> sendable w rs v p | Gone g \<Rightarrow> removable w rs v g)"

fun parents_first :: "string list set \<Rightarrow> item list \<Rightarrow> bool" where
  "parents_first qs [] \<longleftrightarrow> True"
| "parents_first qs (Added p # its) \<longleftrightarrow> p \<notin> qs \<and> (p = [] \<or> butlast p \<in> qs) \<and> parents_first (insert p qs) its"
| "parents_first qs (Gone g # its) \<longleftrightarrow> butlast g \<in> qs \<and> parents_first qs its"

definition added :: "item list \<Rightarrow> string list set" where
  "added its = {p. Added p \<in> set its}"

definition gone :: "item list \<Rightarrow> string list set" where
  "gone its = {g. Gone g \<in> set its}"

lemma added_gone_simps [simp]:
  "added [] = {}" "added (Added p # its) = insert p (added its)" "added (Gone p # its) = added its" "added (its @ its') = added its \<union> added its'"
  "gone [] = {}" "gone (Gone p # its) = insert p (gone its)" "gone (Added p # its) = gone its" "gone (its @ its') = gone its \<union> gone its'"
  by (auto simp: added_def gone_def)

definition is_sock :: "world \<Rightarrow> string list \<Rightarrow> bool" where
  "is_sock w p = (case lookup (files w) p of None \<Rightarrow> False | Some n \<Rightarrow> ity n = FSocket)"

lemma smap_append_Inr:
  "smap f xs s = (Inr ys, s') \<Longrightarrow> smap f xs' s' = (Inr ys', s'') \<Longrightarrow> smap f (xs @ xs') s = (Inr (ys @ ys'), s'')"
  by (induction xs arbitrary: s ys) (auto simp: sbind_def sret_def split: prod.splits sum.splits)

text \<open>Nothing lies below a socket.\<close>

lemma parents_first_childless:
  "parents_first (insert p qs) its \<Longrightarrow> (\<forall>q \<in> added its. q = [] \<or> butlast q \<noteq> p) \<Longrightarrow> (\<forall>g \<in> gone its. butlast g \<noteq> p) \<Longrightarrow> parents_first qs its"
proof (induction qs its rule: parents_first.induct)
  case (2 qs q its)
  then show ?case by (auto simp: insert_commute)
qed auto

lemma socket_childless:
  assumes s: "source_ok w rs" and n: "lookup (files w) (rs @ p) = Some n" "ity n = FSocket" and its: "list_all (item_ok w rs v) its"
    and first: "parents_first (insert p qs) its"
  shows "parents_first qs its"
proof (rule parents_first_childless [OF first]; intro ballI)
  fix q assume "q \<in> added its"
  with its obtain m where m: "lookup (files w) (rs @ q) = Some m"
    by (fastforce simp: added_def list_all_iff item_ok_def sendable_def split: option.splits)
  show "q = [] \<or> butlast q \<noteq> p"
  proof (rule ccontr)
    assume "\<not> (q = [] \<or> butlast q \<noteq> p)"
    then have "strict_prefix (rs @ p) (rs @ q)" by (cases q rule: rev_cases) (auto simp: strict_prefix_def)
    from existing_parent_dir(1) [OF source_okD(6) [OF s] m this] n show False by (simp add: is_dir_node_def)
  qed
next
  fix g assume "g \<in> gone its"
  with its have "is_dir_node (lookup (files w) (rs @ butlast g))" by (fastforce simp: gone_def list_all_iff item_ok_def removable_def)
  with n show "butlast g \<noteq> p" by (auto simp: is_dir_node_def)
qed

lemma transfer_item:
  assumes s: "source_ok w rs" and target: "RootDir (conf v) = ''/''" and st: "state_ok w rs v G qs t fs" and ok: "item_ok w rs v it"
    and first: "parents_first qs (it # its)" and its: "list_all (item_ok w rs v) its" and a: "put_item w rs it t = (Inr u, t')"
  shows "\<exists>es out fs'. entries t' = entries t @ es \<and>
    smap (extract_entry ExtractFile False ''/'') es (v\<lparr>files := fs\<rparr>) = (Inr out, v\<lparr>files := fs'\<rparr>) \<and>
    state_ok w rs v (G \<union> gone [it]) (qs \<union> {p \<in> added [it]. \<not> is_sock w (rs @ p)}) t' fs' \<and>
    parents_first (qs \<union> {p \<in> added [it]. \<not> is_sock w (rs @ p)}) its"
proof (cases it)
  case (Added p)
  obtain n where n: "comps_ok p" "lookup (files w) (rs @ p) = Some n" "fits v p n"
    using ok by (auto simp: Added item_ok_def sendable_def split: option.splits)
  have p: "p \<notin> qs" "p = [] \<or> butlast p \<in> qs" "parents_first (insert p qs) its" using first by (auto simp: Added)
  have a': "AddFileToTar w (abs_path (rs @ p)) t = (Inr u, t')" using a by (simp add: Added put_item_def)
  have qs: "qs \<union> {p \<in> added [it]. \<not> is_sock w (rs @ p)} = (if ity n = FSocket then qs else insert p qs)"
    using n(2) by (auto simp: Added is_sock_def)
  have "parents_first (if ity n = FSocket then qs else insert p qs) its"
    using socket_childless [OF s n(2) _ its p(3)] p(3) by simp
  with transfer_step [OF s target st n p(1, 2) a', of False] show ?thesis unfolding qs by (simp add: Added)
next
  case (Gone g)
  have r: "restored w rs v G qs fs" using st by (simp add: state_ok_def)
  have g: "removable w rs v g" "butlast g \<in> qs" using ok first by (simp_all add: Gone item_ok_def)
  from step_whiteout [OF s target r g] obtain fs' where
    e: "extract_entry ExtractFile False ''/'' (whiteout_header (conf w) (abs_path (rs @ g))) (v\<lparr>files := fs\<rparr>) = (Inr [], v\<lparr>files := fs'\<rparr>)"
    "restored w rs v (insert g G) qs fs'" by blast
  have "t' = t\<lparr>entries := entries t @ [whiteout_header (conf w) (abs_path (rs @ g))]\<rparr>" using a by (simp add: Gone put_item_def Whiteout_def)
  with e st first show ?thesis
    by (intro exI [of _ "[whiteout_header (conf w) (abs_path (rs @ g))]"] exI [of _ "[[]]"] exI [of _ fs'])
      (simp add: Gone state_ok_def table_ok_def sbind_def sret_def)
qed

lemma transfer_all:
  assumes s: "source_ok w rs" and target: "RootDir (conf v) = ''/''"
  shows "state_ok w rs v G qs t fs \<Longrightarrow> sfold (put_item w rs) its t = (Inr u, t') \<Longrightarrow> list_all (item_ok w rs v) its \<Longrightarrow> parents_first qs its \<Longrightarrow>
    \<exists>es out fs'. entries t' = entries t @ es \<and>
      smap (extract_entry ExtractFile False ''/'') es (v\<lparr>files := fs\<rparr>) = (Inr out, v\<lparr>files := fs'\<rparr>) \<and>
      state_ok w rs v (G \<union> gone its) (qs \<union> {p \<in> added its. \<not> is_sock w (rs @ p)}) t' fs'"
proof (induction its arbitrary: G qs t fs)
  case Nil
  then show ?case by (auto intro!: exI [of _ "[]"] simp: sret_def)
next
  case (Cons it its)
  obtain u1 t1 where a: "put_item w rs it t = (Inr u1, t1)" and rest: "sfold (put_item w rs) its t1 = (Inr u, t')"
    using Cons.prems(2) by (auto split: prod.splits sum.splits)
  have ok: "item_ok w rs v it" "list_all (item_ok w rs v) its" using Cons.prems(3) by simp_all
  let ?G = "G \<union> gone [it]" and ?q = "qs \<union> {p \<in> added [it]. \<not> is_sock w (rs @ p)}"
  from transfer_item [OF s target Cons.prems(1) ok(1) Cons.prems(4) ok(2) a] obtain es out fs1 where e: "entries t1 = entries t @ es"
    "smap (extract_entry ExtractFile False ''/'') es (v\<lparr>files := fs\<rparr>) = (Inr out, v\<lparr>files := fs1\<rparr>)" "state_ok w rs v ?G ?q t1 fs1"
    "parents_first ?q its" by blast
  from Cons.IH [OF e(3) rest ok(2) e(4)] obtain es' out' fs' where e': "entries t' = entries t1 @ es'"
    "smap (extract_entry ExtractFile False ''/'') es' (v\<lparr>files := fs1\<rparr>) = (Inr out', v\<lparr>files := fs'\<rparr>)"
    "state_ok w rs v (?G \<union> gone its) (?q \<union> {p \<in> added its. \<not> is_sock w (rs @ p)}) t' fs'" by blast
  have "?G \<union> gone its = G \<union> gone (it # its)" "?q \<union> {p \<in> added its. \<not> is_sock w (rs @ p)} = qs \<union> {p \<in> added (it # its). \<not> is_sock w (rs @ p)}"
    by (cases it; auto)+
  with e(1) e' smap_append_Inr [OF e(2) e'(2)] show ?case
    by (intro exI [of _ "es @ es'"] exI [of _ "out @ out'"] exI [of _ fs']) simp
qed


subsection \<open>What \<open>writeToTar\<close> writes\<close>

lemma parents_first_snoc:
  "parents_first qs (its @ [Added p]) \<longleftrightarrow> parents_first qs its \<and> p \<notin> qs \<union> added its \<and> (p = [] \<or> butlast p \<in> qs \<union> added its)"
  "parents_first qs (its @ [Gone g]) \<longleftrightarrow> parents_first qs its \<and> butlast g \<in> qs \<union> added its"
  by (induction qs its rule: parents_first.induct) auto

text \<open>The tar holds the items \<open>its\<close>, in this order.\<close>

definition wrote :: "world \<Rightarrow> string list \<Rightarrow> item list \<Rightarrow> tar_state \<Rightarrow> bool" where
  "wrote w rs its st \<longleftrightarrow> sfold (put_item w rs) its NewTar = (Inr (), tar st) \<and> parents_first {} its \<and>
     (\<forall>p \<in> added its. comps_ok p) \<and> (\<forall>f. gm_has (addedPaths st) f \<longleftrightarrow> f \<in> (\<lambda>p. abs_path (rs @ p)) ` added its)"

lemma wrote_add_path:
  assumes j: "wrote w rs its st" and rs: "comps_ok rs" and p: "comps_ok p" "p = [] \<or> butlast p \<in> added its"
    and a: "add_path w (abs_path (rs @ p)) st = (Inr u, st')"
  shows "\<exists>its'. wrote w rs its' st' \<and> added its' = insert p (added its) \<and> gone its' = gone its"
proof (cases "gm_has (addedPaths st) (abs_path (rs @ p))")
  case True
  then obtain q where q: "q \<in> added its" "abs_path (rs @ p) = abs_path (rs @ q)" using j by (auto simp: wrote_def)
  then have "q = p" using abs_path_inj [of "rs @ p" "rs @ q"] j p(1) rs by (auto simp: wrote_def)
  with True a j q(1) show ?thesis by (auto simp: add_path_def)
next
  case False
  then obtain t' where t': "put_item w rs (Added p) (tar st) = (Inr (), t')"
    and st': "st' = st\<lparr>tar := t', addedPaths := gm_set (addedPaths st) (abs_path (rs @ p)) True\<rparr>"
    using a by (auto simp: add_path_def put_item_def split: prod.splits sum.splits)
  have "p \<notin> added its" using False j by (auto simp: wrote_def)
  then have "wrote w rs (its @ [Added p]) st'"
    using j p t' sfold_Inr_append [of "put_item w rs" _ NewTar _ _ _ _ t'] by (auto simp: wrote_def st' parents_first_snoc)
  then show ?thesis by (intro exI [of _ "its @ [Added p]"]) simp
qed

lemma wrote_chain:
  assumes rs: "comps_ok rs" and cs: "comps_ok cs"
  shows "wrote w rs its st \<Longrightarrow> m \<le> Suc (length cs) \<Longrightarrow> sfold (add_path w) (map (\<lambda>j. abs_path (rs @ take j cs)) [0..<m]) st = (Inr u, st') \<Longrightarrow>
    \<exists>its'. wrote w rs its' st' \<and> added its' = added its \<union> (\<lambda>j. take j cs) ` {..<m} \<and> gone its' = gone its"
proof (induction m arbitrary: u st')
  case (Suc m)
  from Suc.prems(3) obtain v st1 where c: "sfold (add_path w) (map (\<lambda>j. abs_path (rs @ take j cs)) [0..<m]) st = (Inr v, st1)"
    and a: "add_path w (abs_path (rs @ take m cs)) st1 = (Inr (), st')"
    by (auto simp: sfold_append split: prod.splits sum.splits)
  obtain its1 where its1: "wrote w rs its1 st1" "added its1 = added its \<union> (\<lambda>j. take j cs) ` {..<m}" "gone its1 = gone its"
    using Suc.IH [OF Suc.prems(1) _ c] Suc.prems(2) by auto
  have "take m cs = [] \<or> butlast (take m cs) \<in> added its1"
  proof (cases m)
    case (Suc k)
    then have "butlast (take m cs) = take k cs" using Suc.prems(2) by (simp add: butlast_take)
    with Suc its1(2) show ?thesis by auto
  qed simp
  moreover have "comps_ok (take m cs)" using cs by (auto simp: list_all_iff dest: in_set_takeD)
  ultimately obtain its' where "wrote w rs its' st'" "added its' = insert (take m cs) (added its1)" "gone its' = gone its1"
    using wrote_add_path [OF its1(1) rs _ _ a] by blast
  with its1 show ?case by (intro exI [of _ its']) (auto simp: lessThan_Suc)
qed auto

lemma parents_below:
  assumes "RootDir (conf w) = abs_path rs" and "comps_ok rs" and "comps_ok cs"
  shows "parents (conf w) (abs_path (rs @ cs)) = Inr (map (\<lambda>j. abs_path (rs @ take j cs)) [0..<max (length cs) 1])"
proof -
  have "map (\<lambda>i. abs_path (take i (rs @ cs))) [length rs..<max (length (rs @ cs)) (Suc (length rs))] =
      map (\<lambda>j. abs_path (rs @ take j cs)) [0..<max (length cs) 1]"
    by (rule nth_equalityI) auto
  with ParentDirectories_eq [of "conf w" rs "rs @ cs"] assms show ?thesis by (simp add: parents_def)
qed

lemma take_image_prefixes: "(\<lambda>j. take j cs) ` {..<max (length cs) 1} = set (prefixes (butlast cs))"
proof (rule set_eqI)
  fix p
  show "p \<in> (\<lambda>j. take j cs) ` {..<max (length cs) 1} \<longleftrightarrow> p \<in> set (prefixes (butlast cs))"
  proof
    assume "p \<in> (\<lambda>j. take j cs) ` {..<max (length cs) 1}"
    then obtain j where j: "j < max (length cs) 1" "p = take j cs" by blast
    then have "p = take j (butlast cs)" by (cases cs rule: rev_cases) auto
    then show "p \<in> set (prefixes (butlast cs))" by (simp add: take_is_prefix)
  next
    assume "p \<in> set (prefixes (butlast cs))"
    then have p: "prefix p (butlast cs)" by simp
    then have "length p \<le> length (butlast cs)" by (rule prefix_length_le)
    moreover have "p = take (length p) (butlast cs)" using p by (auto simp: prefix_def)
    ultimately have "length p < max (length cs) 1" "p = take (length p) cs" by (cases cs rule: rev_cases; simp)+
    then show "p \<in> (\<lambda>j. take j cs) ` {..<max (length cs) 1}" by blast
  qed
qed

lemma prefixes_butlast: "set (prefixes cs) = insert cs (set (prefixes (butlast cs)))"
  by (cases cs rule: rev_cases) (auto simp: prefix_snoc)

lemma wrote_parents:
  assumes root: "RootDir (conf w) = abs_path rs" "comps_ok rs" and cs: "comps_ok cs" and j: "wrote w rs its st"
    and a: "addParentDirectories w (abs_path (rs @ cs)) st = (Inr u, st')"
  shows "\<exists>its'. wrote w rs its' st' \<and> added its' = added its \<union> set (prefixes (butlast cs)) \<and> gone its' = gone its"
proof -
  have "sfold (add_path w) (map (\<lambda>j. abs_path (rs @ take j cs)) [0..<max (length cs) 1]) st = (Inr u, st')"
    using a by (simp add: addParentDirectories_def parents_below [OF root cs] sreads_def sbind_def)
  from wrote_chain [OF root(2) cs j _ this] show ?thesis unfolding take_image_prefixes [symmetric] by simp
qed

lemma wrote_file:
  assumes root: "RootDir (conf w) = abs_path rs" "comps_ok rs" and cs: "comps_ok cs" and j: "wrote w rs its st"
    and a: "write_file w (abs_path (rs @ cs)) st = (Inr u, st')"
  shows "\<exists>its'. wrote w rs its' st' \<and> added its' = added its \<union> set (prefixes cs) \<and> gone its' = gone its"
proof -
  from a obtain v st1 where c: "addParentDirectories w (abs_path (rs @ cs)) st = (Inr v, st1)"
    and l: "add_path w (abs_path (rs @ cs)) st1 = (Inr u, st')"
    by (auto simp: write_file_def sthen_def sbind_def split: prod.splits sum.splits)
  obtain its1 where its1: "wrote w rs its1 st1" "added its1 = added its \<union> set (prefixes (butlast cs))" "gone its1 = gone its"
    using wrote_parents [OF root cs j c] by blast
  then have "cs = [] \<or> butlast cs \<in> added its1" by simp
  from wrote_add_path [OF its1(1) root(2) cs this l] its1 show ?thesis by (auto simp: prefixes_butlast [of cs])
qed

lemma wrote_whiteout:
  assumes s: "source_ok w rs" and g: "removable w rs v g" and j: "wrote w rs its st"
    and a: "write_whiteout w (abs_path (rs @ g)) st = (Inr u, st')" and d: "parentPathIncludesNonDirectory w (abs_path (rs @ g)) = Inr False"
  shows "\<exists>its'. wrote w rs its' st' \<and> added its' = added its \<union> set (prefixes (butlast g)) \<and> gone its' = insert g (gone its)"
proof -
  have ok: "comps_ok g" using g by (simp add: removable_def)
  from a obtain v st1 where c: "addParentDirectories w (abs_path (rs @ g)) st = (Inr v, st1)"
    and l: "on_tar (Whiteout w (abs_path (rs @ g))) st1 = (Inr u, st')"
    by (auto simp: write_whiteout_def d sthen_def sreads_def sbind_def split: prod.splits sum.splits)
  obtain its1 where its1: "wrote w rs its1 st1" "added its1 = added its \<union> set (prefixes (butlast g))" "gone its1 = gone its"
    using wrote_parents [OF source_okD(3, 5) [OF s] ok j c] by blast
  obtain t where t: "put_item w rs (Gone g) (tar st1) = (Inr u, t)" "st' = st1\<lparr>tar := t\<rparr>"
    using l by (auto simp: on_tar_def put_item_def split: prod.splits)
  then have "wrote w rs (its1 @ [Gone g]) st'"
    using its1 sfold_Inr_append [of "put_item w rs" _ NewTar _ _ _ _ t] by (auto simp: wrote_def parents_first_snoc)
  with its1 show ?thesis by (intro exI [of _ "its1 @ [Gone g]"]) auto
qed

text \<open>The parents are there and directories, so nothing fails and no whiteout is left out.\<close>

lemma add_path_total:
  assumes "fs_wf (files w)" and "lookup (files w) p = Some n"
  shows "\<exists>st'. add_path w (abs_path p) st = (Inr (), st')"
proof -
  obtain i where "gm_get (dents (files w)) p = Some i" using assms(2) by (auto simp: lookup_def split: option.splits)
  then have "lstat_ino (files w) (abs_path p) = Inr (i, n)"
    using locate_existing [OF assms, of False] assms(2) by (simp add: lstat_ino_def)
  then show ?thesis by (auto simp: add_path_def AddFileToTar_def split: prod.splits sum.splits)
qed

lemma parents_total:
  assumes s: "source_ok w rs" and cs: "comps_ok cs" and ex: "\<And>p. prefix p (butlast cs) \<Longrightarrow> lookup (files w) (rs @ p) \<noteq> None"
  shows "\<exists>st'. addParentDirectories w (abs_path (rs @ cs)) st = (Inr (), st')"
proof -
  note src = source_okD [OF s]
  let ?c = "map (\<lambda>j. abs_path (rs @ take j cs)) [0..<max (length cs) 1]"
  have "\<exists>s'. add_path w f s = (Inr (), s')" if f: "f \<in> set ?c" for f s
  proof -
    obtain j where j: "j < max (length cs) 1" "f = abs_path (rs @ take j cs)" using f by auto
    then have "take j cs \<in> set (prefixes (butlast cs))" using take_image_prefixes [of cs] by blast
    then show ?thesis using add_path_total [OF src(6), of "rs @ take j cs"] ex [of "take j cs"] j(2) by auto
  qed
  then show ?thesis using sfold_total [of ?c "add_path w" st]
    by (simp add: addParentDirectories_def parents_below [OF src(3, 5) cs] sreads_def sbind_def)
qed

lemma write_file_total:
  assumes s: "source_ok w rs" and cs: "comps_ok cs" and ex: "\<And>p. prefix p cs \<Longrightarrow> lookup (files w) (rs @ p) \<noteq> None"
  shows "\<exists>st'. write_file w (abs_path (rs @ cs)) st = (Inr (), st')"
proof -
  have "prefix p cs" if "prefix p (butlast cs)" for p using that prefixes_butlast [of cs] by auto
  with parents_total [OF s cs, of st] ex obtain st1 where "addParentDirectories w (abs_path (rs @ cs)) st = (Inr (), st1)" by blast
  moreover obtain st' where "add_path w (abs_path (rs @ cs)) st1 = (Inr (), st')"
    using add_path_total [OF source_okD(6) [OF s], of "rs @ cs"] ex [of cs] by auto
  ultimately show ?thesis by (simp add: write_file_def sthen_def sbind_def)
qed

lemma write_whiteout_total:
  assumes s: "source_ok w rs" and g: "removable w rs v g"
  shows "parentPathIncludesNonDirectory w (abs_path (rs @ g)) = Inr False" and "\<exists>st'. write_whiteout w (abs_path (rs @ g)) st = (Inr (), st')"
proof -
  note src = source_okD [OF s]
  have ok: "comps_ok g" and d: "is_dir_node (lookup (files w) (rs @ butlast g))" using g by (simp_all add: removable_def)
  then obtain m where m: "lookup (files w) (rs @ butlast g) = Some m" by (auto simp: is_dir_node_def split: option.splits)
  have dirs: "is_dir_node (lookup (files w) (rs @ p))" if p: "prefix p (butlast g)" for p
    using existing_parent_dir(1) [OF src(6) m, of "rs @ p"] d p by (cases "p = butlast g") (auto simp: strict_prefix_def)
  have all: "first_non_dir (files w) (map (\<lambda>j. abs_path (rs @ take j g)) js) = Inr False" if js: "set js \<subseteq> {..<max (length g) 1}" for js
    using js
  proof (induction js)
    case (Cons j js)
    then have "take j g \<in> set (prefixes (butlast g))" using take_image_prefixes [of g] by auto
    then obtain n where "lookup (files w) (rs @ take j g) = Some n" "is_dir n"
      using dirs [of "take j g"] by (auto simp: is_dir_node_def is_dir_def split: option.splits)
    with Cons show ?case by (simp add: lstat_existing [OF src(6)])
  qed simp
  have "set [0..<max (length g) 1] \<subseteq> {..<max (length g) 1}" by (simp add: atLeast0LessThan)
  from all [OF this] show d: "parentPathIncludesNonDirectory w (abs_path (rs @ g)) = Inr False"
    by (simp add: parentPathIncludesNonDirectory_def parents_below [OF src(3, 5) ok])
  have "lookup (files w) (rs @ p) \<noteq> None" if "prefix p (butlast g)" for p using dirs [OF that] by (auto simp: is_dir_node_def split: option.splits)
  from parents_total [OF s ok this] obtain st1 where "addParentDirectories w (abs_path (rs @ g)) st = (Inr (), st1)" by blast
  then show "\<exists>st'. write_whiteout w (abs_path (rs @ g)) st = (Inr (), st')"
    by (simp add: write_whiteout_def d sthen_def sbind_def sreads_def on_tar_def Whiteout_def)
qed

lemma wrote_fold:
  assumes "\<And>x its st st'. x \<in> set xs \<Longrightarrow> wrote w rs its st \<Longrightarrow> f x st = (Inr (), st') \<Longrightarrow>
    \<exists>its'. wrote w rs its' st' \<and> added its' = added its \<union> A x \<and> gone its' = gone its \<union> B x"
  shows "wrote w rs its st \<Longrightarrow> sfold f xs st = (Inr (), st') \<Longrightarrow>
    \<exists>its'. wrote w rs its' st' \<and> added its' = added its \<union> (\<Union>x \<in> set xs. A x) \<and> gone its' = gone its \<union> (\<Union>x \<in> set xs. B x)"
  using assms
proof (induction xs arbitrary: its st)
  case (Cons x xs)
  then obtain st1 where a: "f x st = (Inr (), st1)" and r: "sfold f xs st1 = (Inr (), st')" by (auto split: prod.splits sum.splits)
  obtain its1 where its1: "wrote w rs its1 st1" "added its1 = added its \<union> A x" "gone its1 = gone its \<union> B x"
    using Cons.prems(3) [OF _ Cons.prems(1) a] by auto
  have "\<exists>its'. wrote w rs its' st' \<and> added its' = added its1 \<union> (\<Union>x \<in> set xs. A x) \<and> gone its' = gone its1 \<union> (\<Union>x \<in> set xs. B x)"
    by (rule Cons.IH [OF its1(1) r]) (use Cons.prems(3) in auto)
  with its1 show ?case by (auto simp: Un_assoc)
qed auto

subsection \<open>The layer and the files\<close>

definition target_ok :: "world \<Rightarrow> bool" where
  "target_ok v \<longleftrightarrow> RootDir (conf v) = ''/'' \<and> fs_ok (files v) \<and> one_name (files v)"

text \<open>The paths a layer holds: the files, the directories above them and those above what is gone\<close>

definition layer_paths :: "string list list \<Rightarrow> string list list \<Rightarrow> string list list" where
  "layer_paths css gs = concat (map prefixes (css @ map butlast gs))"

lemma tar_of_items:
  assumes s: "source_ok w rs" and ok: "list_all (sendable w rs v) (layer_paths css gs)" "list_all (removable w rs v) gs"
  shows "\<exists>its t. tar_of w (map (\<lambda>cs. abs_path (rs @ cs)) css) (map (\<lambda>g. abs_path (rs @ g)) gs) = Inr (entries t) \<and> parents_first {} its \<and>
    sfold (put_item w rs) its NewTar = (Inr (), t) \<and> added its = set (layer_paths css gs) \<and> gone its = set gs"
proof -
  let ?f = "\<lambda>cs. write_file w (abs_path (rs @ cs))" and ?g = "\<lambda>g. write_whiteout w (abs_path (rs @ g))"
  note src = source_okD [OF s]
  have rem: "removable w rs v g" if "g \<in> set gs" for g using ok(2) that by (simp add: list_all_iff)
  have send: "sendable w rs v p" if "cs \<in> set css" "prefix p cs" for p cs
  proof -
    have "p \<in> set (layer_paths css gs)" using that by (auto simp: layer_paths_def)
    with ok(1) show ?thesis by (simp add: list_all_iff)
  qed
  then have ex: "comps_ok cs" "\<And>p. prefix p cs \<Longrightarrow> lookup (files w) (rs @ p) \<noteq> None" if "cs \<in> set css" for cs
    using that by (fastforce simp: sendable_def split: option.splits)+
  obtain st1 where st1: "sfold ?g gs new_tar_state = (Inr (), st1)" using sfold_total [of gs ?g] write_whiteout_total(2) [OF s rem] by blast
  have "\<exists>st'. ?f cs st = (Inr (), st')" if "cs \<in> set css" for cs st using write_file_total [OF s ex(1), of cs st] ex(2) [OF that] that by blast
  then obtain st2 where st2: "sfold ?f css st1 = (Inr (), st2)" using sfold_total [of css ?f] by blast
  have "wrote w rs [] new_tar_state" by (simp add: wrote_def new_tar_state_def)
  from wrote_fold [OF _ this st1, where A = "\<lambda>g. set (prefixes (butlast g))" and B = "\<lambda>g. {g}"] wrote_whiteout [OF s rem _ _ write_whiteout_total(1) [OF s rem]]
  obtain its1 where its1: "wrote w rs its1 st1" "added its1 = (\<Union>g \<in> set gs. set (prefixes (butlast g)))" "gone its1 = set gs" by auto
  from wrote_fold [OF _ its1(1) st2, where A = "\<lambda>cs. set (prefixes cs)" and B = "\<lambda>_. {}"] wrote_file [OF src(3, 5) ex(1)]
  obtain its where its: "wrote w rs its st2" "added its = added its1 \<union> (\<Union>cs \<in> set css. set (prefixes cs))" "gone its = gone its1" by auto
  have "tar_of w (map (\<lambda>cs. abs_path (rs @ cs)) css) (map (\<lambda>g. abs_path (rs @ g)) gs) = Inr (entries (tar st2))"
    using st1 st2 by (simp add: tar_of_def writeToTar_def sfold_map sthen_def sbind_def)
  moreover have "added its = set (layer_paths css gs)" using its(2) its1(2) by (auto simp: layer_paths_def)
  ultimately show ?thesis using its its1(3) by (intro exI [of _ its] exI [of _ "tar st2"]) (simp add: wrote_def)
qed

lemma unpack_items:
  assumes s: "source_ok w rs" and init: "InitIgnoreList (v\<lparr>volumes := []\<rparr>) = (Inr u, v')" and target: "target_ok v'"
    and t: "parents_first {} its" "sfold (put_item w rs) its NewTar = (Inr (), t)"
    and ok: "\<And>p. p \<in> added its \<Longrightarrow> sendable w rs v' p" "\<And>g. g \<in> gone its \<Longrightarrow> removable w rs v' g"
  shows "\<exists>out fs. GetFSFromLayers (Some ExtractFile) False ''/'' [Inr (entries t)] v = (Inr out, v'\<lparr>files := fs\<rparr>) \<and>
    restored w rs v' (gone its) {p \<in> added its. \<not> is_sock w (rs @ p)} fs"
proof -
  have st: "state_ok w rs v' {} {} NewTar (files v')"
    using target by (simp add: state_ok_def restored_def table_ok_def target_ok_def NewTar_def)
  have "item_ok w rs v' it" if "it \<in> set its" for it
    by (rule item.exhaust [of it]) (use that ok in \<open>auto simp: item_ok_def added_def gone_def\<close>)
  then have items: "list_all (item_ok w rs v') its" by (simp add: list_all_iff)
  have root: "RootDir (conf v') = ''/''" using target by (simp add: target_ok_def)
  from transfer_all [OF s root st t(2) items t(1)] obtain out fs where
    o: "smap (extract_entry ExtractFile False ''/'') (entries t) v' = (Inr out, v'\<lparr>files := fs\<rparr>)"
    "state_ok w rs v' (gone its) {p \<in> added its. \<not> is_sock w (rs @ p)} t fs" by (auto simp: NewTar_def)
  then have "GetFSFromLayers (Some ExtractFile) False ''/'' [Inr (entries t)] v = (Inr (concat out), v'\<lparr>files := fs\<rparr>)"
    using init by (simp add: GetFSFromLayers_def sthen_def sbind_def smodify_def swrap_def sret_def)
  with o(2) show ?thesis by (auto simp: state_ok_def)
qed

text \<open>C4. A layer brings back the files it was made from. Let the snapshot write files below the build root and whiteouts for removed
  paths to a tar stream, and let \<open>GetFSFromLayers\<close> unpack the stream over another file system that can receive them (nothing of
  the wrong kind in the way, owners that can be set, paths that are not ignored). Writing and unpacking succeed. Afterwards every file and
  every directory above one is there: plain files with content, mode, owner, times and capability, directories with mode and
  owner, symbolic links with their target. Two of them are names of one file exactly if they were before. Nothing is left of
  the removed paths and below them, and nothing else has changed. Sockets are left out.\<close>

theorem layer_restores_files:
  assumes "source_ok w rs" and "InitIgnoreList (v\<lparr>volumes := []\<rparr>) = (Inr u, v')" and "target_ok v'"
    and "list_all (sendable w rs v') (layer_paths css gs)" and "list_all (removable w rs v') gs"
  shows "\<exists>es out fs. tar_of w (map (\<lambda>cs. abs_path (rs @ cs)) css) (map (\<lambda>g. abs_path (rs @ g)) gs) = Inr es \<and>
    GetFSFromLayers (Some ExtractFile) False ''/'' [Inr es] v = (Inr out, v'\<lparr>files := fs\<rparr>) \<and>
    restored w rs v' (set gs) {p \<in> set (layer_paths css gs). \<not> is_sock w (rs @ p)} fs"
proof -
  from tar_of_items [OF assms(1, 4, 5)] obtain its t where
    t: "tar_of w (map (\<lambda>cs. abs_path (rs @ cs)) css) (map (\<lambda>g. abs_path (rs @ g)) gs) = Inr (entries t)"
    "parents_first {} its" "sfold (put_item w rs) its NewTar = (Inr (), t)" "added its = set (layer_paths css gs)" "gone its = set gs" by blast
  from unpack_items [OF assms(1-3) t(2, 3)] assms(4, 5) t(1) show ?thesis by (auto simp: t(4, 5) list_all_iff)
qed

definition twin_fs :: filesys where
  "twin_fs = demo_fs\<lparr>dents := dents demo_fs @ [([''box'', ''usr'', ''ash''], 4)]\<rparr>"

definition receiver :: world where
  "receiver = (demo_world ''/'')\<lparr>files := \<lparr>dents = [([], 0), ([''proc''], 1), ([''proc'', ''self''], 2), ([''proc'', ''self'', ''mountinfo''], 3),
     ([''usr''], 4), ([''usr'', ''old''], 5), ([''usr'', ''old'', ''a''], 6)],
     inodes = [(0, new_inode FDir 448), (1, new_inode FDir 493), (2, new_inode FDir 493), (3, new_inode (FReg []) 292),
       (4, new_inode FDir 448), (5, new_inode FDir 493), (6, new_inode (FReg ''y'') 420)],
     next_ino = 7, userns = None\<rparr>\<rparr>"

theorem layer_restores_files_witness:
  "\<exists>es out fs v'. tar_of ((demo_world ''/box'')\<lparr>files := twin_fs\<rparr>) [''/box/usr/sh'', ''/box/bin'', ''/box/usr/ash''] [''/box/usr/old''] = Inr es \<and>
     GetFSFromLayers (Some ExtractFile) False ''/'' [Inr es] receiver = (Inr out, v'\<lparr>files := fs\<rparr>) \<and>
     lookup fs [''usr'', ''sh''] = Some (new_inode (FReg ''x'') 493) \<and> ino fs [''usr'', ''sh''] = ino fs [''usr'', ''ash''] \<and>
     lookup fs [''usr'', ''old'', ''a''] = None"
proof -
  let ?w = "(demo_world ''/box'')\<lparr>files := twin_fs\<rparr>" and ?rs = "[''box'']" and ?css = "[[''usr'', ''sh''], [''bin''], [''usr'', ''ash'']]"
  let ?gs = "[[''usr'', ''old'']]" and ?i = "InitIgnoreList (receiver\<lparr>volumes := []\<rparr>)"
  have "is_ok (fst ?i)" by code_simp
  then obtain u v' where i: "?i = (Inr u, v')" by (cases ?i) (auto simp: is_ok_def split: sum.splits)
  have s: "source_ok ?w ?rs" by code_simp
  have "target_ok (snd ?i)" "list_all (sendable ?w ?rs (snd ?i)) (layer_paths ?css ?gs)" "list_all (removable ?w ?rs (snd ?i)) ?gs" by code_simp+
  then have t: "target_ok v'" "list_all (sendable ?w ?rs v') (layer_paths ?css ?gs)" "list_all (removable ?w ?rs v') ?gs"
    by (simp_all only: i snd_conv)
  have names: "map (\<lambda>cs. abs_path (?rs @ cs)) ?css = [''/box/usr/sh'', ''/box/bin'', ''/box/usr/ash'']"
    "map (\<lambda>g. abs_path (?rs @ g)) ?gs = [''/box/usr/old'']" by code_simp+
  let ?P = "{p \<in> set (layer_paths ?css ?gs). \<not> is_sock ?w (?rs @ p)}"
  from layer_restores_files [OF s i t] obtain es out fs where
    e: "tar_of ?w [''/box/usr/sh'', ''/box/bin'', ''/box/usr/ash''] [''/box/usr/old''] = Inr es"
      "GetFSFromLayers (Some ExtractFile) False ''/'' [Inr es] receiver = (Inr out, v'\<lparr>files := fs\<rparr>)" "restored ?w ?rs v' (set ?gs) ?P fs"
    unfolding names by blast
  have "list_all (\<lambda>p. p \<in> set (layer_paths ?css ?gs) \<and> \<not> is_sock ?w (?rs @ p)) [[''usr'', ''sh''], [''usr'', ''ash'']]"
    "[''usr'', ''old'', ''a''] \<notin> set (layer_paths ?css ?gs)" by code_simp+
  then have P: "[''usr'', ''sh''] \<in> ?P" "[''usr'', ''ash''] \<in> ?P" "[''usr'', ''old'', ''a''] \<notin> ?P" by simp_all
  have "lookup (files ?w) (?rs @ [''usr'', ''sh'']) = Some (new_inode (FReg ''x'') 493)" by code_simp
  moreover obtain n m where "lookup (files ?w) (?rs @ [''usr'', ''sh'']) = Some n" "lookup fs [''usr'', ''sh''] = Some m" "restores n m"
    using e(3) P(1) unfolding restored_def by blast
  ultimately have "lookup fs [''usr'', ''sh''] = Some (new_inode (FReg ''x'') 493)" by (auto simp: restores_def)
  moreover have "ino (files ?w) (?rs @ [''usr'', ''sh'']) = ino (files ?w) (?rs @ [''usr'', ''ash''])" by code_simp
  with e(3) P have "ino fs [''usr'', ''sh''] = ino fs [''usr'', ''ash'']" unfolding restored_def by blast
  moreover have "lookup fs [''usr'', ''old'', ''a''] = None" using e(3) P(3) unfolding restored_def by simp
  ultimately show ?thesis using e(1, 2) by blast
qed

end
