(* ===== verification/Layer_Changes.thy ===== *)
theory Layer_Changes
  imports Layer_Roundtrip
begin

text \<open>
  A snapshot carries the changes: the layer that \<open>TakeSnapshotFS\<close> (\<open>pkg/snapshot/snapshot.go\<close>) writes after a full scan, unpacked by
  \<open>GetFSFromLayers\<close> (\<open>pkg/util/fs_util.go\<close>) over the file system of the scan before, gives the file system of
  the snapshot. This joins the layered map, the walk, the whiteouts, the tar stream and its extraction.
\<close>

subsection \<open>What a scan lists\<close>

lemma scan_difference:
  assumes sc: "scannable w h v s" and inv: "lm_inv (layers s)" and r: "scanFullFilesystem w h s = (Inr (fls, whs), s1)"
  shows "set fls \<subseteq> set (scan_paths w)"
    and "\<And>p. p \<in> set (scan_paths w) \<Longrightarrow> lm_image (layers s) p \<noteq> Some (v p) \<Longrightarrow> p \<in> set fls"
    and "\<exists>del. whs = sort (removeObsoleteWhiteouts del) \<and> (\<forall>p. gm_has del p \<longleftrightarrow> p \<notin> set (scan_paths w) \<and> lm_image (layers s) p \<noteq> None)"
proof -
  let ?del = "gm_del_all (GetCurrentPaths (lm_Snapshot (layers s))) (scan_paths w)"
  note sn = lm_Snapshot_spec [OF inv]
  obtain out where out: "ResolvePaths w (filter (\<lambda>p. lm_image (layers s) p \<noteq> Some (v p)) (scan_paths w)) (snap_ignorelist s) = Inr out"
    and fls: "fls = sort (filter (\<lambda>p. \<not> CheckIgnoreList w p) out)" and whs: "whs = sort (removeObsoleteWhiteouts ?del)"
    using scan_stages [OF assms] by blast
  show "set fls \<subseteq> set (scan_paths w)"
    using resolved_exist(2) [OF sc _ out] scan_pathsI [OF scannableD(1,4) [OF sc]] by (fastforce simp: fls)
  show "p \<in> set fls" if "p \<in> set (scan_paths w)" "lm_image (layers s) p \<noteq> Some (v p)" for p
    using that resolved_exist(1) [OF sc _ out] scannableD(6) [OF sc that(1)] by (auto simp: fls)
  have "gm_has ?del p \<longleftrightarrow> p \<notin> set (scan_paths w) \<and> lm_image (layers s) p \<noteq> None" for p
    using GetCurrentPaths_iff [OF sn(1), of p] sn(2) by (auto simp: gm_has_def)
  with whs show "\<exists>del. whs = sort (removeObsoleteWhiteouts del) \<and> (\<forall>p. gm_has del p \<longleftrightarrow> p \<notin> set (scan_paths w) \<and> lm_image (layers s) p \<noteq> None)"
    by blast
qed

text \<open>The scan meets a path exactly if it exists and is not ignored; nothing below an ignored path is met.\<close>

lemma CheckIgnoreList_below:
  assumes "ignorelist_ok w" and "comps_ok cs"
  shows "CheckIgnoreList w (abs_path cs) \<longleftrightarrow>
    (\<exists>e \<in> set (ignorelist w). prefix (abs_comps (Path e)) cs \<and> (PrefixMatchOnly e \<longrightarrow> abs_comps (Path e) \<noteq> cs))"
proof -
  have "hasCleanedFilepathPrefix (abs_path cs) (Path e) (PrefixMatchOnly e) \<longleftrightarrow>
      prefix (abs_comps (Path e)) cs \<and> (PrefixMatchOnly e \<longrightarrow> abs_comps (Path e) \<noteq> cs)" if "e \<in> set (ignorelist w)" for e
  proof -
    let ?c = "abs_comps (Path e)"
    have e: "Path e = abs_path ?c" "?c \<noteq> []" "list_all literal ?c" using assms(1) that by (auto simp: ignorelist_ok_def list_all_iff Let_def)
    have "comps_ok ?c" by (simp add: abs_comps_ok)
    from hasCleanedFilepathPrefix_abs [OF this assms(2) e(3, 2), of "PrefixMatchOnly e"] e(1) show ?thesis by simp
  qed
  then show ?thesis
    using assms(2) by (auto simp: CheckIgnoreList_def CheckCleanedPathAgainstIgnoreList_def CheckCleanedPathAgainstProvidedIgnoreList_def list_ex_iff)
qed

definition met :: "world \<Rightarrow> string list set" where
  "met w = {cs. lookup (files w) cs \<noteq> None \<and> \<not> CheckIgnoreList w (abs_path cs)}"

lemma met_comps: "fs_wf (files w) \<Longrightarrow> cs \<in> met w \<Longrightarrow> comps_ok cs"
  using fs_wf_entry(1) [of "files w" cs] by (auto simp: met_def)

lemma scan_paths_met:
  assumes "scannable w h v s"
  shows "p \<in> set (scan_paths w) \<longleftrightarrow> p \<in> abs_path ` met w"
  using scan_pathsD [OF scannableD(1) [OF assms], of p] scan_pathsI [OF scannableD(1, 4) [OF assms]] scannableD(6) [OF assms, of p]
  by (auto simp: met_def)

lemma abs_path_met:
  assumes "scannable w h v s" and "comps_ok cs"
  shows "abs_path cs \<in> set (scan_paths w) \<longleftrightarrow> cs \<in> met w"
  using scan_paths_met [OF assms(1)] met_comps [OF scannableD(1) [OF assms(1)]] abs_path_inj assms(2) by blast

lemma met_prefix:
  assumes ig: "ignorelist_ok w" and wf: "fs_wf (files w)" and cs: "cs \<in> met w" and ds: "prefix ds cs"
  shows "ds \<in> met w"
proof -
  obtain n where n: "lookup (files w) cs = Some n" using cs by (auto simp: met_def)
  have ok: "comps_ok cs" using met_comps [OF wf cs] .
  then have "comps_ok ds" using ds by (auto simp: prefix_def)
  moreover have "\<not> (prefix e cs \<and> (b \<longrightarrow> e \<noteq> cs)) \<Longrightarrow> \<not> (prefix e ds \<and> (b \<longrightarrow> e \<noteq> ds))" for e b
    using ds by (meson prefix_order.antisym prefix_order.trans)
  ultimately have "\<not> CheckIgnoreList w (abs_path ds)"
    using cs CheckIgnoreList_below [OF ig ok] CheckIgnoreList_below [OF ig, of ds] unfolding met_def by blast
  moreover have "lookup (files w) ds \<noteq> None" using fs_wf_prefix [OF wf n ds] n by (auto simp: is_dir_node_def split: option.splits)
  ultimately show ?thesis by (simp add: met_def)
qed

lemma met_root: "ignorelist_ok w \<Longrightarrow> fs_wf (files w) \<Longrightarrow> [] \<in> met w"
  using fs_wfD(2) [of "files w"] CheckIgnoreList_below [of w "[]"] by (auto simp: met_def ignorelist_ok_def list_all_iff Let_def is_dir_node_def split: option.splits)

subsection \<open>The layer of a second scan\<close>

text \<open>The files and the whiteouts of a scan that follows a scan of the world \<open>w\<close>, as lists of components\<close>

definition differs :: "world \<Rightarrow> (string \<Rightarrow> string) \<Rightarrow> world \<Rightarrow> (string \<Rightarrow> string) \<Rightarrow> string list list \<Rightarrow> string list list \<Rightarrow> bool" where
  "differs w v w' v' css gs \<longleftrightarrow> set css \<subseteq> met w' \<and> set gs \<subseteq> met w - met w' \<and> (\<forall>g \<in> set gs. g \<noteq> [] \<and> butlast g \<in> met w') \<and>
     (\<forall>p \<in> met w' - set css. p \<in> met w \<and> v (abs_path p) = v' (abs_path p)) \<and> (\<forall>p \<in> met w - met w'. \<exists>g \<in> set gs. prefix g p)"

lemma comps_listed:
  assumes "\<And>p. p \<in> set ps \<Longrightarrow> \<exists>cs. p = abs_path cs \<and> comps_ok cs"
  shows "map abs_path (map abs_comps ps) = ps" and "comps_ok p \<Longrightarrow> p \<in> set (map abs_comps ps) \<longleftrightarrow> abs_path p \<in> set ps"
proof -
  have id: "abs_path (abs_comps q) = q" if "q \<in> set ps" for q using assms [OF that] by auto
  then show "map abs_path (map abs_comps ps) = ps" by (simp add: map_idI)
  show "comps_ok p \<Longrightarrow> p \<in> set (map abs_comps ps) \<longleftrightarrow> abs_path p \<in> set ps" using id by (metis abs_comps_abs_path image_iff set_map)
qed

lemma whiteouts_met:
  assumes sc: "scannable w h v s" and sc': "scannable w' h' v' s1"
    and del: "\<And>p. gm_has del p \<longleftrightarrow> p \<in> set (scan_paths w) \<and> p \<notin> set (scan_paths w')" and whs: "set whs = set (removeObsoleteWhiteouts del)"
  shows "map abs_path (map abs_comps whs) = whs"
    and "\<And>g. g \<in> set (map abs_comps whs) \<Longrightarrow> g \<in> met w - met w' \<and> g \<noteq> [] \<and> butlast g \<in> met w'"
    and "\<And>p. p \<in> met w - met w' \<Longrightarrow> \<exists>g \<in> set (map abs_comps whs). prefix g p"
proof -
  note ok = met_comps [OF scannableD(1) [OF sc]] and root = met_root [OF scannableD(4, 1) [OF sc']]
  have whs_iff: "q \<in> set whs \<longleftrightarrow> gm_has del q \<and> \<not> gm_has del (dir q)" for q by (simp add: whs removeObsoleteWhiteouts_def gm_keys_iff)
  have gone: "gm_has del (abs_path p) \<longleftrightarrow> p \<in> met w - met w'" if "comps_ok p" for p
    using del abs_path_met [OF sc that] abs_path_met [OF sc' that] by simp
  have dirs: "\<exists>cs. p = abs_path cs \<and> comps_ok cs" if "gm_has del p" for p using that del scan_paths_met [OF sc] ok by blast
  note l = comps_listed [of whs]
  show "map abs_path (map abs_comps whs) = whs" using l(1) dirs whs_iff by blast
  show "g \<in> met w - met w' \<and> g \<noteq> [] \<and> butlast g \<in> met w'" if gs: "g \<in> set (map abs_comps whs)" for g
  proof -
    have c: "comps_ok g" using gs by auto
    then have q: "abs_path g \<in> set whs" using l(2) [OF _ c] gs dirs whs_iff by blast
    then have gm: "g \<in> met w - met w'" using gone [OF c] whs_iff by simp
    then have ne: "g \<noteq> []" using root by auto
    then obtain ds x where g: "g = ds @ [x]" by (meson rev_exhaust)
    have ds: "ds \<in> met w" using met_prefix [OF scannableD(4, 1) [OF sc], of g ds] gm by (auto simp: g)
    have "\<not> gm_has del (abs_path ds)" using whs_iff q c dir_abs_path [of ds x] by (simp add: g)
    then have "ds \<in> met w'" using gone [of ds] ok [OF ds] ds by blast
    with gm ne show ?thesis by (simp add: g)
  qed
  show "\<exists>g \<in> set (map abs_comps whs). prefix g p" if p: "p \<in> met w - met w'" for p
  proof -
    have c: "comps_ok p" using ok p by blast
    have r: "\<not> gm_has del ''/''" using gone [of "[]"] root by simp
    obtain ds where ds: "abs_path ds \<in> set whs" "prefix ds p" using whiteout_above [OF dirs r _ c] gone [OF c] p whs by blast
    then have "comps_ok ds" using c by (auto simp: prefix_def)
    then have "ds \<in> set (map abs_comps whs)" using l(2) ds(1) dirs whs_iff by blast
    with ds(2) show ?thesis by blast
  qed
qed

lemma scan_differs:
  assumes sc: "scannable w h v s" and sc': "scannable w' h' v' s1" and inv: "lm_inv (layers s1)"
    and im: "lm_image (layers s1) = (\<lambda>p. if p \<in> set (scan_paths w) then Some (v p) else None)"
    and r: "scanFullFilesystem w' h' s1 = (Inr (fls, whs), s2)"
  shows "\<exists>css gs. fls = map abs_path css \<and> whs = map abs_path gs \<and> differs w v w' v' css gs"
proof -
  note d = scan_difference [OF sc' inv r]
  obtain del where whs: "set whs = set (removeObsoleteWhiteouts del)"
    and del: "\<And>p. gm_has del p \<longleftrightarrow> p \<in> set (scan_paths w) \<and> p \<notin> set (scan_paths w')" using d(3) by (auto simp: im split: if_splits)
  note g = whiteouts_met [OF sc sc' del whs]
  note ok = met_comps [OF scannableD(1) [OF sc']]
  have f: "\<exists>cs. p = abs_path cs \<and> comps_ok cs" if "p \<in> set fls" for p using that d(1) scan_paths_met [OF sc'] ok by blast
  note l = comps_listed [OF f]
  let ?css = "map abs_comps fls" and ?gs = "map abs_comps whs"
  have "p \<in> met w \<and> v (abs_path p) = v' (abs_path p)" if p: "p \<in> met w' - set ?css" for p
  proof -
    have c: "comps_ok p" using ok p by blast
    then have "abs_path p \<notin> set fls" "abs_path p \<in> set (scan_paths w')" using l(2) p abs_path_met [OF sc'] by auto
    then have "lm_image (layers s1) (abs_path p) = Some (v' (abs_path p))" using d(2) by blast
    then show ?thesis using abs_path_met [OF sc c] by (auto simp: im split: if_splits)
  qed
  moreover have "p \<in> met w'" if p: "p \<in> set ?css" for p
  proof -
    have c: "comps_ok p" using p by auto
    then have "abs_path p \<in> set (scan_paths w')" using l(2) p d(1) by blast
    then show ?thesis using abs_path_met [OF sc' c] by simp
  qed
  ultimately have "differs w v w' v' ?css ?gs" using g(2, 3) unfolding differs_def by blast
  with l(1) g(1) show ?thesis by metis
qed

subsection \<open>Unpacking it over the file system before\<close>

text \<open>The file system before can receive the files of \<open>fs\<close>, and nothing ignored lies at or below a removed path.\<close>

definition receivable :: "world \<Rightarrow> filesys \<Rightarrow> bool" where
  "receivable w fs \<longleftrightarrow> list_all (\<lambda>p. sendable (w\<lparr>files := fs\<rparr>) [] w (abs_comps p)) (scan_paths (w\<lparr>files := fs\<rparr>)) \<and>
     list_all (\<lambda>p. p \<in> set (scan_paths (w\<lparr>files := fs\<rparr>)) \<or>
       \<not> childDirInIgnoreList w p \<and> \<not> list_ex (\<lambda>e. prefix (abs_comps p) (abs_comps (Path e))) (ignorelist w)) (scan_paths w)"

text \<open>Files with equal hashes are equal.\<close>

definition told_apart :: "world \<Rightarrow> (string \<Rightarrow> string) \<Rightarrow> filesys \<Rightarrow> (string \<Rightarrow> string) \<Rightarrow> bool" where
  "told_apart w v fs v' \<longleftrightarrow> list_all (\<lambda>p. v p = v' p \<longrightarrow> (case (lookup (files w) (abs_comps p), lookup fs (abs_comps p)) of
      (Some m, Some n) \<Rightarrow> ity n = FSocket \<or> restores n m | _ \<Rightarrow> True)) (scan_paths (w\<lparr>files := fs\<rparr>))"

definition carried :: "world \<Rightarrow> filesys \<Rightarrow> filesys \<Rightarrow> string list \<Rightarrow> bool" where
  "carried w fs fs' p \<longleftrightarrow> (if CheckIgnoreList w (abs_path p) then lookup fs' p = lookup (files w) p else
     case lookup fs p of None \<Rightarrow> lookup fs' p = None | Some n \<Rightarrow> ity n = FSocket \<or> (\<exists>m. lookup fs' p = Some m \<and> restores n m))"

lemma ignored_files [simp]:
  "CheckIgnoreList (w\<lparr>files := fs\<rparr>) p = CheckIgnoreList w p" "CheckIgnoreList (w\<lparr>volumes := vs\<rparr>) p = CheckIgnoreList w p"
  "CheckCleanedPathAgainstIgnoreList (w\<lparr>volumes := vs\<rparr>) p = CheckCleanedPathAgainstIgnoreList w p"
  "childDirInIgnoreList (w\<lparr>volumes := vs\<rparr>) p = childDirInIgnoreList w p"
  by (simp_all add: CheckIgnoreList_def CheckCleanedPathAgainstIgnoreList_def CheckCleanedPathAgainstProvidedIgnoreList_def childDirInIgnoreList_def)

lemma volumes_irrelevant [simp]:
  "sendable w' rs (w\<lparr>volumes := vs\<rparr>) = sendable w' rs w" "removable w' rs (w\<lparr>volumes := vs\<rparr>) = removable w' rs w"
  "target_ok (w\<lparr>volumes := vs\<rparr>) = target_ok w"
  by (auto simp: fun_eq_iff sendable_def fits_def removable_def target_ok_def split: option.splits)

lemma differs_sendable:
  assumes sc: "scannable w h v s" and sc': "scannable (w\<lparr>files := fs\<rparr>) h' v' s1" and d: "differs w v (w\<lparr>files := fs\<rparr>) v' css gs"
    and rec: "receivable w fs"
  shows "p \<in> met (w\<lparr>files := fs\<rparr>) \<Longrightarrow> sendable (w\<lparr>files := fs\<rparr>) [] w p" and "set (layer_paths css gs) \<subseteq> met (w\<lparr>files := fs\<rparr>)"
    and "g \<in> set gs \<Longrightarrow> removable (w\<lparr>files := fs\<rparr>) [] w g"
    and "g \<in> set gs \<Longrightarrow> e \<in> set (ignorelist w) \<Longrightarrow> \<not> prefix g (abs_comps (Path e))"
proof -
  let ?w = "w\<lparr>files := fs\<rparr>"
  note ok = met_comps [OF scannableD(1) [OF sc]] and ok' = met_comps [OF scannableD(1) [OF sc']] and pre = met_prefix [OF scannableD(4, 1) [OF sc']]
  show send: "sendable ?w [] w p" if "p \<in> met ?w" for p
    using rec abs_path_met [OF sc' ok' [OF that]] that ok' [OF that] by (auto simp: receivable_def list_all_iff)
  show "set (layer_paths css gs) \<subseteq> met ?w" using d pre by (auto simp: layer_paths_def differs_def)
  show "removable ?w [] w g" "\<And>e. e \<in> set (ignorelist w) \<Longrightarrow> \<not> prefix g (abs_comps (Path e))" if g: "g \<in> set gs" for g
  proof -
    have m: "g \<in> met w" "g \<notin> met ?w" "g \<noteq> []" "butlast g \<in> met ?w" using d g by (auto simp: differs_def)
    have c: "comps_ok g" using ok [OF m(1)] .
    have "abs_path g \<in> set (scan_paths w)" "abs_path g \<notin> set (scan_paths ?w)" using abs_path_met [OF sc c] abs_path_met [OF sc' c] m by simp_all
    then have r: "\<not> childDirInIgnoreList w (abs_path g)" "\<And>e. e \<in> set (ignorelist w) \<Longrightarrow> \<not> prefix g (abs_comps (Path e))"
      using rec c by (auto simp: receivable_def list_all_iff list_ex_iff)
    then show "\<And>e. e \<in> set (ignorelist w) \<Longrightarrow> \<not> prefix g (abs_comps (Path e))" by blast
    obtain n where n: "lookup (files w) g = Some n" using m(1) by (auto simp: met_def)
    have "strict_prefix (butlast g) g" using m(3) by (cases g rule: rev_cases) (auto simp: strict_prefix_def)
    then have dir: "is_dir_node (lookup (files w) (butlast g))" using existing_parent_dir(1) [OF scannableD(1) [OF sc] n] by blast
    have "lookup fs g = None" "\<not> CheckCleanedPathAgainstIgnoreList w (abs_path g)" using m(1, 2) c by (auto simp: met_def CheckIgnoreList_def)
    moreover have "is_dir_node (lookup fs (butlast g))"
      using send [OF m(4)] dir by (auto simp: sendable_def fits_def is_dir_node_def is_dir_def split: option.splits)
    ultimately show "removable ?w [] w g" using m(3) c r(1) by (simp add: removable_def)
  qed
qed

lemma restored_carried:
  assumes sc: "scannable w h v s" and sc': "scannable (w\<lparr>files := fs\<rparr>) h' v' s1" and d: "differs w v (w\<lparr>files := fs\<rparr>) v' css gs"
    and rec: "receivable w fs" and eq: "told_apart w v fs v'" and p: "comps_ok p"
    and r: "restored (w\<lparr>files := fs\<rparr>) [] (w\<lparr>volumes := []\<rparr>) (set gs) {p \<in> set (layer_paths css gs). \<not> is_sock (w\<lparr>files := fs\<rparr>) p} fs'"
  shows "carried w fs fs' p"
proof -
  let ?w = "w\<lparr>files := fs\<rparr>"
  note fact = differs_sendable [OF sc sc' d rec]
  have wf': "fs_wf fs" using scannableD(1) [OF sc'] by simp
  have rest: "lookup fs' p = (if \<exists>g \<in> set gs. prefix g p then None else lookup (files w) p)" if "p \<notin> set (layer_paths css gs)"
    using r that by (auto simp: restored_def)
  consider (ignored) "CheckIgnoreList w (abs_path p)" | (none) "\<not> CheckIgnoreList w (abs_path p)" "lookup fs p = None"
    | (sent) n where "p \<in> met ?w" "lookup fs p = Some n" "p \<in> set (layer_paths css gs)"
    | (kept) n where "p \<in> met ?w" "lookup fs p = Some n" "p \<notin> set (layer_paths css gs)"
    by (cases "lookup fs p") (auto simp: met_def)
  then show ?thesis
  proof cases
    case ignored
    then have "p \<notin> met ?w" by (simp add: met_def)
    then have "p \<notin> set (layer_paths css gs)" using fact(2) by blast
    moreover have "\<not> prefix g p" if g: "g \<in> set gs" for g
    proof
      assume "prefix g p"
      obtain e where e: "e \<in> set (ignorelist w)" "prefix (abs_comps (Path e)) p"
        using ignored CheckIgnoreList_below [OF scannableD(4) [OF sc] p] by blast
      with \<open>prefix g p\<close> fact(4) [OF g e(1)] have "prefix (abs_comps (Path e)) g" "abs_comps (Path e) \<noteq> g" by (auto dest: prefix_same_cases)
      moreover have "g \<in> met w" using d g by (auto simp: differs_def)
      ultimately show False using e(1) CheckIgnoreList_below [OF scannableD(4) [OF sc], of g] met_comps [OF scannableD(1) [OF sc]] by (auto simp: met_def)
    qed
    ultimately show ?thesis using rest ignored by (auto simp: carried_def)
  next
    case none
    then have "p \<notin> met ?w" by (simp add: met_def)
    then have "p \<notin> set (layer_paths css gs)" using fact(2) by blast
    moreover have "lookup (files w) p = None \<or> (\<exists>g \<in> set gs. prefix g p)" using none d \<open>p \<notin> met ?w\<close> by (auto simp: differs_def met_def)
    ultimately show ?thesis using rest none by (auto simp: carried_def)
  next
    case (sent n)
    then have "ity n = FSocket \<or> (\<exists>m. lookup fs' p = Some m \<and> restores n m)" using r by (auto simp: restored_def is_sock_def)
    with sent show ?thesis by (simp add: carried_def met_def)
  next
    case (kept n)
    have "p \<notin> set css" using kept(3) by (auto simp: layer_paths_def)
    then have m: "p \<in> met w" "v (abs_path p) = v' (abs_path p)" using d kept(1) by (auto simp: differs_def)
    then obtain k where k: "lookup (files w) p = Some k" by (auto simp: met_def)
    have "ity n = FSocket \<or> restores n k"
      using eq m(2) k kept(2) abs_path_met [OF sc' p] kept(1) p by (fastforce simp: told_apart_def list_all_iff)
    moreover have "\<not> prefix g p" if g: "g \<in> set gs" for g
      using fact(3) [OF g] fs_wf_prefix [OF wf' kept(2), of g] kept(2) by (auto simp: removable_def is_dir_node_def)
    ultimately show ?thesis using rest [OF kept(3)] k kept by (auto simp: carried_def met_def)
  qed
qed


definition before :: world where
  "before = (demo_world ''/'')\<lparr>conf := \<lparr>RootDir = ''/'', KanikoDir = ''/kaniko'', MountInfoPath = ''/m'', SandboxUserns = False\<rparr>,
     ignorelist := [entry ''/kaniko'' False],
     files := \<lparr>dents = [([], 0), ([''m''], 1), ([''d''], 2), ([''d'', ''a''], 3)],
       inodes = [(0, new_inode FDir 448), (1, new_inode (FReg []) 292), (2, new_inode FDir 448), (3, new_inode (FReg ''y'') 420)],
       next_ino = 4, userns = None\<rparr>\<rparr>"

definition after_fs :: filesys where
  "after_fs = \<lparr>dents = [([], 0), ([''m''], 1), ([''b''], 4)],
     inodes = [(0, new_inode FDir 448), (1, new_inode (FReg []) 292), (4, new_inode (FReg ''x'') 493)], next_ino = 5, userns = None\<rparr>"

definition plain_value :: "filesys \<Rightarrow> string \<Rightarrow> string" where
  "plain_value fs p = (case CacheHasher id fs p of Inr x \<Rightarrow> x | Inl _ \<Rightarrow> [])"


text \<open>The hashers write the fields of a file one after the other without a separator, so two files may give the same
  text, whatever the digest: the group 1 with the content \<open>0x\<close> and the group 36, written \<open>10\<close> in base 36, with the
  content \<open>x\<close>. A scan with \<open>Hasher\<close> does not tell them apart.\<close>

definition one_file :: "inode \<Rightarrow> filesys" where
  "one_file n = \<lparr>dents = [([], 0), ([''f''], 1)], inodes = [(0, new_inode FDir 493), (1, n)], next_ino = 2, userns = None\<rparr>"

theorem Hasher_runs_together:
  "Hasher highway time_str (one_file ((new_inode (FReg ''0x'') 420)\<lparr>igid := 1\<rparr>)) ''/f'' =
     Hasher highway time_str (one_file ((new_inode (FReg ''x'') 420)\<lparr>igid := 36\<rparr>)) ''/f''"
proof -
  let ?n = "(new_inode (FReg ''0x'') 420)\<lparr>igid := 1\<rparr>" and ?m = "(new_inode (FReg ''x'') 420)\<lparr>igid := 36\<rparr>"
  have l: "os_Lstat (one_file ?n) ''/f'' = Inr ?n" "os_Lstat (one_file ?m) ''/f'' = Inr ?m" by code_simp+
  have "owner_string ?n @ content_of ?n = owner_string ?m @ content_of ?m" "mode_string ?n = mode_string ?m"
    "icap ?n = None" "icap ?m = None" "imtime ?n = imtime ?m" by code_simp+
  with l show ?thesis by (simp add: Hasher_def)
qed

end
