(* ===== verification/Command_Util.thy ===== *)
theory Command_Util
  imports Fs_Ops
begin

text \<open>
  \<open>pkg/util/command_util.go\<close> and \<open>pkg/util/groupids_fallback.go\<close>: environment replacement, wildcard
  sources and destinations of \<open>COPY\<close> and \<open>ADD\<close>, the environment of an image configuration, users and
  groups. The libraries the package calls (the Dockerfile shell lexer, URL parsing, the user database)
  are the fields of the record \<open>libs\<close>, an argument of the definitions that call them.
\<close>

subsection \<open>Libraries\<close>

record user =
  Uid :: string
  Gid :: string
  Username :: string
  HomeDir :: string

text \<open>\<open>Inr None\<close> is the unknown user or group error of \<open>os/user\<close>.\<close>

record libs =
  lex_word :: "string \<Rightarrow> string list \<Rightarrow> string res"
  parse_request_uri :: "string \<Rightarrow> (string \<times> string) res"
  url_path :: "string \<Rightarrow> string res"
  user_Lookup :: "string \<Rightarrow> user option res"
  user_LookupId :: "string \<Rightarrow> user option res"
  user_LookupGroup :: "string \<Rightarrow> string option res"
  user_LookupGroupId :: "string \<Rightarrow> string option res"
  http_Get :: "string \<Rightarrow> http_response res"

record SourcesAndDest =
  SourcePaths :: "string list"
  DestPath :: string

type_synonym KeyValuePair = "string \<times> string"

subsection \<open>Environment replacement\<close>

definition IsSrcRemoteFileURL :: "libs \<Rightarrow> string \<Rightarrow> bool" where
  "IsSrcRemoteFileURL lib rawurl =
     (case parse_request_uri lib rawurl of Inl _ \<Rightarrow> False | Inr (scheme, host) \<Rightarrow> scheme \<noteq> [] \<and> host \<noteq> [])"

definition ResolveEnvironmentReplacement :: "libs \<Rightarrow> string \<Rightarrow> string list \<Rightarrow> bool \<Rightarrow> string res" where
  "ResolveEnvironmentReplacement lib v envs isFilepath =
     rbind (lex_word lib v envs) (\<lambda>fp.
       if \<not> isFilepath \<or> IsSrcRemoteFileURL lib fp then Inr fp
       else let isDir = has_suffix fp ''/''; fp = clean fp
            in Inr (if isDir \<and> \<not> has_suffix fp ''/'' then fp @ ''/'' else fp))"

definition ResolveEnvironmentReplacementList :: "libs \<Rightarrow> string list \<Rightarrow> string list \<Rightarrow> bool \<Rightarrow> string list res" where
  "ResolveEnvironmentReplacementList lib vals envs isFilepath =
     rmap (\<lambda>v. ResolveEnvironmentReplacement lib v envs isFilepath) vals"

subsection \<open>Sources and destinations\<close>

definition ContainsWildcards :: "string list \<Rightarrow> bool" where
  "ContainsWildcards paths = list_ex (\<lambda>path. contains_any path ''*?['') paths"

text \<open>The inner loop of \<open>matchSources\<close> over the files of the build context.\<close>

fun match_files :: "config \<Rightarrow> string \<Rightarrow> string list \<Rightarrow> string list res" where
  "match_files c src [] = Inr []"
| "match_files c src (file # fls) =
     (let file = (if is_abs src then join_path [RootDir c, file] else file) in
      rbind (match src file) (\<lambda>matched.
      rbind (match_files c src fls) (\<lambda>rest.
        Inr (if matched \<or> src = file then file # rest else rest))))"

definition matchSources :: "libs \<Rightarrow> config \<Rightarrow> string list \<Rightarrow> string list \<Rightarrow> string list res" where
  "matchSources lib c srcs fls =
     rbind (rmap (\<lambda>src. if IsSrcRemoteFileURL lib src then Inr [src] else match_files c (clean src) fls) srcs)
       (\<lambda>ms. Inr (concat ms))"

definition ResolveSources :: "libs \<Rightarrow> world \<Rightarrow> string list \<Rightarrow> string \<Rightarrow> string list res" where
  "ResolveSources lib w srcs root =
     (if \<not> ContainsWildcards srcs then Inr srcs
      else rbind (wrap ''resolving sources'' (RelativeFiles w [] root)) (\<lambda>fls.
             wrap ''matching sources'' (matchSources lib (conf w) srcs fls)))"

definition isDestDirInRoot :: "world \<Rightarrow> string \<Rightarrow> bool" where
  "isDestDirInRoot w path =
     (if clean (RootDir (conf w)) = ''/'' then IsDestDir w path
      else has_suffix path ''/'' \<or> path = ''.'' \<or> IsDestDir w (RootedPath w path))"

definition DestinationFilepath :: "world \<Rightarrow> string \<Rightarrow> string \<Rightarrow> string \<Rightarrow> string res" where
  "DestinationFilepath w src dest cwd =
     (let srcFileName = snd (split_path src);
          cwd = (if cwd = [] then ''/'' else cwd);
          newDest = (if \<not> is_abs dest
                     then join_path [cwd, dest] @ (if has_suffix dest ''/'' \<or> has_suffix dest ''.'' then ''/'' else [])
                     else dest);
          newDest = (if isDestDirInRoot w newDest then join_path [newDest, srcFileName] else newDest);
          newDest = (if srcFileName = [] \<and> \<not> has_suffix newDest ''/'' then newDest @ ''/'' else newDest)
      in rbind (ResolvePathInRoot w newDest) (\<lambda>rootedDest.
           Inr (if has_suffix newDest ''/'' \<and> \<not> has_suffix rootedDest ''/'' then rootedDest @ ''/'' else rootedDest)))"

definition extractFilename :: "libs \<Rightarrow> string \<Rightarrow> string res" where
  "extractFilename lib rawURL = rbind (url_path lib rawURL) (\<lambda>p. Inr (base p))"

definition URLDestinationFilepath :: "libs \<Rightarrow> world \<Rightarrow> string \<Rightarrow> string \<Rightarrow> string \<Rightarrow> string list \<Rightarrow> string res" where
  "URLDestinationFilepath lib w rawurl dest cwd envs =
     (let cwd = (if cwd = [] then ''/'' else cwd) in
      if \<not> isDestDirInRoot w dest
      then ResolvePathInRoot w (if \<not> is_abs dest then join_path [cwd, dest] else dest)
      else rbind (ResolveEnvironmentReplacement lib rawurl envs True) (\<lambda>urlBase.
           rbind (extractFilename lib urlBase) (\<lambda>urlBase.
             let destPath = join_path [dest, urlBase]
             in ResolvePathInRoot w (if \<not> is_abs dest then join_path [cwd, destPath] else destPath))))"

definition multiple_sources :: err where
  "multiple_sources =
     Msg ''when specifying multiple sources in a COPY command, destination must be a directory and end in /''"

definition count_files :: "libs \<Rightarrow> world \<Rightarrow> FileContext \<Rightarrow> string \<Rightarrow> nat res" where
  "count_files lib w fileContext src =
     (if IsSrcRemoteFileURL lib src then Inr 1
      else rbind (wrap ''failed to get relative files'' (RelativeFiles w (clean src) (Root fileContext))) (\<lambda>fls.
             Inr (length (filter (\<lambda>f. \<not> ExcludesFile fileContext f) fls))))"

definition IsSrcsValid :: "libs \<Rightarrow> world \<Rightarrow> SourcesAndDest \<Rightarrow> string list \<Rightarrow> FileContext \<Rightarrow> unit res" where
  "IsSrcsValid lib w srcsAndDest resolvedSources fileContext =
     (let srcs = SourcePaths srcsAndDest; dest = DestPath srcsAndDest in
      if \<not> ContainsWildcards srcs \<and> length (filter (\<lambda>src. \<not> ExcludesFile fileContext src) srcs) > 1 \<and>
         \<not> isDestDirInRoot w dest
      then Inl multiple_sources
      else
        let count = rbind (rmap (count_files lib w fileContext) resolvedSources) (\<lambda>ns.
              if \<not> isDestDirInRoot w dest \<and> sum_list ns > 1 then Inl multiple_sources else Inr ())
        in case resolvedSources of
             [src] \<Rightarrow>
               if IsSrcRemoteFileURL lib src then Inr ()
               else let path = join_path [Root fileContext, src]
                    in rbind (wrap (''failed to get fileinfo for '' @ path) (os_Lstat (files w) path)) (\<lambda>fi.
                         if is_dir fi then Inr () else count)
           | _ \<Rightarrow> count)"

definition ResolveEnvAndWildcards :: "libs \<Rightarrow> world \<Rightarrow> SourcesAndDest \<Rightarrow> FileContext \<Rightarrow> string list \<Rightarrow>
    (string list \<times> string) res" where
  "ResolveEnvAndWildcards lib w sd fileContext envs =
     rbind (wrap ''failed to resolve environment''
              (ResolveEnvironmentReplacementList lib (SourcePaths sd) envs True)) (\<lambda>resolvedEnvs.
       if resolvedEnvs = [] then Inl (Msg ''resolved envs is empty'')
       else rbind (wrap ''failed to resolve environment for dest path''
                    (ResolveEnvironmentReplacement lib (DestPath sd) envs True)) (\<lambda>dest.
            rbind (wrap ''failed to resolve sources'' (ResolveSources lib w resolvedEnvs (Root fileContext))) (\<lambda>srcs.
            rbind (IsSrcsValid lib w (sd\<lparr>DestPath := dest\<rparr>) srcs fileContext) (\<lambda>_.
              Inr (srcs, dest)))))"

subsection \<open>The environment of an image configuration\<close>

definition split_env :: "string \<Rightarrow> KeyValuePair res" where
  "split_env env =
     (case splitn 2 CHR ''='' env of
        [k, v] \<Rightarrow> Inr (k, v)
      | _ \<Rightarrow> Inl (Panic ''index out of range''))"

fun set_kvp :: "KeyValuePair \<Rightarrow> KeyValuePair list \<Rightarrow> KeyValuePair list" where
  "set_kvp n [] = [n]"
| "set_kvp n (kvp # kvps) = (if fst kvp = fst n then n # kvps else kvp # set_kvp n kvps)"

definition env_entry :: "KeyValuePair \<Rightarrow> string" where
  "env_entry kvp = fst kvp @ ''='' @ snd kvp"

definition expand_pair :: "libs \<Rightarrow> string list \<Rightarrow> KeyValuePair \<Rightarrow> KeyValuePair res" where
  "expand_pair lib replacementEnvs pair =
     rbind (ResolveEnvironmentReplacement lib (fst pair) replacementEnvs False) (\<lambda>expandedKey.
     rbind (ResolveEnvironmentReplacement lib (snd pair) replacementEnvs False) (\<lambda>expandedValue.
       Inr (expandedKey, expandedValue)))"

definition UpdateConfigEnv :: "libs \<Rightarrow> KeyValuePair list \<Rightarrow> string list \<Rightarrow> string list \<Rightarrow> string list res" where
  "UpdateConfigEnv lib envVars configEnv replacementEnvs =
     rbind (rmap (expand_pair lib replacementEnvs) envVars) (\<lambda>newEnvs.
     rbind (rmap split_env configEnv) (\<lambda>kvps.
       Inr (map env_entry (fold set_kvp newEnvs kvps))))"

subsection \<open>Users, groups and modes\<close>

definition getUID :: "string \<Rightarrow> nat res" where
  "getUID s = parse_uint 10 32 s"

definition getGID :: "string \<Rightarrow> nat res" where
  "getGID s = parse_uint 10 32 s"

definition LookupUser :: "libs \<Rightarrow> string \<Rightarrow> user res" where
  "LookupUser lib userStr =
     (let byId = (case user_LookupId lib userStr of
            Inr (Some u) \<Rightarrow> Inr u
          | _ \<Rightarrow> (case getUID userStr of
                    Inl _ \<Rightarrow> Inl (Msg (''user '' @ userStr @ '' is not a uid and does not exist on the system''))
                  | Inr uid \<Rightarrow> Inr \<lparr>Uid = itoa (int uid), Gid = [], Username = [], HomeDir = ''/''\<rparr>))
      in case user_Lookup lib userStr of
           Inr (Some u) \<Rightarrow> Inr u
         | Inr None \<Rightarrow> byId
         | Inl e \<Rightarrow> if is_not_exist e then byId else Inl e)"

definition getGIDFromName :: "libs \<Rightarrow> string \<Rightarrow> nat res" where
  "getGIDFromName lib groupStr =
     (case user_LookupGroup lib groupStr of
        Inr (Some gid) \<Rightarrow> getGID gid
      | Inr None \<Rightarrow> getGID groupStr
      | Inl _ \<Rightarrow> (case user_LookupGroupId lib groupStr of
                    Inr (Some gid) \<Rightarrow> getGID gid
                  | _ \<Rightarrow> getGID groupStr))"

definition getUIDAndGID :: "libs \<Rightarrow> string \<Rightarrow> string \<Rightarrow> (nat \<times> nat) res" where
  "getUIDAndGID lib userStr groupStr =
     rbind (LookupUser lib userStr) (\<lambda>user.
     rbind (getUID (Uid user)) (\<lambda>uid32.
       if groupStr \<noteq> [] then rbind (getGIDFromName lib groupStr) (\<lambda>gid32. Inr (uid32, gid32))
       else Inr (uid32, uid32)))"

definition getUIDAndGIDFromString :: "libs \<Rightarrow> string \<Rightarrow> (nat \<times> nat) res" where
  "getUIDAndGIDFromString lib userGroupString =
     (let userAndGroup = split_on CHR '':'' userGroupString
      in getUIDAndGID lib (hd userAndGroup) (if length userAndGroup > 1 then userAndGroup ! 1 else []))"

definition GetUserGroup :: "libs \<Rightarrow> string \<Rightarrow> string list \<Rightarrow> (int \<times> int) res" where
  "GetUserGroup lib chownStr env =
     (if chownStr = [] then Inr (-1, -1)
      else rbind (ResolveEnvironmentReplacement lib chownStr env False) (\<lambda>chown.
           rbind (getUIDAndGIDFromString lib chown) (\<lambda>(uid32, gid32). Inr (int uid32, int gid32))))"

definition GetChmod :: "libs \<Rightarrow> string \<Rightarrow> string list \<Rightarrow> (nat \<times> bool) res" where
  "GetChmod lib chmodStr env =
     (if chmodStr = [] then Inr (384, True)
      else rbind (ResolveEnvironmentReplacement lib chmodStr env False) (\<lambda>s.
           rbind (wrap ''parsing value from chmod'' (parse_uint 8 32 s)) (\<lambda>mode. Inr (mode, False))))"

text \<open>\<open>/etc/group\<close>, with the members of each group.\<close>

record group =
  grp_id :: string
  grp_name :: string
  grp_members :: "string list"

definition is_space :: "char \<Rightarrow> bool" where
  "is_space c = (c \<in> {CHR '' '', CHR 0x09, CHR 0x0A, CHR 0x0B, CHR 0x0C, CHR 0x0D})"

definition trim_space :: "string \<Rightarrow> string" where
  "trim_space s = rev (dropWhile is_space (rev (dropWhile is_space s)))"

text \<open>The fields of a line are read without a check of their number.\<close>

definition parse_group :: "string \<Rightarrow> group list res" where
  "parse_group l =
     (let line = trim_space l in
      if line = [] \<or> hd line = CHR ''#'' then Inr []
      else let parts = splitn 4 CHR '':'' line in
           if length parts < 3 then Inl (Panic ''index out of range'')
           else case atoi (parts ! 2) of
             Inl _ \<Rightarrow> Inr []
           | Inr _ \<Rightarrow>
               if length parts < 4 then Inl (Panic ''index out of range'')
               else Inr [\<lparr>grp_id = parts ! 2, grp_name = parts ! 0, grp_members = split_on CHR '','' (parts ! 3)\<rparr>])"

definition localGroups :: "string \<Rightarrow> group list res" where
  "localGroups content = rbind (rmap parse_group (split_on CHR 0x0A content)) (\<lambda>gs. Inr (concat gs))"

definition groupIDs :: "world \<Rightarrow> user \<Rightarrow> string list res" where
  "groupIDs w u =
     (if Gid u = [] then Inr []
      else rbind (wrap ''open'' (os_ReadFile (files w) ''/etc/group'')) (\<lambda>content.
           rbind (localGroups content) (\<lambda>groups.
             Inr (Gid u # concat (map (\<lambda>g. map (\<lambda>_. grp_id g) (filter (\<lambda>m. m = Username u) (grp_members g))) groups)))))"

subsection \<open>Updating an environment\<close>

lemma map_fst_set_kvp: "map fst (set_kvp n kvps) = add_new (fst n) (map fst kvps)"
  by (induction kvps) (auto simp: add_new_def)

lemma map_of_set_kvp: "map_of (set_kvp n kvps) = (map_of kvps)(fst n \<mapsto> snd n)"
  by (induction kvps) (auto simp: fun_eq_iff)

lemma set_set_kvp: "set (set_kvp n kvps) \<subseteq> insert n (set kvps)"
  by (induction kvps) auto

lemma fold_set_kvp:
  "map fst (fold set_kvp ns kvps) = fold add_new (map fst ns) (map fst kvps)"
  "map_of (fold set_kvp ns kvps) k = (case map_of (rev ns) k of Some v \<Rightarrow> Some v | None \<Rightarrow> map_of kvps k)"
  "set (fold set_kvp ns kvps) \<subseteq> set ns \<union> set kvps"
proof -
  show "map fst (fold set_kvp ns kvps) = fold add_new (map fst ns) (map fst kvps)"
    by (induction ns arbitrary: kvps) (simp_all add: map_fst_set_kvp)
  show "map_of (fold set_kvp ns kvps) k = (case map_of (rev ns) k of Some v \<Rightarrow> Some v | None \<Rightarrow> map_of kvps k)"
    by (induction ns arbitrary: kvps) (auto simp: map_of_set_kvp map_add_def split: option.splits)
  show "set (fold set_kvp ns kvps) \<subseteq> set ns \<union> set kvps"
  proof (induction ns arbitrary: kvps)
    case (Cons n ns)
    with set_set_kvp [of n kvps] show ?case by fastforce
  qed simp
qed

lemma splitn_two: "splitn 2 c s = (case cut c s of None \<Rightarrow> [s] | Some (a, b) \<Rightarrow> [a, b])"
  by (simp add: numeral_2_eq_2 split: option.splits)

lemma split_env_entry: "CHR ''='' \<notin> set k \<Longrightarrow> split_env (env_entry (k, v)) = Inr (k, v)"
  by (simp add: split_env_def env_entry_def splitn_two)

lemma split_env_key: "split_env e = Inr (k, v) \<Longrightarrow> CHR ''='' \<notin> set k \<and> e = env_entry (k, v)"
  by (auto simp: split_env_def splitn_two env_entry_def dest: cut_Some split: option.splits)

text \<open>\<open>ENV\<close> and the other writers of a configuration's environment update it like a map that keeps
  its order: every variable that was set has its last new value, the others keep theirs, no existing
  variable moves and new ones follow in the order they were given.\<close>

theorem UpdateConfigEnv_spec:
  assumes "rmap (expand_pair lib replacementEnvs) envVars = Inr news"
    and "rmap split_env configEnv = Inr kvps"
    and "list_all (\<lambda>kv. CHR ''='' \<notin> set (fst kv)) news"
  shows "\<exists>env' kvps'. UpdateConfigEnv lib envVars configEnv replacementEnvs = Inr env' \<and>
    rmap split_env env' = Inr kvps' \<and>
    map fst kvps' = fold add_new (map fst news) (map fst kvps) \<and>
    (\<forall>k. map_of kvps' k = (case map_of (rev news) k of Some v \<Rightarrow> Some v | None \<Rightarrow> map_of kvps k))"
proof -
  let ?r = "fold set_kvp news kvps"
  have u: "UpdateConfigEnv lib envVars configEnv replacementEnvs = Inr (map env_entry ?r)"
    using assms(1,2) by (simp add: UpdateConfigEnv_def)
  have "CHR ''='' \<notin> set (fst kv)" if kv: "kv \<in> set kvps" for kv
  proof -
    obtain k v where e: "kv = (k, v)" by (cases kv)
    obtain s where "split_env s = Inr (k, v)"
      using assms(2) kv e by (auto simp: rmap_Inr_iff list_all2_conv_all_nth in_set_conv_nth)
    with split_env_key e show ?thesis by auto
  qed
  then have "CHR ''='' \<notin> set (fst kv)" if "kv \<in> set ?r" for kv
    using that fold_set_kvp(3) [of news kvps] assms(3) unfolding list_all_iff by blast
  then have "split_env (env_entry kv) = Inr kv" if "kv \<in> set ?r" for kv
    using that split_env_entry [of "fst kv" "snd kv"] by simp
  then have "rmap split_env (map env_entry ?r) = Inr ?r"
    by (auto simp: rmap_Inr_iff list_all2_conv_all_nth)
  with u fold_set_kvp(1,2) show ?thesis by blast
qed

definition plain_libs :: libs where
  "plain_libs = \<lparr>lex_word = (\<lambda>s _. Inr s), parse_request_uri = (\<lambda>_. Inl (Msg ''not a url'')),
     url_path = (\<lambda>u. Inr u), user_Lookup = (\<lambda>_. Inr None), user_LookupId = (\<lambda>_. Inr None),
     user_LookupGroup = (\<lambda>_. Inr None), user_LookupGroupId = (\<lambda>_. Inr None),
     http_Get = (\<lambda>_. Inl (Msg ''offline''))\<rparr>"

theorem UpdateConfigEnv_spec_witness:
  "UpdateConfigEnv plain_libs [(''B'', ''2''), (''A'', ''3'')] [''A=1'', ''C=x=y''] [] = Inr [''A=3'', ''C=x=y'', ''B=2''] \<and>
   (\<exists>env' kvps'. UpdateConfigEnv plain_libs [(''B'', ''2''), (''A'', ''3'')] [''A=1'', ''C=x=y''] [] = Inr env' \<and>
      rmap split_env env' = Inr kvps' \<and> map fst kvps' = fold add_new [''B'', ''A''] [''A'', ''C''])"
proof -
  have a: "rmap (expand_pair plain_libs []) [(''B'', ''2''), (''A'', ''3'')] = Inr [(''B'', ''2''), (''A'', ''3'')]"
    "rmap split_env [''A=1'', ''C=x=y''] = Inr [(''A'', ''1''), (''C'', ''x=y'')]"
    "UpdateConfigEnv plain_libs [(''B'', ''2''), (''A'', ''3'')] [''A=1'', ''C=x=y''] [] = Inr [''A=3'', ''C=x=y'', ''B=2'']"
    by code_simp+
  have "list_all (\<lambda>kv. CHR ''='' \<notin> set (fst kv)) [(''B'', ''2''), (''A'', ''3'')]" by simp
  from UpdateConfigEnv_spec [OF a(1,2) this] obtain env' kvps' where
    e: "UpdateConfigEnv plain_libs [(''B'', ''2''), (''A'', ''3'')] [''A=1'', ''C=x=y''] [] = Inr env'"
      "rmap split_env env' = Inr kvps'"
      "map fst kvps' = fold add_new (map fst [(''B'', ''2''), (''A'', ''3'')]) (map fst [(''A'', ''1''), (''C'', ''x=y'')])"
    by blast
  show ?thesis
  proof (intro conjI exI)
    show "map fst kvps' = fold add_new [''B'', ''A''] [''A'', ''C'']" using e(3) by simp
  qed (rule a(3) e(1,2))+
qed



text \<open>C16. The destination of a \<open>COPY\<close> or \<open>ADD\<close> never leaves a sandbox root: whatever destination and
  working directory the Dockerfile names, the path \<open>DestinationFilepath\<close> returns lies below the root,
  through no symbolic link, up to a trailing separator.\<close>

theorem DestinationFilepath_confined:
  assumes "clean (RootDir (conf w)) = abs_path rs" and "comps_ok rs" and "rs \<noteq> []"
    and "DestinationFilepath w src dest cwd = Inr q"
  shows "\<exists>es. comps_ok es \<and> (q = abs_path (rs @ es) \<or> q = abs_path (rs @ es) @ ''/'') \<and>
    no_links (files w) (abs_path rs) es"
proof -
  obtain newDest r where r: "ResolvePathInRoot w newDest = Inr r" and q: "q = r \<or> q = r @ ''/''"
    using assms(4) by (auto simp: DestinationFilepath_def Let_def)
  have "clean (RootDir (conf w)) \<noteq> ''/''" using assms(1,2,3) by simp
  then obtain u where "SecureJoin (files w) (abs_path rs) u = Inr r"
    using ResolvePathInRoot_secure [OF _ r] assms(1) by auto
  then obtain es where "comps_ok es" "r = abs_path (rs @ es)" "no_links (files w) (abs_path rs) es"
    using SecureJoin_confined [OF assms(2)] by blast
  with q show ?thesis by blast
qed

theorem DestinationFilepath_confined_witness:
  "DestinationFilepath (demo_world ''/box'') ''app/x'' ''/bin/../../bin/'' ''/'' = Inr ''/box/usr/x'' \<and>
   (\<exists>es. comps_ok es \<and> (''/box/usr/x'' = abs_path ([''box''] @ es) \<or> ''/box/usr/x'' = abs_path ([''box''] @ es) @ ''/'') \<and>
      no_links demo_fs (abs_path [''box'']) es)"
proof -
  have r: "DestinationFilepath (demo_world ''/box'') ''app/x'' ''/bin/../../bin/'' ''/'' = Inr ''/box/usr/x''" by code_simp
  have c: "clean (RootDir (conf (demo_world ''/box''))) = abs_path [''box'']" by code_simp
  have "comps_ok [''box'']" by code_simp
  from DestinationFilepath_confined [OF c this _ r] r show ?thesis by (simp add: demo_world_def)
qed

end
