(* ===== verification/Build_Args.thy ===== *)
theory Build_Args
  imports Command_Util
begin

text \<open>
  \<open>pkg/dockerfile/buildargs.go\<close> and the type it embeds, \<open>BuildArgs\<close> of
  \<open>vendor/github.com/docker/docker/builder/dockerfile/buildargs.go\<close>: which build arguments are visible
  to an instruction, and with which value. A \<open>*string\<close> is a \<open>string option\<close>. A Go map is ranged over
  in insertion order; \<open>ReplacementEnvs\<close> is the place where the program sees that order.
\<close>

subsection \<open>The arguments and their sources\<close>

type_synonym arg_map = "(string, string option) gomap"

record BuildArgs =
  allowedBuildArgs :: arg_map
  allowedMetaArgs :: arg_map
  referencedArgs :: "(string, unit) gomap"
  argsFromOptions :: arg_map

type_synonym ArgCommand = "(string \<times> string option) list"

definition builtinAllowedBuildArgs :: "string list" where
  "builtinAllowedBuildArgs =
     [''HTTP_PROXY'', ''http_proxy'', ''HTTPS_PROXY'', ''https_proxy'', ''FTP_PROXY'', ''ftp_proxy'',
      ''NO_PROXY'', ''no_proxy'', ''ALL_PROXY'', ''all_proxy'']"

definition add_option :: "string \<Rightarrow> arg_map \<Rightarrow> arg_map" where
  "add_option a m =
     (case splitn 2 CHR ''='' a of
        [k] \<Rightarrow> gm_set m k None
      | k # v # _ \<Rightarrow> gm_set m k (Some v)
      | [] \<Rightarrow> m)"

definition NewBuildArgs :: "string list \<Rightarrow> BuildArgs" where
  "NewBuildArgs args =
     \<lparr>allowedBuildArgs = [], allowedMetaArgs = [], referencedArgs = [],
      argsFromOptions = fold add_option args []\<rparr>"

definition AddMetaArg :: "string \<Rightarrow> string option \<Rightarrow> BuildArgs \<Rightarrow> BuildArgs" where
  "AddMetaArg k v b = b\<lparr>allowedMetaArgs := gm_set (allowedMetaArgs b) k v\<rparr>"

definition AddMetaArgs :: "ArgCommand list \<Rightarrow> BuildArgs \<Rightarrow> BuildArgs" where
  "AddMetaArgs metaArgs b = fold (\<lambda>marg. fold (\<lambda>(k, v). AddMetaArg k v) marg) metaArgs b"

definition AddArg :: "string \<Rightarrow> string option \<Rightarrow> BuildArgs \<Rightarrow> BuildArgs" where
  "AddArg k v b = b\<lparr>allowedBuildArgs := gm_set (allowedBuildArgs b) k v,
     referencedArgs := gm_set (referencedArgs b) k ()\<rparr>"

definition getBuildArg :: "BuildArgs \<Rightarrow> string \<Rightarrow> arg_map \<Rightarrow> string option" where
  "getBuildArg b k source =
     (case gm_get (argsFromOptions b) k of
        Some (Some v) \<Rightarrow> Some v
      | _ \<Rightarrow>
          (case gm_get source k of
             Some (Some v) \<Rightarrow> Some v
           | _ \<Rightarrow> (case gm_get (allowedMetaArgs b) k of Some (Some v) \<Rightarrow> Some v | _ \<Rightarrow> None)))"

definition add_value :: "BuildArgs \<Rightarrow> arg_map \<Rightarrow> string \<Rightarrow> (string, string) gomap \<Rightarrow> (string, string) gomap" where
  "add_value b source k m = (case getBuildArg b k source of None \<Rightarrow> m | Some v \<Rightarrow> gm_set m k v)"

definition getAllFromMapping :: "BuildArgs \<Rightarrow> arg_map \<Rightarrow> (string, string) gomap" where
  "getAllFromMapping b source = fold (add_value b source) (gm_keys source @ builtinAllowedBuildArgs) []"

definition GetAllAllowed :: "BuildArgs \<Rightarrow> (string, string) gomap" where
  "GetAllAllowed b = getAllFromMapping b (allowedBuildArgs b)"

definition GetAllMeta :: "BuildArgs \<Rightarrow> (string, string) gomap" where
  "GetAllMeta b = getAllFromMapping b (allowedMetaArgs b)"

definition env_key :: "string \<Rightarrow> string" where
  "env_key e = (case cut CHR ''='' e of None \<Rightarrow> e | Some (k, _) \<Rightarrow> k)"

definition FilterAllowed :: "BuildArgs \<Rightarrow> string list \<Rightarrow> string list" where
  "FilterAllowed b envs =
     map (\<lambda>(k, v). k @ ''='' @ v)
       (filter (\<lambda>(k, v). k \<notin> set (map env_key envs)) (GetAllAllowed b))"

definition ReplacementEnvs :: "BuildArgs \<Rightarrow> string list \<Rightarrow> string list" where
  "ReplacementEnvs b envs = envs @ FilterAllowed b envs"

subsection \<open>What an instruction sees\<close>

lemma fold_add_value:
  "gm_get (fold (add_value b source) ks m) k =
     (if k \<in> set ks \<and> getBuildArg b k source \<noteq> None then getBuildArg b k source else gm_get m k)"
  by (induction ks arbitrary: m) (auto simp: add_value_def split: option.splits)

lemma gm_wf_fold_add_value: "gm_wf m \<Longrightarrow> gm_wf (fold (add_value b source) ks m)"
  by (induction ks arbitrary: m) (auto simp: add_value_def split: option.splits)

lemma GetAllAllowed_get:
  "gm_get (GetAllAllowed b) k =
     (if gm_has (allowedBuildArgs b) k \<or> k \<in> set builtinAllowedBuildArgs
      then getBuildArg b k (allowedBuildArgs b) else None)"
  by (auto simp: GetAllAllowed_def getAllFromMapping_def fold_add_value gm_keys_iff)

lemma GetAllAllowed_wf: "gm_wf (GetAllAllowed b)"
  by (simp add: GetAllAllowed_def getAllFromMapping_def gm_wf_fold_add_value)

lemma gm_get_mem: "gm_wf m \<Longrightarrow> gm_get m k = Some v \<longleftrightarrow> (k, v) \<in> set m"
  by (simp add: gm_get_def gm_wf_def)

lemma FilterAllowed_set:
  "e \<in> set (FilterAllowed b envs) \<longleftrightarrow>
     (\<exists>k v. e = k @ ''='' @ v \<and> gm_get (GetAllAllowed b) k = Some v \<and> k \<notin> set (map env_key envs))"
  by (auto simp: FilterAllowed_def gm_get_mem [OF GetAllAllowed_wf])

text \<open>C17. What an instruction's substitutions see. The image's own environment comes first and is
  unchanged; behind it stands \<open>k=v\<close> exactly for the build arguments \<open>k\<close> that the environment does not
  define and that an \<open>ARG\<close> of the stage declared or that are one of the predefined proxy variables; the value
  is the one of \<open>--build-arg\<close>, else the default of the stage's \<open>ARG\<close>, else the value of the \<open>ARG\<close> before
  the first \<open>FROM\<close>, and an argument with none of the three is left out.\<close>

theorem ReplacementEnvs_precedence:
  "take (length envs) (ReplacementEnvs b envs) = envs \<and>
   (\<forall>e. e \<in> set (drop (length envs) (ReplacementEnvs b envs)) \<longleftrightarrow>
      (\<exists>k v. e = k @ ''='' @ v \<and> k \<notin> set (map env_key envs)
         \<and> (gm_has (allowedBuildArgs b) k \<or> k \<in> set builtinAllowedBuildArgs)
         \<and> (if \<exists>x. gm_get (argsFromOptions b) k = Some (Some x) then gm_get (argsFromOptions b) k = Some (Some v)
            else if \<exists>x. gm_get (allowedBuildArgs b) k = Some (Some x) then gm_get (allowedBuildArgs b) k = Some (Some v)
            else gm_get (allowedMetaArgs b) k = Some (Some v))))"
proof -
  have get: "getBuildArg b k (allowedBuildArgs b) = Some v \<longleftrightarrow>
     (if \<exists>x. gm_get (argsFromOptions b) k = Some (Some x) then gm_get (argsFromOptions b) k = Some (Some v)
      else if \<exists>x. gm_get (allowedBuildArgs b) k = Some (Some x) then gm_get (allowedBuildArgs b) k = Some (Some v)
      else gm_get (allowedMetaArgs b) k = Some (Some v))" for k v
    by (auto simp: getBuildArg_def split: option.splits)
  have tail: "drop (length envs) (ReplacementEnvs b envs) = FilterAllowed b envs"
    by (simp add: ReplacementEnvs_def)
  have "e \<in> set (FilterAllowed b envs) \<longleftrightarrow>
      (\<exists>k v. e = k @ ''='' @ v \<and> k \<notin> set (map env_key envs)
         \<and> (gm_has (allowedBuildArgs b) k \<or> k \<in> set builtinAllowedBuildArgs)
         \<and> getBuildArg b k (allowedBuildArgs b) = Some v)" for e
    unfolding FilterAllowed_set GetAllAllowed_get by auto
  then show ?thesis unfolding tail get by (simp add: ReplacementEnvs_def)
qed

end
