(* ===== verification/Kaniko_Options.thy ===== *)
theory Kaniko_Options
  imports Go_Strings
begin

text \<open>
  \<open>pkg/config/args.go\<close>, \<open>pkg/config/options.go\<close> and \<open>pkg/constants\<close>: the values the command line
  flags set and the flag types with their \<open>String\<close> and \<open>Set\<close> methods. \<open>Set\<close> changes the flag in place,
  also when it then fails, so it is an action on the flag's value.
\<close>

subsection \<open>Flag types\<close>

type_synonym multiArg = "string list"
type_synonym keyValueArg = "(string, string) gomap"
type_synonym multiKeyMultiValueArg = "(string, string list) gomap"

definition multiArg_String :: "multiArg \<Rightarrow> string" where
  "multiArg_String b = join '','' b"

definition multiArg_Set :: "string \<Rightarrow> (multiArg, unit) act" where
  "multiArg_Set v b = (Inr (), b @ [v])"

definition multiArg_Contains :: "multiArg \<Rightarrow> string \<Rightarrow> bool" where
  "multiArg_Contains b v = list_ex (\<lambda>s. s = v) b"

definition keyValueArg_String :: "keyValueArg \<Rightarrow> string" where
  "keyValueArg_String a = join '','' (map (\<lambda>(k, v). k @ ''='' @ v) a)"

definition keyValueArg_Set :: "string \<Rightarrow> (keyValueArg, unit) act" where
  "keyValueArg_Set v a =
     (case splitn 2 CHR ''='' v of
        [k, x] \<Rightarrow> (Inr (), gm_set a k x)
      | _ \<Rightarrow> (Inl (Msg (''invalid argument value. expect key=value, got '' @ v)), a))"

definition parseKV :: "string \<Rightarrow> (multiKeyMultiValueArg, unit) act" where
  "parseKV v c =
     (case splitn 2 CHR ''='' v of
        [k, x] \<Rightarrow> (Inr (), gm_set c k ((case gm_get c k of None \<Rightarrow> [] | Some vs \<Rightarrow> vs) @ [x]))
      | _ \<Rightarrow> (Inl (Msg (''invalid argument value. expect key=value, got '' @ v)), c))"

definition multiKeyMultiValueArg_String :: "multiKeyMultiValueArg \<Rightarrow> string" where
  "multiKeyMultiValueArg_String c = join '';'' (concat (map (\<lambda>(k, vs). map (\<lambda>v. k @ ''='' @ v) vs) c))"

definition multiKeyMultiValueArg_Set :: "string \<Rightarrow> (multiKeyMultiValueArg, unit) act" where
  "multiKeyMultiValueArg_Set v =
     (if v = [] then sret ()
      else if contains v '';'' then sfold parseKV (split_on CHR '';'' v)
      else parseKV v)"

subsection \<open>Options\<close>

record KanikoGitOptions =
  Branch :: string
  SingleBranch :: bool
  RecurseSubmodules :: bool
  InsecureSkipTLS :: bool

definition show_bool :: "bool \<Rightarrow> string" where
  "show_bool b = (if b then ''true'' else ''false'')"

definition KanikoGitOptions_String :: "KanikoGitOptions \<Rightarrow> string" where
  "KanikoGitOptions_String k =
     ''branch='' @ Branch k @ '',single-branch='' @ show_bool (SingleBranch k) @
     '',recurse-submodules='' @ show_bool (RecurseSubmodules k)"

definition KanikoGitOptions_Set :: "string \<Rightarrow> (KanikoGitOptions, unit) act" where
  "KanikoGitOptions_Set s k =
     (case splitn 2 CHR ''='' s of
        [key, v] \<Rightarrow>
          if key = ''branch'' then (Inr (), k\<lparr>Branch := v\<rparr>)
          else if key = ''single-branch'' then
            (case parse_bool v of Inl e \<Rightarrow> (Inl e, k) | Inr b \<Rightarrow> (Inr (), k\<lparr>SingleBranch := b\<rparr>))
          else if key = ''recurse-submodules'' then
            (case parse_bool v of Inl e \<Rightarrow> (Inl e, k) | Inr b \<Rightarrow> (Inr (), k\<lparr>RecurseSubmodules := b\<rparr>))
          else if key = ''insecure-skip-tls'' then
            (case parse_bool v of Inl e \<Rightarrow> (Inl e, k) | Inr b \<Rightarrow> (Inr (), k\<lparr>InsecureSkipTLS := b\<rparr>))
          else (Inr (), k)
      | _ \<Rightarrow> (Inl (Wrap s (Msg ''invalid git flag, must be in the key=value format'')), k))"

datatype Compression = NoCompression | GZip | ZStd

definition Compression_String :: "Compression \<Rightarrow> string" where
  "Compression_String c = (case c of NoCompression \<Rightarrow> [] | GZip \<Rightarrow> ''gzip'' | ZStd \<Rightarrow> ''zstd'')"

definition Compression_Set :: "string \<Rightarrow> (Compression, unit) act" where
  "Compression_Set v c =
     (if v = ''gzip'' then (Inr (), GZip) else if v = ''zstd'' then (Inr (), ZStd)
      else (Inl (Msg ''must be either gzip or zstd''), c))"

record RegistryOptions =
  RegistryMaps :: multiKeyMultiValueArg
  RegistryMirrors :: multiArg
  InsecureRegistries :: multiArg
  SkipTLSVerifyRegistries :: multiArg
  RegistriesCertificates :: keyValueArg
  RegistriesClientCertificates :: keyValueArg
  SkipDefaultRegistryFallback :: bool
  Insecure :: bool
  SkipTLSVerify :: bool
  InsecurePull :: bool
  SkipTLSVerifyPull :: bool
  PushIgnoreImmutableTagErrors :: bool
  PushRetry :: nat
  ImageDownloadRetry :: nat

record CacheOptions =
  CacheDir :: string
  CacheTTL :: int

record KanikoOptions =
  Registry :: RegistryOptions
  CacheOpts :: CacheOptions
  Destinations :: multiArg
  BuildArgs_opt :: multiArg
  Labels_opt :: multiArg
  Git :: KanikoGitOptions
  IgnorePaths :: multiArg
  DockerfilePath :: string
  SrcContext :: string
  SnapshotMode :: string
  CustomPlatform :: string
  TarPath :: string
  Target :: string
  CacheRepo :: string
  DigestFile :: string
  ImageNameDigestFile :: string
  ImageNameTagDigestFile :: string
  OCILayoutPath :: string
  Compression_opt :: Compression
  CompressionLevel :: int
  ImageFSExtractRetry :: nat
  SingleSnapshot :: bool
  Reproducible :: bool
  NoPush :: bool
  NoPushCache :: bool
  Cache :: bool
  Cleanup :: bool
  CompressedCaching :: bool
  IgnoreVarRun :: bool
  SkipUnusedStages :: bool
  RunV2 :: bool
  CacheCopyLayers :: bool
  CacheRunLayers :: bool
  ForceBuildMetadata :: bool
  InitialFSUnpacked :: bool
  SkipPushPermissionCheck :: bool
  Sandbox :: bool

definition no_registry_options :: RegistryOptions where
  "no_registry_options = \<lparr>RegistryMaps = [], RegistryMirrors = [], InsecureRegistries = [],
     SkipTLSVerifyRegistries = [], RegistriesCertificates = [], RegistriesClientCertificates = [],
     SkipDefaultRegistryFallback = False, Insecure = False, SkipTLSVerify = False, InsecurePull = False,
     SkipTLSVerifyPull = False, PushIgnoreImmutableTagErrors = False, PushRetry = 0, ImageDownloadRetry = 0\<rparr>"

definition default_options :: KanikoOptions where
  "default_options = \<lparr>Registry = no_registry_options, CacheOpts = \<lparr>CacheDir = ''/cache'', CacheTTL = 1209600\<rparr>,
     Destinations = [], BuildArgs_opt = [], Labels_opt = [],
     Git = \<lparr>Branch = [], SingleBranch = False, RecurseSubmodules = False, InsecureSkipTLS = False\<rparr>,
     IgnorePaths = [], DockerfilePath = ''Dockerfile'', SrcContext = [], SnapshotMode = ''full'',
     CustomPlatform = [], TarPath = [], Target = [], CacheRepo = [], DigestFile = [], ImageNameDigestFile = [],
     ImageNameTagDigestFile = [], OCILayoutPath = [], Compression_opt = NoCompression, CompressionLevel = -1,
     ImageFSExtractRetry = 0, SingleSnapshot = False, Reproducible = False, NoPush = False, NoPushCache = False,
     Cache = False, Cleanup = False, CompressedCaching = True, IgnoreVarRun = True, SkipUnusedStages = False,
     RunV2 = False, CacheCopyLayers = False, CacheRunLayers = True, ForceBuildMetadata = False,
     InitialFSUnpacked = False, SkipPushPermissionCheck = False, Sandbox = False\<rparr>"

subsection \<open>Round trip of the registry map flag\<close>

lemma gm_set_new: "\<not> gm_has m k \<Longrightarrow> gm_set m k v = m @ [(k, v)]"
  unfolding gm_has_def gm_get_def gm_set_def by (induction m) auto

lemma gm_set_last: "\<not> gm_has m k \<Longrightarrow> gm_set (m @ [(k, u)]) k v = m @ [(k, v)]"
  unfolding gm_has_def gm_get_def gm_set_def by (induction m) auto

lemma gm_get_last: "\<not> gm_has m k \<Longrightarrow> gm_get (m @ [(k, u)]) k = Some u"
  unfolding gm_has_def gm_get_def by (induction m) auto

lemma parseKV_pair:
  "CHR ''='' \<notin> set k \<Longrightarrow> parseKV (k @ CHR ''='' # v) c =
     (Inr (), gm_set c k ((case gm_get c k of None \<Rightarrow> [] | Some vs \<Rightarrow> vs) @ [v]))"
  by (simp add: parseKV_def numeral_2_eq_2)

lemma parseKV_more:
  assumes "\<not> gm_has m k" and "CHR ''='' \<notin> set k"
  shows "sfold parseKV (map (\<lambda>v. k @ ''='' @ v) vs) (m @ [(k, us)]) = (Inr (), m @ [(k, us @ vs)])"
proof (induction vs arbitrary: us)
  case (Cons v vs)
  have "parseKV (k @ ''='' @ v) (m @ [(k, us)]) = (Inr (), m @ [(k, us @ [v])])"
    using assms by (simp add: parseKV_pair gm_get_last gm_set_last)
  with Cons show ?case by simp
qed simp

lemma parseKV_key:
  assumes "\<not> gm_has m k" and "CHR ''='' \<notin> set k" and "vs \<noteq> []"
  shows "sfold parseKV (map (\<lambda>v. k @ ''='' @ v) vs) m = (Inr (), m @ [(k, vs)])"
proof -
  obtain v ws where vs: "vs = v # ws" using assms(3) by (cases vs) auto
  have "gm_get m k = None" using assms(1) by (simp add: gm_has_def)
  then have "parseKV (k @ ''='' @ v) m = (Inr (), m @ [(k, [v])])"
    using assms by (simp add: parseKV_pair gm_set_new)
  with parseKV_more [OF assms(1,2), of ws "[v]"] vs show ?thesis by simp
qed

definition flag_ok :: "multiKeyMultiValueArg \<Rightarrow> bool" where
  "flag_ok c \<longleftrightarrow> gm_wf c \<and>
     list_all (\<lambda>(k, vs). CHR ''='' \<notin> set k \<and> CHR '';'' \<notin> set k \<and> vs \<noteq> [] \<and> list_all (\<lambda>v. CHR '';'' \<notin> set v) vs) c"

lemma parseKV_all:
  assumes "flag_ok c" and "\<And>k. gm_has c k \<Longrightarrow> \<not> gm_has m k"
  shows "sfold parseKV (concat (map (\<lambda>(k, vs). map (\<lambda>v. k @ ''='' @ v) vs) c)) m = (Inr (), m @ c)"
  using assms
proof (induction c arbitrary: m)
  case (Cons kv c)
  obtain k vs where kv: "kv = (k, vs)" by (cases kv)
  have k: "\<not> gm_has m k" "CHR ''='' \<notin> set k" "vs \<noteq> []"
    using Cons.prems kv by (auto simp: flag_ok_def gm_has_def gm_get_def)
  have "flag_ok c" using Cons.prems(1) kv by (simp add: flag_ok_def gm_wf_def)
  moreover have "\<not> gm_has (m @ [(k, vs)]) j" if "gm_has c j" for j
  proof -
    have "j \<noteq> k" using that Cons.prems(1) kv gm_keys_iff [of j c] by (auto simp: flag_ok_def gm_wf_def gm_keys_def)
    moreover have "gm_has (kv # c) j" using that \<open>j \<noteq> k\<close> kv by (simp add: gm_has_def gm_get_def)
    ultimately show ?thesis using Cons.prems(2) [of j] by (auto simp: gm_has_def gm_get_def map_add_def)
  qed
  ultimately show ?case using Cons.IH [of "m @ [(k, vs)]"] parseKV_key [OF k] kv
    by (simp add: sfold_append)
qed simp

text \<open>The registry map flag survives printing and parsing: \<open>Set\<close> on the text that \<open>String\<close> renders,
  applied to an empty flag, gives back the same keys, each with its values in the same order.\<close>

theorem registry_map_flag_roundtrip:
  assumes "flag_ok c"
  shows "multiKeyMultiValueArg_Set (multiKeyMultiValueArg_String c) [] = (Inr (), c)"
proof (cases "c = []")
  case True
  then show ?thesis by (simp add: multiKeyMultiValueArg_Set_def multiKeyMultiValueArg_String_def sret_def)
next
  case False
  let ?ps = "concat (map (\<lambda>(k, vs). map (\<lambda>v. k @ ''='' @ v) vs) c)"
  have ne: "?ps \<noteq> []" using False assms by (cases c) (auto simp: flag_ok_def)
  have sep: "CHR '';'' \<notin> set w" if "w \<in> set ?ps" for w
    using that assms by (auto simp: flag_ok_def list_all_iff)
  have sp: "split_on CHR '';'' (join '';'' ?ps) = ?ps" by (rule split_on_join [OF ne sep])
  have run: "sfold parseKV ?ps [] = (Inr (), c)" using parseKV_all [OF assms, of "[]"] by simp
  have "join '';'' ?ps \<noteq> []"
  proof
    assume "join '';'' ?ps = []"
    with sp have "?ps = [[]]" by simp
    then have "[] \<in> set ?ps" by simp
    then show False by auto
  qed
  moreover have "parseKV (join '';'' ?ps) [] = (Inr (), c)" if "CHR '';'' \<notin> set (join '';'' ?ps)"
  proof -
    have "?ps = [join '';'' ?ps]" using sp split_on_no_sep [OF that] by simp
    with run have "sfold parseKV [join '';'' ?ps] [] = (Inr (), c)" by metis
    then show ?thesis by (auto split: prod.splits sum.splits)
  qed
  ultimately show ?thesis
    using sp run by (simp add: multiKeyMultiValueArg_Set_def multiKeyMultiValueArg_String_def)
qed

theorem registry_map_flag_roundtrip_witness:
  "multiKeyMultiValueArg_String [(''a'', [''x'', ''y=z'']), (''b'', [''w''])] = ''a=x;a=y=z;b=w'' \<and>
   multiKeyMultiValueArg_Set ''a=x;a=y=z;b=w'' [] = (Inr (), [(''a'', [''x'', ''y=z'']), (''b'', [''w''])])"
proof -
  have s: "multiKeyMultiValueArg_String [(''a'', [''x'', ''y=z'']), (''b'', [''w''])] = ''a=x;a=y=z;b=w''" by code_simp
  have "flag_ok [(''a'', [''x'', ''y=z'']), (''b'', [''w''])]" by (simp add: flag_ok_def gm_wf_def)
  from registry_map_flag_roundtrip [OF this] s show ?thesis by simp
qed

end
