(* ===== verification/Dockerfile.thy ===== *)
theory Dockerfile
  imports Build_Args Kaniko_Options
begin

text \<open>
  \<open>pkg/dockerfile/dockerfile.go\<close> and \<open>pkg/config/stage.go\<close>: from the text of a Dockerfile to the list of
  stages that the executor builds. The Dockerfile parser (buildkit's \<open>parser\<close> and \<open>instructions\<close>) is an
  argument, the record \<open>parser\<close>; the shell word lexer is the field \<open>lex_word\<close> of the libraries. An instruction that
  the code indexes out of range is the error value \<open>Panic\<close>.

  A slice whose spare capacity the code can write into is a \<open>slice\<close>: the number of a backing array and a length.
  The other slices are lists.
\<close>

subsection \<open>Instructions\<close>

record slice =
  sarr :: nat
  slen :: nat

record HealthConfig =
  Test :: "string list"
  Interval :: int
  Timeout :: int
  StartPeriod :: int
  Retries :: int

text \<open>The health check of the parsed instruction has one more field than that of the image configuration.\<close>

record HealthcheckConfig = HealthConfig +
  StartInterval :: int

datatype instruction =
    RunInst (CmdLine: slice) (PrependShell: bool)
  | CopyInst (srcs_dest: SourcesAndDest) (From: string) (Chown: string) (Chmod: string)
  | AddInst (srcs_dest: SourcesAndDest) (Chown: string) (Chmod: string)
  | ExposeInst (Ports: "string list")
  | EnvInst (EnvPairs: "KeyValuePair list")
  | WorkdirInst (Path: string)
  | CmdInst (CmdLine: slice) (PrependShell: bool)
  | EntrypointInst (CmdLine: slice) (PrependShell: bool)
  | LabelInst (LabelPairs: "KeyValuePair list")
  | UserInst (UserName: string)
  | OnbuildInst (Expression: string)
  | VolumeInst (VolumePaths: "string list")
  | StopSignalInst (Signal: string)
  | ArgInst (Args: ArgCommand)
  | ShellInst (ShellWords: slice)
  | HealthCheckInst (Health: HealthcheckConfig)
  | MaintainerInst (Maintainer: string)
  | OtherInst

text \<open>\<open>Name()\<close> is the instruction's keyword as the Dockerfile spells it, \<open>String()\<close> its text.\<close>

record Command =
  cmd_name :: string
  cmd_code :: string
  cmd_inst :: instruction

record Stage =
  Name :: string
  BaseName :: string
  Commands :: "Command list"

record KanikoStage =
  stage :: Stage
  BaseImageIndex :: int
  Final :: bool
  BaseImageStoredLocally :: bool
  SaveStage :: bool
  MetaArgs :: "ArgCommand list"
  Index :: nat

definition at :: "'a list \<Rightarrow> int \<Rightarrow> 'a res" where
  "at xs i = (if 0 \<le> i \<and> i < int (length xs) then Inr (xs ! nat i) else Inl (Panic ''index out of range''))"

subsection \<open>The arguments before the first \<open>FROM\<close>\<close>

definition is_quote :: "char \<Rightarrow> bool" where
  "is_quote c \<longleftrightarrow> c = CHR 39 \<or> c = CHR 34"

definition leader_of :: "string \<Rightarrow> string" where
  "leader_of v =
     (if is_quote (v ! 0) then [v ! 0]
      else if v ! 0 = CHR 92 \<and> is_quote (v ! 1) then [CHR 92, v ! 1]
      else [])"

definition tail_of :: "string \<Rightarrow> string \<Rightarrow> string" where
  "tail_of leader v =
     (let n = length v
      in if length leader < 2 then (if is_quote (v ! (n - 1)) then [v ! (n - 1)] else [])
         else (if v ! (n - 2) = CHR 92 \<and> is_quote (v ! (n - 1)) then [CHR 92, v ! (n - 1)] else []))"

definition extractValFromQuotes :: "string \<Rightarrow> string res" where
  "extractValFromQuotes v =
     (if length v < 2 then Inr v
      else let leader = leader_of v; tail = tail_of leader v
           in if leader \<noteq> tail then Inl (Msg ''quotes wrapping arg values must be matched'')
              else if leader = [] then Inr v
              else if length leader = 2 then Inr v
              else Inr (take (length v - 2) (drop 1 v)))"

definition stripEnclosingQuotes :: "ArgCommand list \<Rightarrow> ArgCommand list res" where
  "stripEnclosingQuotes =
     rmap (rmap (\<lambda>(k, v). case v of
        None \<Rightarrow> Inr (k, None)
      | Some s \<Rightarrow> rbind (extractValFromQuotes s) (\<lambda>s'. Inr (k, Some s'))))"

text \<open>The two loops of \<open>expandNestedArgs\<close>: each value may mention the arguments before it and the
  \<open>--build-arg\<close> options.\<close>

fun expand_args :: "libs \<Rightarrow> string list \<Rightarrow> string list \<Rightarrow> ArgCommand \<Rightarrow> (ArgCommand \<times> string list) res" where
  "expand_args lib buildArgs prevArgs [] = Inr ([], prevArgs)"
| "expand_args lib buildArgs prevArgs ((k, None) # as) =
     rbind (expand_args lib buildArgs prevArgs as) (\<lambda>(as', p). Inr ((k, None) # as', p))"
| "expand_args lib buildArgs prevArgs ((k, Some v) # as) =
     rbind (ResolveEnvironmentReplacement lib v (prevArgs @ buildArgs) False) (\<lambda>x.
     rbind (expand_args lib buildArgs (prevArgs @ [k @ ''='' @ x]) as) (\<lambda>(as', p).
       Inr ((k, Some x) # as', p)))"

fun expand_metas :: "libs \<Rightarrow> string list \<Rightarrow> string list \<Rightarrow> ArgCommand list \<Rightarrow> ArgCommand list res" where
  "expand_metas lib buildArgs prevArgs [] = Inr []"
| "expand_metas lib buildArgs prevArgs (m # ms) =
     rbind (expand_args lib buildArgs prevArgs m) (\<lambda>(m', p).
     rbind (expand_metas lib buildArgs p ms) (\<lambda>ms'. Inr (m' # ms')))"

definition expandNestedArgs :: "libs \<Rightarrow> ArgCommand list \<Rightarrow> string list \<Rightarrow> ArgCommand list res" where
  "expandNestedArgs lib metaArgs buildArgs = expand_metas lib buildArgs [] metaArgs"

text \<open>The entry points of the parser: a whole Dockerfile, the top-level nodes of a text, and one node. The
  arrays of the slices in the instructions it returns are those of the store the build starts from.\<close>

record parser =
  parse :: "string \<Rightarrow> (Stage list \<times> ArgCommand list) res"
  parse_nodes :: "string \<Rightarrow> string list res"
  parse_node :: "string \<Rightarrow> Command res"

definition Parse :: "parser \<Rightarrow> string \<Rightarrow> (Stage list \<times> ArgCommand list) res" where
  "Parse prs b =
     rbind (parse prs b) (\<lambda>(stages, metaArgs).
     rbind (stripEnclosingQuotes metaArgs) (\<lambda>metaArgs. Inr (stages, metaArgs)))"

definition ParseStages :: "parser \<Rightarrow> libs \<Rightarrow> world \<Rightarrow> KanikoOptions \<Rightarrow> (Stage list \<times> ArgCommand list) res" where
  "ParseStages prs lib w opts =
     (let path = DockerfilePath opts;
          remote = has_prefix path ''http://'' \<or> has_prefix path ''https://'';
          text = (if remote then rbind (http_Get lib path) (\<lambda>r. Inr (body r))
                  else wrap (''reading dockerfile at path '' @ path) (os_ReadFile (files w) path))
      in rbind text (\<lambda>d.
         rbind (wrap ''parsing dockerfile'' (Parse prs d)) (\<lambda>(stages, metaArgs).
         rbind (wrap ''expanding meta ARGs'' (expandNestedArgs lib metaArgs (BuildArgs_opt opts))) (\<lambda>metaArgs.
           Inr (stages, metaArgs)))))"

definition ParseCommands :: "parser \<Rightarrow> string list \<Rightarrow> Command list res" where
  "ParseCommands prs cmdArray = rbind (parse_nodes prs (join [CHR 10] cmdArray)) (rmap (parse_node prs))"

subsection \<open>References between stages\<close>

definition baseImageIndex :: "nat \<Rightarrow> Stage list \<Rightarrow> int" where
  "baseImageIndex currentStage stages =
     (case find_index (\<lambda>s. Name s = to_lower (BaseName (stages ! currentStage))) (take currentStage stages) of
        None \<Rightarrow> -1 | Some i \<Rightarrow> int i)"

definition targetStage :: "Stage list \<Rightarrow> string \<Rightarrow> int res" where
  "targetStage stages target =
     (if target = [] then Inr (int (length stages) - 1)
      else (case find_index (\<lambda>s. equal_fold (Name s) target) stages of
              Some i \<Rightarrow> Inr (int i)
            | None \<Rightarrow> Inl (Msg (target @ '' is not a valid target build stage''))))"

definition saveStage :: "nat \<Rightarrow> Stage list \<Rightarrow> bool" where
  "saveStage index stages =
     list_ex (\<lambda>s. to_lower (BaseName s) = Name (stages ! index) \<and> BaseName s \<noteq> []) (drop (Suc index) stages)"

definition resolve_from :: "(string, string) gomap \<Rightarrow> Command \<Rightarrow> Command" where
  "resolve_from stageNameToIdx c =
     (case cmd_inst c of
        CopyInst sd from chown chmod \<Rightarrow>
          (if from \<noteq> [] then
             (case gm_get stageNameToIdx (to_lower from) of
                Some v \<Rightarrow> c\<lparr>cmd_inst := CopyInst sd v chown chmod\<rparr> | None \<Rightarrow> c)
           else c)
      | _ \<Rightarrow> c)"

definition ResolveCrossStageCommands :: "Command list \<Rightarrow> (string, string) gomap \<Rightarrow> Command list" where
  "ResolveCrossStageCommands cmds stageNameToIdx = map (resolve_from stageNameToIdx) cmds"

definition GetOnBuildInstructions :: "parser \<Rightarrow> string list \<Rightarrow> (string, string) gomap \<Rightarrow> Command list res" where
  "GetOnBuildInstructions prs onBuild stageNameToIdx =
     (if onBuild = [] then Inr []
      else rbind (ParseCommands prs onBuild) (\<lambda>cmds. Inr (ResolveCrossStageCommands cmds stageNameToIdx)))"

definition resolveStagesArgs :: "libs \<Rightarrow> Stage list \<Rightarrow> string list \<Rightarrow> Stage list res" where
  "resolveStagesArgs lib stages args =
     rmap (\<lambda>s. rbind (wrap (''resolving base name '' @ BaseName s)
                        (ResolveEnvironmentReplacement lib (BaseName s) args False))
                (\<lambda>n. Inr (s\<lparr>BaseName := n\<rparr>))) stages"

definition set_meta :: "string \<times> string option \<Rightarrow> (string, string) gomap \<Rightarrow> (string, string) gomap" where
  "set_meta kv m = (case snd kv of None \<Rightarrow> m | Some v \<Rightarrow> gm_set m (fst kv) v)"

definition set_build :: "string \<Rightarrow> (string, string) gomap \<Rightarrow> (string, string) gomap" where
  "set_build a m =
     (case split_on CHR ''='' a of k # v # _ \<Rightarrow> (if v \<noteq> [] then gm_set m k v else m) | _ \<Rightarrow> m)"

definition unifyArgs :: "ArgCommand list \<Rightarrow> string list \<Rightarrow> string list" where
  "unifyArgs metaArgs buildArgs =
     (let argsMap = fold (fold set_meta) metaArgs [];
          argsMap = fold set_build buildArgs argsMap
      in map (\<lambda>(k, v). k @ ''='' @ v) argsMap)"

subsection \<open>The list of stages to build\<close>

definition from_name :: "Stage list \<Rightarrow> string \<Rightarrow> string res" where
  "from_name stages from =
     (case atoi from of Inl _ \<Rightarrow> Inr from | Inr i \<Rightarrow> rbind (at stages i) (\<lambda>s. Inr (Name s)))"

definition add_dep :: "Stage list \<Rightarrow> Command \<Rightarrow> (string, bool) gomap \<Rightarrow> (string, bool) gomap res" where
  "add_dep stages c deps =
     (case cmd_inst c of
        CopyInst sd from chown chmod \<Rightarrow>
          rbind (from_name stages from) (\<lambda>n. Inr (gm_set deps n True))
      | _ \<Rightarrow> Inr deps)"

definition dep_step :: "Stage list \<Rightarrow> nat \<Rightarrow> string \<Rightarrow> nat \<times> Stage \<Rightarrow> (string, bool) gomap \<Rightarrow> (string, bool) gomap res" where
  "dep_step stages idx lastBase is deps =
     (case is of (i, s) \<Rightarrow>
        if (Name s \<noteq> [] \<and> gm_has deps (Name s)) \<or> Name s = lastBase \<or> i = idx
        then rbind (rfold (add_dep stages) (Commands s) deps) (\<lambda>deps.
               Inr (if i \<noteq> idx then gm_set deps (BaseName s) True else deps))
        else Inr deps)"

definition skipUnusedStages :: "Stage list \<Rightarrow> int \<Rightarrow> string \<Rightarrow> (Stage list \<times> int) res" where
  "skipUnusedStages stages lastStageIndex target =
     rbind (at stages lastStageIndex) (\<lambda>lastStage.
       let idx = nat lastStageIndex; lastBase = BaseName lastStage
       in rbind (rfold (dep_step stages idx lastBase) (rev (enumerate 0 (take (Suc idx) stages))) []) (\<lambda>deps.
          if target = [] \<and> deps = [] then Inr (stages, lastStageIndex)
          else let kept = (if deps \<noteq> []
                           then filter (\<lambda>s. Name s \<noteq> [] \<and> (gm_has deps (Name s) \<or> Name s = lastBase)) (take idx stages)
                           else []);
                   used = kept @ [lastStage]
               in Inr (used, if lastStageIndex > int (length used) - 1 then int (length used) - 1 else lastStageIndex)))"

definition make_stage :: "Stage list \<Rightarrow> int \<Rightarrow> ArgCommand list \<Rightarrow> nat \<Rightarrow> KanikoStage" where
  "make_stage stages target metaArgs index =
     \<lparr>stage = stages ! index, BaseImageIndex = baseImageIndex index stages, Final = (int index = target),
      BaseImageStoredLocally = (baseImageIndex index stages \<noteq> -1), SaveStage = saveStage index stages,
      MetaArgs = metaArgs, Index = index\<rparr>"

text \<open>The loop over the stages stops after the target.\<close>

definition MakeKanikoStages :: "libs \<Rightarrow> KanikoOptions \<Rightarrow> Stage list \<Rightarrow> ArgCommand list \<Rightarrow> KanikoStage list res" where
  "MakeKanikoStages lib opts stages metaArgs =
     rbind (wrap ''Error finding target stage'' (targetStage stages (Target opts))) (\<lambda>target.
     rbind (wrap ''resolving args'' (resolveStagesArgs lib stages (unifyArgs metaArgs (BuildArgs_opt opts)))) (\<lambda>stages.
     rbind (if SkipUnusedStages opts then skipUnusedStages stages target (Target opts) else Inr (stages, target))
       (\<lambda>(stages, target).
         Inr (map (make_stage stages target metaArgs)
                [0..<(if 0 \<le> target \<and> target < int (length stages) then Suc (nat target) else length stages)]))))"

subsection \<open>Quotes around an argument\<close>

text \<open>The value of an \<open>ARG\<close> before the first \<open>FROM\<close>, for every string: a value in matching plain
  quotes loses exactly the outermost pair, a value in matching escaped quotes and a value without quotes
  at either end stay as they are, and every other combination of quotes at the two ends is an
  error.\<close>

theorem extractValFromQuotes_table:
  "extractValFromQuotes v =
     (if length v < 2 then Inr v
      else if is_quote (hd v) then
        (if last v = hd v then Inr (butlast (tl v)) else Inl (Msg ''quotes wrapping arg values must be matched''))
      else if hd v = CHR 92 \<and> is_quote (v ! 1) then
        (if drop (length v - 2) v = take 2 v then Inr v else Inl (Msg ''quotes wrapping arg values must be matched''))
      else if is_quote (last v) then Inl (Msg ''quotes wrapping arg values must be matched'')
      else Inr v)"
proof (cases "length v < 2")
  case False
  then obtain a b w where v: "v = a # b # w" by (cases v; cases "tl v") auto
  let ?n = "length v"
  have last: "v ! (?n - 1) = last v" using v by (simp add: last_conv_nth)
  have two: "drop (?n - 2) v = [v ! (?n - 2), v ! (?n - 1)]"
    using v by (simp add: Cons_nth_drop_Suc [symmetric] numeral_2_eq_2)
  have mid: "take (?n - 2) (drop 1 v) = butlast (tl v)"
    using v by (simp add: butlast_conv_take)
  have hd: "v ! 0 = hd v" "take 2 v = [hd v, v ! 1]" using v by (simp_all add: numeral_2_eq_2)
  have nq: "\<not> is_quote CHR 92" by (simp add: is_quote_def)
  show ?thesis
    using False nq unfolding extractValFromQuotes_def leader_of_def tail_of_def Let_def two hd last mid
    by (auto simp: last)
qed (simp add: extractValFromQuotes_def)

subsection \<open>The shape of the list of stages\<close>

lemma baseImageIndex_cases:
  assumes "i < length stages"
  shows "baseImageIndex i stages = -1 \<or>
    (\<exists>j. baseImageIndex i stages = int j \<and> j < i \<and> Name (stages ! j) = to_lower (BaseName (stages ! i)))"
  using assms unfolding baseImageIndex_def by (auto split: option.splits simp: find_index_Some)

lemma saveStage_of_base:
  assumes "i < length stages" "j < i" "Name (stages ! j) = to_lower (BaseName (stages ! i))"
    and "BaseName (stages ! i) \<noteq> []"
  shows "saveStage j stages"
proof -
  have "stages ! i \<in> set (drop (Suc j) stages)"
    using assms(1,2) nth_mem [of "i - Suc j" "drop (Suc j) stages"] by simp
  with assms(3,4) show ?thesis unfolding saveStage_def list_ex_iff by metis
qed

lemma targetStage_bound: "targetStage stages t = Inr i \<Longrightarrow> i < int (length stages) \<and> (stages \<noteq> [] \<longrightarrow> 0 \<le> i)"
  by (auto simp: targetStage_def find_index_Some split: if_splits option.splits)

lemma skipUnusedStages_bound:
  assumes "skipUnusedStages stages i t = Inr (used, j)"
  shows "0 \<le> j \<and> j < int (length used)"
proof -
  from assms obtain x where x: "at stages i = Inr x" unfolding skipUnusedStages_def by auto
  then have i: "0 \<le> i" "i < int (length stages)" by (auto simp: at_def split: if_splits)
  with assms x show ?thesis unfolding skipUnusedStages_def by (auto simp: Let_def split: if_splits)
qed

text \<open>The stages the executor gets come from one list of stages, cut after the target.\<close>

lemma MakeKanikoStages_of:
  assumes "MakeKanikoStages lib opts stages metaArgs = Inr ks" "stages \<noteq> []"
  obtains ss t where "t < length ss" "ks = map (make_stage ss (int t) metaArgs) [0..<Suc t]"
proof -
  from assms(1) obtain t ss where t: "targetStage stages (Target opts) = Inr t"
    and ss: "resolveStagesArgs lib stages (unifyArgs metaArgs (BuildArgs_opt opts)) = Inr ss"
    and rest: "rbind (if SkipUnusedStages opts then skipUnusedStages ss t (Target opts) else Inr (ss, t))
       (\<lambda>(stages, target). Inr (map (make_stage stages target metaArgs)
          [0..<(if 0 \<le> target \<and> target < int (length stages) then Suc (nat target) else length stages)])) = Inr ks"
    unfolding MakeKanikoStages_def by auto
  have len: "length ss = length stages" using ss unfolding resolveStagesArgs_def by (rule rmap_Inr_length)
  obtain us u where us: "0 \<le> u" "u < int (length us)"
    "ks = map (make_stage us u metaArgs) [0..<Suc (nat u)]"
  proof (cases "SkipUnusedStages opts")
    case True
    with rest obtain us u where "skipUnusedStages ss t (Target opts) = Inr (us, u)"
      and "ks = map (make_stage us u metaArgs) [0..<(if 0 \<le> u \<and> u < int (length us) then Suc (nat u) else length us)]"
      by auto
    with skipUnusedStages_bound [of ss t "Target opts" us u] that show thesis by auto
  next
    case False
    with rest targetStage_bound [OF t] assms(2) len that [of t ss] show thesis by (auto simp: Let_def)
  qed
  show thesis by (rule that [of "nat u" us]) (use us in auto)
qed

text \<open>C9. The list of stages the executor builds: stages are numbered in order, exactly the last one is
  the target, and a stage with a local base has a base that comes earlier, bears the (lower-case) base name
  and is marked to be saved.\<close>

theorem MakeKanikoStages_shape:
  assumes "MakeKanikoStages lib opts stages metaArgs = Inr ks" "stages \<noteq> []"
  shows "ks \<noteq> [] \<and> (\<forall>i < length ks. Index (ks ! i) = i \<and> Final (ks ! i) = (i = length ks - 1)
    \<and> BaseImageStoredLocally (ks ! i) = (BaseImageIndex (ks ! i) \<noteq> -1)
    \<and> (BaseImageIndex (ks ! i) = -1 \<or>
        (\<exists>j < i. BaseImageIndex (ks ! i) = int j \<and> Name (stage (ks ! j)) = to_lower (BaseName (stage (ks ! i)))
          \<and> (BaseName (stage (ks ! i)) \<noteq> [] \<longrightarrow> SaveStage (ks ! j)))))"
proof -
  obtain ss t where t: "t < length ss" and ks: "ks = map (make_stage ss (int t) metaArgs) [0..<Suc t]"
    by (rule MakeKanikoStages_of [OF assms])
  have nth: "ks ! i = make_stage ss (int t) metaArgs i" if "i < length ks" for i
    using that by (simp add: ks del: upt_Suc)
  have len: "length ks = Suc t" by (simp add: ks)
  have "BaseImageIndex (ks ! i) = -1 \<or>
      (\<exists>j < i. BaseImageIndex (ks ! i) = int j \<and> Name (stage (ks ! j)) = to_lower (BaseName (stage (ks ! i)))
          \<and> (BaseName (stage (ks ! i)) \<noteq> [] \<longrightarrow> SaveStage (ks ! j)))" if i: "i < length ks" for i
  proof -
    have il: "i < length ss" using i len t by simp
    from baseImageIndex_cases [OF il] show ?thesis
    proof
      assume "\<exists>j. baseImageIndex i ss = int j \<and> j < i \<and> Name (ss ! j) = to_lower (BaseName (ss ! i))"
      then obtain j where j: "baseImageIndex i ss = int j" "j < i" "Name (ss ! j) = to_lower (BaseName (ss ! i))"
        by blast
      have "j < length ks" using j(2) i by simp
      with j nth [OF i] nth [of j] saveStage_of_base [OF il j(2,3)] show ?thesis
        by (intro disjI2 exI [of _ j]) (simp add: make_stage_def)
    qed (use nth [OF i] in \<open>simp add: make_stage_def\<close>)
  qed
  with nth len show ?thesis by (auto simp: make_stage_def)
qed

definition demo_stages :: "Stage list" where
  "demo_stages =
     [\<lparr>Name = ''build'', BaseName = ''golang'', Commands = []\<rparr>,
      \<lparr>Name = ''unused'', BaseName = ''alpine'', Commands = []\<rparr>,
      \<lparr>Name = ''test'', BaseName = ''Build'', Commands = []\<rparr>,
      \<lparr>Name = [], BaseName = ''scratch'', Commands =
         [\<lparr>cmd_name = ''COPY'', cmd_code = ''COPY --from=build /a /b'',
           cmd_inst = CopyInst \<lparr>SourcePaths = [''/a''], DestPath = ''/b''\<rparr> ''build'' [] []\<rparr>]\<rparr>]"

theorem MakeKanikoStages_shape_witness:
  "\<exists>ks. MakeKanikoStages plain_libs (default_options\<lparr>Target := ''TEST''\<rparr>) demo_stages [] = Inr ks \<and> length ks = 3 \<and>
     (\<forall>i < length ks. Final (ks ! i) = (i = length ks - 1)) \<and> BaseImageIndex (ks ! 2) = 0 \<and> SaveStage (ks ! 0)"
proof -
  obtain ks where ks: "MakeKanikoStages plain_libs (default_options\<lparr>Target := ''TEST''\<rparr>) demo_stages [] = Inr ks"
    and more: "length ks = 3" "BaseImageIndex (ks ! 2) = 0" "SaveStage (ks ! 0)"
  proof -
    have "case MakeKanikoStages plain_libs (default_options\<lparr>Target := ''TEST''\<rparr>) demo_stages [] of
       Inl _ \<Rightarrow> False | Inr ks \<Rightarrow> length ks = 3 \<and> BaseImageIndex (ks ! 2) = 0 \<and> SaveStage (ks ! 0)" by code_simp
    then show thesis by (auto split: sum.splits intro: that)
  qed
  have "demo_stages \<noteq> []" by (simp add: demo_stages_def)
  from MakeKanikoStages_shape [OF ks this] ks more show ?thesis by auto
qed

subsection \<open>Unused stages\<close>

definition ref_of :: "Stage list \<Rightarrow> Command \<Rightarrow> string list" where
  "ref_of stages c =
     (case cmd_inst c of CopyInst _ from _ _ \<Rightarrow> (case from_name stages from of Inl _ \<Rightarrow> [] | Inr n \<Rightarrow> [n]) | _ \<Rightarrow> [])"

definition refs :: "Stage list \<Rightarrow> Stage \<Rightarrow> string list" where
  "refs stages s = BaseName s # concat (map (ref_of stages) (Commands s))"

lemma add_deps_has:
  "rfold (add_dep stages) cs deps = Inr d \<Longrightarrow>
     gm_has d k \<longleftrightarrow> gm_has deps k \<or> k \<in> set (concat (map (ref_of stages) cs))"
proof (induction cs arbitrary: deps)
  case (Cons c cs)
  then obtain e where e: "add_dep stages c deps = Inr e" "rfold (add_dep stages) cs e = Inr d" by auto
  have "gm_has e k \<longleftrightarrow> gm_has deps k \<or> k \<in> set (ref_of stages c)"
    using e(1) by (auto simp: add_dep_def ref_of_def split: instruction.splits)
  with Cons.IH [OF e(2)] show ?case by auto
qed simp

definition live :: "nat \<Rightarrow> string \<Rightarrow> (string, bool) gomap \<Rightarrow> nat \<Rightarrow> Stage \<Rightarrow> bool" where
  "live idx lastBase deps i s \<longleftrightarrow> (Name s \<noteq> [] \<and> gm_has deps (Name s)) \<or> Name s = lastBase \<or> i = idx"

lemma dep_step_has:
  assumes "dep_step stages idx lastBase (i, s) deps = Inr d"
  shows "gm_has d k \<longleftrightarrow> gm_has deps k \<or> (live idx lastBase deps i s \<and>
    k \<in> set (if i = idx then tl (refs stages s) else refs stages s))"
proof (cases "live idx lastBase deps i s")
  case True
  with assms obtain e where "rfold (add_dep stages) (Commands s) deps = Inr e"
    and "d = (if i \<noteq> idx then gm_set e (BaseName s) True else e)"
    by (auto simp: dep_step_def live_def)
  with add_deps_has [of stages "Commands s" deps e] True show ?thesis by (auto simp: refs_def)
qed (use assms in \<open>auto simp: dep_step_def live_def split: if_splits\<close>)

lemma dep_steps_mono:
  "rfold (dep_step stages idx lastBase) xs deps = Inr d \<Longrightarrow> gm_has deps k \<Longrightarrow> gm_has d k"
proof (induction xs arbitrary: deps)
  case (Cons x xs)
  obtain i s where x: "x = (i, s)" by (cases x)
  from Cons.prems(1) obtain e where "dep_step stages idx lastBase (i, s) deps = Inr e"
    "rfold (dep_step stages idx lastBase) xs e = Inr d" using x by auto
  with Cons.IH dep_step_has Cons.prems(2) show ?case by metis
qed simp

lemma dep_steps_from:
  "rfold (dep_step stages idx lastBase) xs deps = Inr d \<Longrightarrow> gm_has d k \<Longrightarrow>
     gm_has deps k \<or> (\<exists>(i, s) \<in> set xs. k \<in> set (refs stages s))"
proof (induction xs arbitrary: deps)
  case (Cons x xs)
  obtain i s where x: "x = (i, s)" by (cases x)
  from Cons.prems(1) obtain e where e: "dep_step stages idx lastBase (i, s) deps = Inr e"
    "rfold (dep_step stages idx lastBase) xs e = Inr d" using x by auto
  from Cons.IH [OF e(2) Cons.prems(2)] dep_step_has [OF e(1), of k] x show ?case
    by (auto simp: refs_def split: if_splits)
qed simp

text \<open>A stage that ends up among the dependencies was processed as one, when neither it nor a stage before
  it refers to it.\<close>

lemma dep_steps_split:
  assumes "rfold (dep_step stages idx lastBase) (ys @ (i, s) # zs) [] = Inr d"
    and kept: "(Name s \<noteq> [] \<and> gm_has d (Name s)) \<or> Name s = lastBase \<or> i = idx"
    and bw: "\<And>j t. (j, t) \<in> set ((i, s) # zs) \<Longrightarrow> Name s \<noteq> [] \<Longrightarrow> Name s \<notin> set (refs stages t)"
    and k: "k \<in> set (if i = idx then tl (refs stages s) else refs stages s)"
  shows "gm_has d k"
proof -
  from assms(1) obtain e e' where e: "rfold (dep_step stages idx lastBase) ys [] = Inr e"
    and e': "dep_step stages idx lastBase (i, s) e = Inr e'" and d: "rfold (dep_step stages idx lastBase) zs e' = Inr d"
    by (auto simp: rfold_append)
  have "live idx lastBase e i s"
  proof (cases "Name s = lastBase \<or> i = idx")
    case False
    with kept have n: "Name s \<noteq> []" "gm_has d (Name s)" by auto
    have "gm_has e' (Name s)" using dep_steps_from [OF d n(2)] bw n(1) by fastforce
    with dep_step_has [OF e', of "Name s"] bw [of i s] n(1) have "gm_has e (Name s)"
      by (auto simp: refs_def split: if_splits)
    with n show ?thesis by (simp add: live_def)
  qed (auto simp: live_def)
  with dep_step_has [OF e', of k] k have "gm_has e' k" by simp
  with dep_steps_mono [OF d] show ?thesis by simp
qed

lemma rev_enumerate_split:
  assumes "i < length xs"
  shows "rev (enumerate 0 xs) = rev (enumerate (Suc i) (drop (Suc i) xs)) @ (i, xs ! i) # rev (enumerate 0 (take i xs))"
proof -
  have "xs = take i xs @ xs ! i # drop (Suc i) xs" by (rule id_take_nth_drop [OF assms])
  moreover have "length (take i xs) = i" using assms by simp
  ultimately show ?thesis
    by (metis (no_types, lifting) append_Cons append_assoc append_self_conv2 enumerate_append_eq enumerate_simps(2) add_0
        rev.simps(2) rev_append)
qed

definition backward :: "Stage list \<Rightarrow> nat \<Rightarrow> bool" where
  "backward stages idx \<longleftrightarrow>
     list_all (\<lambda>i. list_all (\<lambda>j. Name (stages ! i) \<noteq> [] \<longrightarrow> Name (stages ! i) \<notin> set (refs stages (stages ! j))) [0..<Suc i]) [0..<idx]"

text \<open>With \<open>deps\<close> as the loop leaves it: what a kept stage refers to is a dependency.\<close>

lemma deps_closed:
  assumes deps: "rfold (dep_step stages idx lastBase) (rev (enumerate 0 (take (Suc idx) stages))) [] = Inr deps"
    and idx: "idx < length stages" and bw: "backward stages idx" and i: "i \<le> idx"
    and kept: "i = idx \<or> (Name (stages ! i) \<noteq> [] \<and> (gm_has deps (Name (stages ! i)) \<or> Name (stages ! i) = lastBase))"
    and k: "k \<in> set (if i = idx then tl (refs stages (stages ! i)) else refs stages (stages ! i))"
  shows "gm_has deps k"
proof (cases "i = idx")
  case True
  have split: "rev (enumerate 0 (take (Suc idx) stages)) = [] @ (idx, stages ! idx) # rev (enumerate 0 (take idx stages))"
    using rev_enumerate_split [of idx "take (Suc idx) stages"] idx by (simp add: min_def)
  from deps have "rfold (dep_step stages idx lastBase) ((idx, stages ! idx) # rev (enumerate 0 (take idx stages))) [] = Inr deps"
    unfolding split by simp
  then obtain e where e: "dep_step stages idx lastBase (idx, stages ! idx) [] = Inr e"
    "rfold (dep_step stages idx lastBase) (rev (enumerate 0 (take idx stages))) e = Inr deps" by auto
  from dep_step_has [OF e(1), of k] k True have "gm_has e k" by (simp add: live_def)
  with dep_steps_mono [OF e(2)] show ?thesis by simp
next
  case False
  let ?xs = "take (Suc idx) stages"
  have il: "i < length ?xs" and nth: "?xs ! i = stages ! i" using i idx by auto
  show ?thesis
  proof (rule dep_steps_split [OF deps [unfolded rev_enumerate_split [OF il] nth]])
    fix j t assume "(j, t) \<in> set ((i, stages ! i) # rev (enumerate 0 (take i ?xs)))" and n: "Name (stages ! i) \<noteq> []"
    then have "j \<le> i \<and> t = stages ! j" using il by (auto simp: in_set_enumerate_eq)
    moreover have "i < idx" using i False by simp
    ultimately show "Name (stages ! i) \<notin> set (refs stages t)"
      using bw n unfolding backward_def list_all_iff by fastforce
  qed (use kept k in auto)
qed

lemma deps_base:
  assumes deps: "rfold (dep_step stages idx lastBase) (rev (enumerate 0 (take (Suc idx) stages))) [] = Inr deps"
    and idx: "idx < length stages" and bw: "backward stages idx"
    and t: "t \<in> set (take idx stages)" "Name t = lastBase" "Name t \<noteq> []"
  shows "deps \<noteq> []"
proof -
  obtain j where j: "j < idx" "t = stages ! j" using t(1) idx by (auto simp: in_set_conv_nth)
  have "gm_has deps (BaseName t)"
    using deps_closed [OF deps idx bw, of j "BaseName t"] j t by (simp add: refs_def)
  then show ?thesis by (auto simp: gm_has_def gm_get_def)
qed

text \<open>The stages before the target that the recorded dependencies keep\<close>

definition kept_stages :: "Stage list \<Rightarrow> nat \<Rightarrow> (string, bool) gomap \<Rightarrow> Stage list" where
  "kept_stages stages i deps = (if deps \<noteq> []
     then filter (\<lambda>s. Name s \<noteq> [] \<and> (gm_has deps (Name s) \<or> Name s = BaseName (stages ! i))) (take i stages) else [])"

lemma skipUnusedStages_result:
  assumes res: "skipUnusedStages stages target tname = Inr (used, target')"
  shows "\<exists>deps. nat target < length stages \<and>
    rfold (dep_step stages (nat target) (BaseName (stages ! nat target))) (rev (enumerate 0 (take (Suc (nat target)) stages))) [] = Inr deps \<and>
    used ! nat target' = stages ! nat target \<and>
    (used = stages \<or> used = kept_stages stages (nat target) deps @ [stages ! nat target])"
proof -
  let ?idx = "nat target" let ?last = "stages ! ?idx"
  from res have tb: "0 \<le> target" "target < int (length stages)"
    unfolding skipUnusedStages_def at_def by (auto split: if_splits)
  then have idx: "?idx < length stages" and at: "at stages target = Inr ?last" by (auto simp: at_def)
  from res at obtain deps where
    deps: "rfold (dep_step stages ?idx (BaseName ?last)) (rev (enumerate 0 (take (Suc ?idx) stages))) [] = Inr deps"
    and out: "(if tname = [] \<and> deps = [] then Inr (stages, target)
       else let kept = (if deps \<noteq> []
                 then filter (\<lambda>s. Name s \<noteq> [] \<and> (gm_has deps (Name s) \<or> Name s = BaseName ?last)) (take ?idx stages) else []);
               used = kept @ [?last]
            in Inr (used, if target > int (length used) - 1 then int (length used) - 1 else target)) = (Inr (used, target') :: (Stage list \<times> int) res)"
    by (auto simp: skipUnusedStages_def Let_def)
  have "length (kept_stages stages ?idx deps) \<le> ?idx"
    using length_filter_le [of _ "take ?idx stages"] idx by (auto simp: kept_stages_def intro: order_trans)
  with out [folded kept_stages_def] tb have "used ! nat target' = ?last \<and> (used = stages \<or> used = kept_stages stages ?idx deps @ [?last])"
    by (auto simp: Let_def nth_append split: if_splits)
  with idx deps show ?thesis by blast
qed

lemma kept_stages_closed:
  assumes deps: "rfold (dep_step stages i (BaseName (stages ! i))) (rev (enumerate 0 (take (Suc i) stages))) [] = Inr deps"
    and i: "i < length stages" "backward stages i" and s: "s = stages ! i \<or> s \<in> set (kept_stages stages i deps)"
    and t: "t \<in> set (take i stages)" "Name t \<noteq> []" "Name t \<in> set (refs stages s)"
  shows "t \<in> set (kept_stages stages i deps)"
proof -
  obtain j where j: "j \<le> i" "s = stages ! j" "j = i \<or> (Name s \<noteq> [] \<and> (gm_has deps (Name s) \<or> Name s = BaseName (stages ! i)))"
  proof (cases "s = stages ! i")
    case False
    with s have mem: "s \<in> set (take i stages)" and "Name s \<noteq> [] \<and> (gm_has deps (Name s) \<or> Name s = BaseName (stages ! i))"
      by (auto simp: kept_stages_def split: if_splits)
    moreover from mem i(1) obtain j where "j < i" "s = stages ! j" by (auto simp: in_set_conv_nth)
    ultimately show thesis by (intro that [of j]) auto
  qed (use that in auto)
  have "gm_has deps (Name t) \<or> Name t = BaseName (stages ! i)"
    using deps_closed [OF deps i j(1), of "Name t"] j t(3) by (cases "j = i") (auto simp: refs_def)
  moreover from this deps_base [OF deps i t(1) _ t(2)] have "deps \<noteq> []" by (auto simp: gm_has_def gm_get_def)
  ultimately show ?thesis using t by (simp add: kept_stages_def)
qed



subsection \<open>Arguments in base names\<close>

definition last_of :: "'a list \<Rightarrow> 'a option" where
  "last_of xs = (if xs = [] then None else Some (last xs))"

definition build_values :: "string list \<Rightarrow> string \<Rightarrow> string list" where
  "build_values buildArgs k =
     concat (map (\<lambda>a. case split_on CHR ''='' a of j # v # _ \<Rightarrow> (if j = k \<and> v \<noteq> [] then [v] else []) | _ \<Rightarrow> []) buildArgs)"

definition meta_values :: "ArgCommand list \<Rightarrow> string \<Rightarrow> string list" where
  "meta_values metaArgs k =
     concat (map (\<lambda>(j, v). case v of Some x \<Rightarrow> (if j = k then [x] else []) | None \<Rightarrow> []) (concat metaArgs))"

lemma last_of_append: "last_of (xs @ ys) = (if ys = [] then last_of xs else last_of ys)"
  by (simp add: last_of_def)

lemma fold_set_meta:
  "gm_get (fold set_meta m acc) k =
     (case last_of (meta_values [m] k) of None \<Rightarrow> gm_get acc k | Some v \<Rightarrow> Some v)"
proof (induction m arbitrary: acc)
  case (Cons kv m)
  have "meta_values [kv # m] k = meta_values [[kv]] k @ meta_values [m] k" by (simp add: meta_values_def)
  with Cons [of "set_meta kv acc"] show ?case
    by (auto simp: meta_values_def set_meta_def last_of_def split: prod.splits option.splits)
qed (simp add: meta_values_def last_of_def)

lemma fold_set_metas:
  "gm_get (fold (fold set_meta) ms acc) k =
     (case last_of (meta_values ms k) of None \<Rightarrow> gm_get acc k | Some v \<Rightarrow> Some v)"
proof (induction ms arbitrary: acc)
  case (Cons m ms)
  have "meta_values (m # ms) k = meta_values [m] k @ meta_values ms k" by (simp add: meta_values_def)
  with Cons [of "fold set_meta m acc"] fold_set_meta [of m acc k] show ?case
    by (auto simp: last_of_append split: option.splits) (auto simp: last_of_def split: if_splits)
qed (simp add: meta_values_def last_of_def)

lemma fold_set_build:
  "gm_get (fold set_build as acc) k =
     (case last_of (build_values as k) of None \<Rightarrow> gm_get acc k | Some v \<Rightarrow> Some v)"
proof (induction as arbitrary: acc)
  case (Cons a as)
  have b: "build_values (a # as) k = build_values [a] k @ build_values as k" by (simp add: build_values_def)
  have "gm_get (set_build a acc) k = (case last_of (build_values [a] k) of None \<Rightarrow> gm_get acc k | Some v \<Rightarrow> Some v)"
    by (auto simp: build_values_def set_build_def last_of_def split: list.splits)
  with Cons [of "set_build a acc"] show ?case unfolding b
    by (auto simp: last_of_append split: option.splits) (auto simp: last_of_def split: if_splits)
qed (simp add: build_values_def last_of_def)

lemma gm_wf_folds: "gm_wf m \<Longrightarrow> gm_wf (fold (fold set_meta) ms m)" "gm_wf m \<Longrightarrow> gm_wf (fold set_build as m)"
proof -
  have "gm_wf m \<Longrightarrow> gm_wf (fold set_meta xs m)" for m xs
    by (induction xs arbitrary: m) (auto simp: set_meta_def split: option.splits)
  then show "gm_wf m \<Longrightarrow> gm_wf (fold (fold set_meta) ms m)" by (induction ms arbitrary: m) auto
  show "gm_wf m \<Longrightarrow> gm_wf (fold set_build as m)"
    by (induction as arbitrary: m) (auto simp: set_build_def split: list.splits)
qed

text \<open>The arguments that base names are expanded with: \<open>k=v\<close> is among them exactly when \<open>v\<close> is the last
  non-empty value that \<open>--build-arg\<close> gives \<open>k\<close>, or, without one, the value of the last \<open>ARG\<close> before the first
  \<open>FROM\<close> that sets \<open>k\<close>. The value a \<open>--build-arg\<close> gives is the text between its first and its second
  equals sign.\<close>

theorem unifyArgs_precedence:
  "e \<in> set (unifyArgs metaArgs buildArgs) \<longleftrightarrow>
     (\<exists>k v. e = k @ ''='' @ v \<and>
        last_of (if build_values buildArgs k \<noteq> [] then build_values buildArgs k else meta_values metaArgs k) = Some v)"
proof -
  let ?m = "fold set_build buildArgs (fold (fold set_meta) metaArgs [])"
  have wf: "gm_wf ?m" by (intro gm_wf_folds) simp
  have "gm_get ?m k = last_of (if build_values buildArgs k \<noteq> [] then build_values buildArgs k else meta_values metaArgs k)" for k
    unfolding fold_set_build fold_set_metas by (auto simp: last_of_def gm_get_def split: option.splits)
  with gm_get_mem [OF wf] show ?thesis by (force simp: unifyArgs_def)
qed

end
