(* ===== verification/Sandbox_Proc.thy ===== *)
theory Sandbox_Proc
  imports Command_Util
begin

text \<open>
  The sandbox helpers of \<open>pkg/util\<close>: \<open>sandbox_proc_resolve.go\<close> (which executable the stub
  \<open>/proc/self/exe\<close> points to), \<open>sandbox_kernel_fs.go\<close> (the stub kernel file systems) and
  \<open>syscall_credentials.go\<close> (the credentials of a process). The lookup of an executable and its validation are
  arguments, as in the code.
\<close>

subsection \<open>Shell scripts\<close>

definition trim_quotes :: "string \<Rightarrow> string" where
  "trim_quotes s =
     (let q = (\<lambda>c. c = CHR 34 \<or> c = CHR 39) in rev (dropWhile q (rev (dropWhile q s))))"

text \<open>\<open>strings.Fields\<close>\<close>

definition fields :: "string \<Rightarrow> string list" where
  "fields s = filter (\<lambda>w. w \<noteq> []) (split_on CHR '' '' (map (\<lambda>c. if is_space c then CHR '' '' else c) s))"

definition isShellBuiltin :: "string \<Rightarrow> bool" where
  "isShellBuiltin word \<longleftrightarrow> word \<in> set
     [''cd'', ''export'', ''unset'', ''set'', ''true'', ''false'', '':'', ''.'', ''source'',
      ''umask'', ''ulimit'', ''shift'', ''exit'', ''return'', ''test'', ''['', ''echo'',
      ''printf'', ''read'', ''local'', ''declare'', ''typeset'', ''alias'', ''unalias'',
      ''wait'', ''trap'', ''pwd'', ''popd'', ''pushd'', ''dirs'', ''let'', ''eval'']"

text \<open>The loop of \<open>splitShellSegments\<close>; \<open>cur\<close> is the segment read so far.\<close>

fun segment_loop :: "string \<Rightarrow> string \<Rightarrow> string list" where
  "segment_loop cur [] = (if trim_space cur \<noteq> [] then [trim_space cur] else [])"
| "segment_loop cur [c] =
     (if c = CHR '';'' \<or> c = CHR ''|'' then [trim_space cur] else segment_loop (cur @ [c]) [])"
| "segment_loop cur (c # d # cs) =
     (if (c = CHR ''&'' \<or> c = CHR ''|'') \<and> d = c then trim_space cur # segment_loop [] cs
      else if c = CHR '';'' \<or> c = CHR ''|'' then trim_space cur # segment_loop [] (d # cs)
      else segment_loop (cur @ [c]) (d # cs))"

definition splitShellSegments :: "string \<Rightarrow> string list" where
  "splitShellSegments script = (if trim_space script = [] then [] else segment_loop [] (trim_space script))"

fun first_word :: "bool \<Rightarrow> string list \<Rightarrow> string" where
  "first_word skipEnv [] = []"
| "first_word skipEnv (p # ps) =
     (let part = trim_quotes p in
      if skipEnv \<and> contains part ''='' \<and> \<not> has_prefix part ''-'' then first_word True ps
      else if part = ''env'' then first_word False ps
      else if part \<in> set [''command'', ''builtin'', ''exec''] then first_word False ps
      else if part \<in> set [''python'', ''python3'', ''python2''] \<and> length ps \<ge> 2 \<and> ps ! 0 = ''-m'' then part
      else if part \<noteq> [] \<and> \<not> isShellBuiltin part then part
      else first_word False ps)"

definition firstShellCommandWord :: "string \<Rightarrow> string" where
  "firstShellCommandWord segment = first_word True (fields (trim_space segment))"

definition shellExecutables :: "string \<Rightarrow> string list" where
  "shellExecutables script =
     filter (\<lambda>w. w \<noteq> []) (map firstShellCommandWord (splitShellSegments script))"

subsection \<open>The target of the stub\<close>

definition procSelfExeGenericScore :: int where
  "procSelfExeGenericScore = 10"

definition procSelfExeAliases :: "(string, string list) gomap" where
  "procSelfExeAliases =
     [(''cargo'', [''rustc'']), (''rustup'', [''rustc'']), (''clippy'', [''rustc'']), (''rustfmt'', [''rustc'']),
      (''rustdoc'', [''rustc'']), (''npm'', [''node'']), (''npx'', [''node'']), (''yarn'', [''node'']),
      (''pnpm'', [''node'']), (''pip'', [''python3'', ''python'']), (''pip3'', [''python3'', ''python'']),
      (''deno'', [''deno'']), (''bun'', [''bun'']), (''dotnet'', [''dotnet'']), (''msbuild'', [''dotnet'']),
      (''gradle'', [''java'']), (''mvn'', [''java''])]"

definition procSelfExePriority :: "(string, int) gomap" where
  "procSelfExePriority =
     [(''rustc'', 100), (''zig'', 100),
      (''gcc'', 95), (''g++'', 95), (''cc'', 95), (''c++'', 95), (''clang'', 95), (''clang++'', 95),
      (''go'', 90), (''node'', 85), (''nodejs'', 85), (''python3'', 85), (''python'', 85), (''python2'', 85),
      (''java'', 80), (''javac'', 80), (''kotlin'', 80), (''kotlinc'', 80),
      (''deno'', 80), (''bun'', 80), (''dotnet'', 80),
      (''ld'', 75), (''ld.lld'', 75), (''lld'', 75), (''gold'', 75),
      (''cargo'', 60), (''rustup'', 60), (''npm'', 55), (''npx'', 55),
      (''yarn'', 55), (''pnpm'', 55), (''pip'', 55), (''pip3'', 55),
      (''make'', 40), (''cmake'', 40), (''ninja'', 40), (''meson'', 40),
      (''strip'', 30), (''objcopy'', 30), (''install'', 30)]"

type_synonym look_path = "string \<Rightarrow> string res"
type_synonym validate = "(string \<Rightarrow> unit res) option"

definition resolveProcSelfExeCandidateWithScore :: "look_path \<Rightarrow> validate \<Rightarrow> string \<Rightarrow> string \<times> int" where
  "resolveProcSelfExeCandidateWithScore lookPath validateAbs w =
     (let word = trim_quotes w;
          scored = (\<lambda>path. (path, case gm_get procSelfExePriority (to_lower (base path)) of
                                    None \<Rightarrow> procSelfExeGenericScore | Some n \<Rightarrow> n))
      in if word = [] \<or> isShellBuiltin word then ([], -1)
         else if contains word ''/'' then
           (case (case validateAbs of None \<Rightarrow> Inr () | Some v \<Rightarrow> v word) of
              Inl _ \<Rightarrow> ([], -1) | Inr _ \<Rightarrow> scored (clean word))
         else (case lookPath word of Inl _ \<Rightarrow> ([], -1) | Inr p \<Rightarrow> scored p))"

definition resolveProcSelfExeCandidate :: "look_path \<Rightarrow> validate \<Rightarrow> string \<Rightarrow> string" where
  "resolveProcSelfExeCandidate lookPath validateAbs word =
     fst (resolveProcSelfExeCandidateWithScore lookPath validateAbs word)"

definition try_name :: "look_path \<Rightarrow> validate \<Rightarrow> string \<Rightarrow> string \<times> int \<Rightarrow> string \<times> int" where
  "try_name lookPath validateAbs name best =
     (let (path, score) = resolveProcSelfExeCandidateWithScore lookPath validateAbs name
      in if score > snd best \<and> path \<noteq> [] then (path, score) else best)"

definition bestProcSelfExeForWord :: "look_path \<Rightarrow> validate \<Rightarrow> string \<Rightarrow> string \<times> int" where
  "bestProcSelfExeForWord lookPath validateAbs w =
     (let word = trim_quotes w
      in if word = [] \<or> isShellBuiltin word then ([], -1)
         else fold (try_name lookPath validateAbs)
                (word # (case gm_get procSelfExeAliases (base word) of None \<Rightarrow> [] | Some as \<Rightarrow> as)) ([], -1))"

text \<open>The loop over the words of the script: the best recognised path so far with its score, and the set of
  generic paths.\<close>

fun pick_loop :: "(string \<Rightarrow> string \<times> int) \<Rightarrow> string list \<Rightarrow> string \<times> int \<Rightarrow> string list \<Rightarrow> (string \<times> int) \<times> string list" where
  "pick_loop best [] rec gens = (rec, gens)"
| "pick_loop best (w # ws) rec gens =
     (let (path, score) = best w
      in if path = [] then pick_loop best ws rec gens
         else if score > procSelfExeGenericScore
         then pick_loop best ws (if score > snd rec then (path, score) else rec) gens
         else pick_loop best ws rec (add_new path gens))"

definition ResolveSandboxProcSelfExeTarget :: "string list \<Rightarrow> bool \<Rightarrow> look_path \<Rightarrow> validate \<Rightarrow> string" where
  "ResolveSandboxProcSelfExeTarget cmd prependShell lookPath validateAbs =
     (if cmd = [] then []
      else if \<not> prependShell \<or> length cmd < 3 \<or> cmd ! 1 \<noteq> ''-c''
      then resolveProcSelfExeCandidate lookPath validateAbs (cmd ! 0)
      else let (rec, gens) = pick_loop (bestProcSelfExeForWord lookPath validateAbs) (shellExecutables (cmd ! 2)) ([], -1) []
           in if fst rec \<noteq> [] then fst rec
              else (case gens of [p] \<Rightarrow> p | _ \<Rightarrow> resolveProcSelfExeCandidate lookPath validateAbs (cmd ! 0)))"

subsection \<open>The stub kernel file systems\<close>

record sandbox =
  sworld :: world
  SandboxProcSelfStub :: bool

definition in_world :: "(filesys, 'a) act \<Rightarrow> (sandbox, 'a) act" where
  "in_world m s = (case on_files m (sworld s) of (r, w) \<Rightarrow> (r, s\<lparr>sworld := w\<rparr>))"

definition sandboxStubCPUInfo :: string where
  "sandboxStubCPUInfo = join [CHR 10]
     [''processor'' @ CHR 9 # '': 0'', ''vendor_id'' @ CHR 9 # '': KanikoStub'',
      ''model name'' @ CHR 9 # '': Sandbox Stub CPU'', ''cpu cores'' @ CHR 9 # '': 1'', []]"

definition sandboxStubMemInfo :: string where
  "sandboxStubMemInfo = join [CHR 10] [''MemTotal:       8388608 kB'', ''MemFree:        4194304 kB'', []]"

definition setupSandboxStubProc :: "string \<Rightarrow> (filesys, unit) act" where
  "setupSandboxStubProc sandboxPath =
     (let procDir = join_path [sandboxPath, ''proc'']
      in sthen (os_MkdirAll (join_path [procDir, ''self'']) 365)
         (sthen (os_WriteFile (join_path [procDir, ''cpuinfo'']) sandboxStubCPUInfo 292)
                (os_WriteFile (join_path [procDir, ''meminfo'']) sandboxStubMemInfo 292)))"

definition setupSandboxStubSys :: "string \<Rightarrow> (filesys, unit) act" where
  "setupSandboxStubSys sandboxPath = os_MkdirAll (join_path [sandboxPath, ''sys'']) 365"

text \<open>\<open>os.OpenFile\<close> with \<open>O_CREATE|O_RDWR\<close>: an existing file is left as it is.\<close>

definition open_create :: "string \<Rightarrow> nat \<Rightarrow> (filesys, unit) act" where
  "open_create path mode =
     sbind (stry (sreads (\<lambda>fs. os_Stat fs path))) (\<lambda>r. case r of
         Inr n \<Rightarrow> (if is_dir n then sfail (Sys EISDIR) else sret ())
       | Inl _ \<Rightarrow> os_WriteFile path [] mode)"

text \<open>\<open>hostRand\<close> is what the host's \<open>/dev/urandom\<close> gives: the error of opening it, or the bytes read.\<close>

definition setupSandboxStubDev :: "string res \<Rightarrow> string \<Rightarrow> (filesys, unit) act" where
  "setupSandboxStubDev hostRand sandboxPath =
     (let devDir = join_path [sandboxPath, ''dev'']; urandomPath = join_path [devDir, ''urandom'']
      in sthen (os_MkdirAll devDir 493)
         (sthen (sfold (\<lambda>name. open_create (join_path [devDir, name]) 438) [''null'', ''zero'', ''full''])
         (sthen (sfold (\<lambda>name. sthen (signore (os_Remove (join_path [devDir, name])))
                                 (os_Symlink ''/dev/null'' (join_path [devDir, name]))) [''stdin'', ''stdout'', ''stderr''])
           (case hostRand of
              Inl _ \<Rightarrow> open_create urandomPath 292
            | Inr bytes \<Rightarrow> os_WriteFile urandomPath (take (1024 * 1024) bytes) 292))))"

definition SetupSandboxStubKernelFilesystems :: "string res \<Rightarrow> string \<Rightarrow> bool \<Rightarrow> bool \<Rightarrow> bool \<Rightarrow> (sandbox, unit) act" where
  "SetupSandboxStubKernelFilesystems hostRand sandboxPath needProc needSys needDev =
     sthen (swhen needProc (sthen (swrap ''stub proc'' (in_world (setupSandboxStubProc sandboxPath)))
                              (smodify (\<lambda>s. s\<lparr>SandboxProcSelfStub := True\<rparr>))))
     (sthen (swhen needSys (swrap ''stub sys'' (in_world (setupSandboxStubSys sandboxPath))))
            (swhen needDev (swrap ''stub dev'' (in_world (setupSandboxStubDev hostRand sandboxPath)))))"

definition stub_cmdline :: "string list \<Rightarrow> string" where
  "stub_cmdline argv = concat (map (\<lambda>a. a @ [CHR 0x00]) argv)"

definition UpdateSandboxProcSelfStub :: "bool \<Rightarrow> string \<Rightarrow> string \<Rightarrow> string list \<Rightarrow> (filesys, unit) act" where
  "UpdateSandboxProcSelfStub stub sandboxPath chrootExePath argv =
     (if \<not> stub \<or> chrootExePath = [] then sret ()
      else let exe = (if is_abs chrootExePath then chrootExePath else clean (''/'' @ chrootExePath));
               procSelf = join_path [sandboxPath, ''proc'', ''self''];
               exePath = join_path [procSelf, ''exe'']
           in sthen (os_MkdirAll procSelf 365)
              (sthen (sbind (stry (os_Remove exePath)) (\<lambda>r. case r of
                        Inl e \<Rightarrow> (if is_not_exist e then sret () else sfail e) | Inr _ \<Rightarrow> sret ()))
              (sthen (os_Symlink exe exePath)
                     (os_WriteFile (join_path [procSelf, ''cmdline''])
                        (stub_cmdline (if argv = [] then [exe] else argv)) 292))))"

subsection \<open>Credentials\<close>

record Credential =
  cred_Uid :: nat
  cred_Gid :: nat
  cred_Groups :: "nat list"

definition SyscallCredentials :: "libs \<Rightarrow> world \<Rightarrow> string \<Rightarrow> Credential res" where
  "SyscallCredentials lib w userStr =
     rbind (wrap ''get uid/gid'' (getUIDAndGIDFromString lib userStr)) (\<lambda>(uid, gid0).
     rbind (wrap ''lookup'' (LookupUser lib (itoa (int uid)))) (\<lambda>u.
     rbind (wrap ''group ids for user'' (groupIDs w u)) (\<lambda>gidStr.
     rbind (wrap ''parseuint'' (rmap (parse_uint 10 32) gidStr)) (\<lambda>groups.
       let g = (if length (split_on CHR '':'' userStr) > 1 \<or> Gid u = [] then gid0
                else case getGID (Gid u) of Inl _ \<Rightarrow> 0 | Inr n \<Rightarrow> n)
       in Inr \<lparr>cred_Uid = uid, cred_Gid = g, cred_Groups = groups\<rparr>))))"

subsection \<open>Which executable is picked\<close>

definition candidates :: "(string \<Rightarrow> string \<times> int) \<Rightarrow> string list \<Rightarrow> (string \<times> int) list" where
  "candidates best ws = filter (\<lambda>c. fst c \<noteq> []) (map best ws)"

lemma pick_loop_spec:
  assumes "pick_loop best ws rec gens = (rec', gens')"
  shows "set gens' = set gens \<union> {p. \<exists>s. (p, s) \<in> set (candidates best ws) \<and> s \<le> procSelfExeGenericScore} \<and>
    (distinct gens \<longrightarrow> distinct gens') \<and> snd rec \<le> snd rec' \<and>
    (rec' = rec \<or> rec' \<in> set (candidates best ws) \<and> snd rec' > procSelfExeGenericScore) \<and>
    (\<forall>c \<in> set (candidates best ws). snd c > procSelfExeGenericScore \<longrightarrow> snd c \<le> snd rec')"
  using assms
proof (induction ws arbitrary: rec gens)
  case (Cons w ws)
  obtain p s where b: "best w = (p, s)" by (cases "best w")
  consider "p = []" | "p \<noteq> []" "s > procSelfExeGenericScore" | "p \<noteq> []" "s \<le> procSelfExeGenericScore" by linarith
  then show ?case
  proof cases
    case 2
    with Cons.prems b have "pick_loop best ws (if s > snd rec then (p, s) else rec) gens = (rec', gens')" by simp
    from Cons.IH [OF this] b 2 show ?thesis by (auto simp: candidates_def split: if_splits)
  next
    case 3
    with Cons.prems b have "pick_loop best ws rec (add_new p gens) = (rec', gens')" by simp
    from Cons.IH [OF this] b 3 show ?thesis by (auto simp: candidates_def)
  qed (use Cons b in \<open>auto simp: candidates_def\<close>)
qed (simp add: candidates_def)

lemma distinct_set_single: "distinct xs \<Longrightarrow> set xs = {p} \<longleftrightarrow> xs = [p]"
  by (cases xs; cases "tl xs") auto

text \<open>The target of the stub \<open>/proc/self/exe\<close> for a shell command. If some word of the script resolves to a
  recognised compiler or runtime, the target is such a path with the highest score. Otherwise a
  generic executable is the target only if it is the single path any word resolves to, and in every other
  case the target is the shell itself, so that no unrelated program is run in place of a tool that re-executes
  itself.\<close>

theorem procSelfExe_target:
  fixes lookPath validateAbs script sh rest
  defines "C \<equiv> candidates (bestProcSelfExeForWord lookPath validateAbs) (shellExecutables script)"
  defines "r \<equiv> ResolveSandboxProcSelfExeTarget (sh # ''-c'' # script # rest) True lookPath validateAbs"
  shows "if \<exists>c \<in> set C. snd c > procSelfExeGenericScore
    then \<exists>s. (r, s) \<in> set C \<and> s > procSelfExeGenericScore \<and> (\<forall>c \<in> set C. snd c \<le> s)
    else r = (case remdups (map fst C) of [p] \<Rightarrow> p | _ \<Rightarrow> resolveProcSelfExeCandidate lookPath validateAbs sh)"
proof -
  obtain rec gens where pick: "pick_loop (bestProcSelfExeForWord lookPath validateAbs) (shellExecutables script) ([], -1) []
      = (rec, gens)" by fastforce
  have r: "r = (if fst rec \<noteq> [] then fst rec
      else (case gens of [p] \<Rightarrow> p | _ \<Rightarrow> resolveProcSelfExeCandidate lookPath validateAbs sh))"
    unfolding r_def ResolveSandboxProcSelfExeTarget_def using pick by (simp split: list.split)
  note spec = pick_loop_spec [OF pick, folded C_def]
  show ?thesis
  proof (cases "\<exists>c \<in> set C. snd c > procSelfExeGenericScore")
    case True
    then obtain c where c: "c \<in> set C" "snd c > procSelfExeGenericScore" by blast
    with spec have "snd c \<le> snd rec" by auto
    with c spec have rec: "rec \<in> set C" "snd rec > procSelfExeGenericScore" by (auto simp: procSelfExeGenericScore_def)
    moreover have "fst rec \<noteq> []" using rec(1) by (simp add: C_def candidates_def)
    moreover have "snd d \<le> snd rec" if "d \<in> set C" for d
      using that spec rec(2) by (cases "snd d > procSelfExeGenericScore") auto
    ultimately show ?thesis using True r by (intro if_P [THEN iffD2]) (auto intro!: exI [of _ "snd rec"])
  next
    case False
    have g: "set gens = set (map fst C)" "distinct gens" using spec False by force+
    have "fst rec = []" using spec False by auto
    moreover have "gens = [p] \<longleftrightarrow> remdups (map fst C) = [p]" for p
      using g distinct_set_single [of gens p] distinct_set_single [of "remdups (map fst C)" p] by simp
    then have "(case gens of [p] \<Rightarrow> p | _ \<Rightarrow> resolveProcSelfExeCandidate lookPath validateAbs sh) =
        (case remdups (map fst C) of [p] \<Rightarrow> p | _ \<Rightarrow> resolveProcSelfExeCandidate lookPath validateAbs sh)"
      by (auto split: list.splits)
    ultimately show ?thesis using False r by simp
  qed
qed

definition bin_path :: look_path where
  "bin_path n = Inr (''/usr/bin/'' @ n)"

theorem procSelfExe_target_witness:
  "ResolveSandboxProcSelfExeTarget [''/bin/sh'', ''-c'', ''FOO=1 make && cargo build''] True bin_path None = ''/usr/bin/rustc'' \<and>
   ResolveSandboxProcSelfExeTarget [''/bin/sh'', ''-c'', ''curl x | tee y''] True bin_path None = ''/bin/sh''"
proof -
  have C1: "candidates (bestProcSelfExeForWord bin_path None) (shellExecutables ''FOO=1 make && cargo build'') =
      [(''/usr/bin/make'', 40), (''/usr/bin/rustc'', 100)]"
    and C2: "candidates (bestProcSelfExeForWord bin_path None) (shellExecutables ''curl x | tee y'') =
      [(''/usr/bin/curl'', 10), (''/usr/bin/tee'', 10)]"
    and sh: "resolveProcSelfExeCandidate bin_path None ''/bin/sh'' = ''/bin/sh''" by code_simp+
  show ?thesis
    using procSelfExe_target [of bin_path None "''FOO=1 make && cargo build''" "''/bin/sh''" "[]"]
      procSelfExe_target [of bin_path None "''curl x | tee y''" "''/bin/sh''" "[]"]
    unfolding C1 C2 sh by (auto simp: procSelfExeGenericScore_def)
qed

end
