(* ===== verification/Image_Config.thy ===== *)
theory Image_Config
  imports Dockerfile Sandbox_Proc
begin

text \<open>
  The state that the commands of a stage change: the image configuration (\<open>v1.Config\<close>), the build arguments
  and the world of files, and the backing arrays of the slices that share them.

  Go's \<open>append\<close> writes into the spare capacity of the array its slice shares with others. Three fields of the
  configuration are such slices (\<open>Cmd\<close>, \<open>Entrypoint\<close>, \<open>Shell\<close>): \<open>CMD\<close>, \<open>ENTRYPOINT\<close> and \<open>RUN\<close> append
  to the shell's slice. A nil slice is one of length and capacity 0, and a map that may be nil is an option.
\<close>

subsection \<open>Slices\<close>

type_synonym arrays = "string list list"

definition nil_slice :: slice where
  "nil_slice = \<lparr>sarr = 0, slen = 0\<rparr>"

definition array_of :: "arrays \<Rightarrow> slice \<Rightarrow> string list" where
  "array_of h s = (if sarr s < length h then h ! sarr s else [])"

definition sl_cap :: "arrays \<Rightarrow> slice \<Rightarrow> nat" where
  "sl_cap h s = length (array_of h s)"

definition sl_read :: "arrays \<Rightarrow> slice \<Rightarrow> string list" where
  "sl_read h s = take (slen s) (array_of h s)"

definition sl_ok :: "arrays \<Rightarrow> slice \<Rightarrow> bool" where
  "sl_ok h s \<longleftrightarrow> slen s \<le> sl_cap h s"

text \<open>A new array with the elements \<open>xs\<close> and room for at least as many as \<open>cap\<close> says.\<close>

definition sl_new :: "nat \<Rightarrow> string list \<Rightarrow> arrays \<Rightarrow> slice \<times> arrays" where
  "sl_new cap xs h =
     (\<lparr>sarr = length h, slen = length xs\<rparr>, h @ [xs @ replicate (cap - length xs) []])"

text \<open>\<open>append(s, x)\<close>; \<open>grow n\<close> is the capacity the run-time system chooses for \<open>n\<close> elements.\<close>

definition sl_append :: "(nat \<Rightarrow> nat) \<Rightarrow> slice \<Rightarrow> string \<Rightarrow> arrays \<Rightarrow> slice \<times> arrays" where
  "sl_append grow s x h =
     (if slen s < sl_cap h s
      then (s\<lparr>slen := Suc (slen s)\<rparr>, h[sarr s := (array_of h s)[slen s := x]])
      else sl_new (grow (Suc (slen s))) (sl_read h s @ [x]) h)"

text \<open>\<open>s[0] = x\<close> on a slice that is not empty\<close>

definition sl_set0 :: "slice \<Rightarrow> string \<Rightarrow> arrays \<Rightarrow> arrays" where
  "sl_set0 s x h = (if sarr s < length h then h[sarr s := (h ! sarr s)[0 := x]] else h)"

lemma length_sl_read: "sl_ok h s \<Longrightarrow> length (sl_read h s) = slen s"
  by (simp add: sl_ok_def sl_read_def sl_cap_def)

lemma sl_new_read [simp]: "sl_read (snd (sl_new cap xs h)) (fst (sl_new cap xs h)) = xs"
  by (simp add: sl_new_def sl_read_def array_of_def)

lemma sl_new_frame:
  assumes "sl_ok h t"
  shows "sl_read (snd (sl_new cap xs h)) t = sl_read h t \<and> sl_ok (snd (sl_new cap xs h)) t"
  using assms by (cases "sarr t < length h") (auto simp: sl_new_def sl_read_def sl_ok_def sl_cap_def array_of_def nth_append)

lemma sl_append_read:
  assumes "sl_ok h s"
  shows "sl_read (snd (sl_append grow s x h)) (fst (sl_append grow s x h)) = sl_read h s @ [x]"
proof (cases "slen s < sl_cap h s")
  case True
  then have "sarr s < length h" by (auto simp: sl_cap_def array_of_def split: if_splits)
  with True show ?thesis
    by (simp add: sl_append_def sl_read_def array_of_def sl_cap_def take_Suc_conv_app_nth)
next
  case False
  then show ?thesis unfolding sl_append_def by (simp only: if_False sl_new_read)
qed

text \<open>Appending leaves every other slice as it reads, except one that shares the array and reaches beyond the
  end of the slice appended to.\<close>

lemma sl_append_frame:
  assumes "sl_ok h t" and "sl_cap h s \<le> slen s \<or> sarr t \<noteq> sarr s \<or> slen t \<le> slen s"
  shows "sl_read (snd (sl_append grow s x h)) t = sl_read h t \<and> sl_ok (snd (sl_append grow s x h)) t"
proof (cases "slen s < sl_cap h s")
  case False
  then show ?thesis unfolding sl_append_def using sl_new_frame [OF assms(1)] by (simp only: if_False)
next
  case True
  then have "sarr s < length h" by (auto simp: sl_cap_def array_of_def split: if_splits)
  with True assms show ?thesis
    by (cases "sarr t = sarr s") (auto simp: sl_append_def sl_read_def sl_ok_def sl_cap_def array_of_def)
qed

lemma sl_append_ok:
  assumes "sl_ok h s"
  shows "sl_ok (snd (sl_append grow s x h)) (fst (sl_append grow s x h))"
proof (cases "slen s < sl_cap h s")
  case True
  then have "sarr s < length h" by (auto simp: sl_cap_def array_of_def split: if_splits)
  with True show ?thesis by (auto simp: sl_append_def sl_ok_def sl_cap_def array_of_def)
next
  case False
  then show ?thesis by (simp add: sl_append_def sl_new_def sl_ok_def sl_cap_def array_of_def)
qed

subsection \<open>Configuration and state\<close>

record v1_Config =
  Cmd :: slice
  Healthcheck :: "HealthConfig option"
  Entrypoint :: slice
  Env :: "string list option"
  Labels :: "(string, string) gomap option"
  OnBuild :: "string list"
  User :: string
  Volumes :: "(string, unit) gomap option"
  WorkingDir :: string
  ExposedPorts :: "(string, unit) gomap option"
  ArgsEscaped :: bool
  StopSignal :: string
  Shell :: slice

definition empty_config :: v1_Config where
  "empty_config = \<lparr>Cmd = nil_slice, Healthcheck = None, Entrypoint = nil_slice, Env = None, Labels = None,
     OnBuild = [], User = [], Volumes = None, WorkingDir = [], ExposedPorts = None, ArgsEscaped = False,
     StopSignal = [], Shell = nil_slice\<rparr>"

definition env_of :: "v1_Config \<Rightarrow> string list" where
  "env_of c = (case Env c of None \<Rightarrow> [] | Some e \<Rightarrow> e)"

definition map_or_new :: "('k, 'v) gomap option \<Rightarrow> ('k, 'v) gomap" where
  "map_or_new m = (case m of None \<Rightarrow> [] | Some x \<Rightarrow> x)"

record cstate =
  wld :: world
  cfg :: v1_Config
  args :: BuildArgs
  arrs :: arrays

definition on_world :: "(world, 'a) act \<Rightarrow> (cstate, 'a) act" where
  "on_world m s = (case m (wld s) of (r, w) \<Rightarrow> (r, s\<lparr>wld := w\<rparr>))"

definition set_cfg :: "(v1_Config \<Rightarrow> v1_Config) \<Rightarrow> (cstate, unit) act" where
  "set_cfg f = smodify (\<lambda>s. s\<lparr>cfg := f (cfg s)\<rparr>)"

definition envs :: "cstate \<Rightarrow> string list" where
  "envs s = ReplacementEnvs (args s) (env_of (cfg s))"

text \<open>The libraries and the host that the commands call. A process is given by its arguments, the \<open>PATH\<close> its
  program is looked up in, and its attributes.\<close>

record proc =
  proc_argv :: "string list"
  proc_lookup :: string
  proc_dir :: string
  proc_env :: "string list"
  proc_chroot :: string
  proc_cred :: "Credential option"

record host =
  lib :: libs
  grow :: "nat \<Rightarrow> nat"
  parse_signal :: "string \<Rightarrow> unit res"
  getenv :: "string \<Rightarrow> string"
  kernel_fs_bound :: bool
  proc_self_stub :: bool
  proot_asset :: string
  random_name :: "filesys \<Rightarrow> string"
  environ :: "string list"
  start_process :: "proc \<Rightarrow> (world, nat) act"
  getpgid :: "nat \<Rightarrow> nat res"
  wait_process :: "nat \<Rightarrow> (world, unit) act"
  kill_group :: "nat \<Rightarrow> unit res"
  detect_compression :: "string \<Rightarrow> int"
  gunzip :: "string \<Rightarrow> string res"
  bunzip2 :: "string \<Rightarrow> string"
  read_tar :: "string \<Rightarrow> tar_entry list \<times> err option"

end
