(* ===== verification/Proot_Provision.thy ===== *)
theory Proot_Provision
  imports Image_Config
begin

text \<open>
  \<open>pkg/proot\<close> and \<open>pkg/commands/proot_provision.go\<close>: the \<open>proot\<close> embedded in the executor (\<open>proot_asset\<close>, fixed when it
  is built) is extracted when no other is found, at most once per run: its path is kept in a variable of the package. The file
  is published under its name only after it was run once.
\<close>

subsection \<open>Operations\<close>

definition exec_bits :: "inode \<Rightarrow> bool" where
  "exec_bits n \<longleftrightarrow> odd (imode n) \<or> odd (imode n div 8) \<or> odd (imode n div 64)"

definition isExecutableFile :: "world \<Rightarrow> string \<Rightarrow> bool" where
  "isExecutableFile w path =
     (case os_Stat (files w) path of Inl _ \<Rightarrow> False | Inr info \<Rightarrow> \<not> is_dir info \<and> exec_bits info)"

definition isELF :: "string \<Rightarrow> bool" where
  "isELF b \<longleftrightarrow> 4 \<le> length b \<and> b ! 0 = CHR 0x7F \<and> b ! 1 = CHR ''E'' \<and> b ! 2 = CHR ''L'' \<and> b ! 3 = CHR ''F''"

definition proot_Binary :: "host \<Rightarrow> string" where
  "proot_Binary H = (if isELF (proot_asset H) then proot_asset H else [])"

definition disabled :: "string \<Rightarrow> bool" where
  "disabled v = (to_lower (trim_space v) \<in> set [''skip'', ''0'', ''false'', ''no'', ''off'', ''disable'', ''disabled''])"

definition os_TempDir :: "host \<Rightarrow> string" where
  "os_TempDir H = (if getenv H ''TMPDIR'' = [] then ''/tmp'' else getenv H ''TMPDIR'')"

definition dirWritable :: "host \<Rightarrow> string \<Rightarrow> (world, bool) act" where
  "dirWritable H d =
     (if d = [] then sret False
      else sbind (stry (on_files (os_MkdirAll d 493))) (\<lambda>r. case r of
          Inl _ \<Rightarrow> sret False
        | Inr _ \<Rightarrow> sbind (stry (on_files (os_CreateTemp (random_name H) d ''.kaniko-proot-probe-''))) (\<lambda>r. case r of
              Inl _ \<Rightarrow> sret False
            | Inr name \<Rightarrow> sthen (signore (on_files (os_Remove name))) (sret True))))"

fun first_writable :: "host \<Rightarrow> string list \<Rightarrow> (world, string) act" where
  "first_writable H [] = sret []"
| "first_writable H (d # ds) =
     sbind (dirWritable H d) (\<lambda>ok. if ok then sret (join_path [d, ''proot'']) else first_writable H ds)"

definition prootCachePath :: "host \<Rightarrow> (world, string) act" where
  "prootCachePath H = first_writable H [''/kaniko'', os_TempDir H]"

definition verifyProot :: "host \<Rightarrow> string \<Rightarrow> (world, unit) act" where
  "verifyProot H path =
     sbind (stry (sbind (start_process H \<lparr>proc_argv = [path, ''--version''], proc_lookup = getenv H ''PATH'', proc_dir = [],
                           proc_env = environ H, proc_chroot = [], proc_cred = None\<rparr>) (wait_process H))) (\<lambda>r. case r of
         Inl _ \<Rightarrow> sfail (Msg ''proot sanity check failed'')
       | Inr _ \<Rightarrow> sret ())"

definition writeProot :: "host \<Rightarrow> string \<Rightarrow> string \<Rightarrow> (world, unit) act" where
  "writeProot H bin dest =
     sbind (on_files (os_CreateTemp (random_name H) (dir dest) ''.proot-extract-'')) (\<lambda>tmpName.
       deferred (on_files (os_Remove tmpName))
        (sthen (on_files (os_WriteFile tmpName bin 384))
        (sthen (on_files (os_Chmod tmpName 493))
        (sthen (verifyProot H tmpName)
               (on_files (os_Rename tmpName dest))))))"

definition provisionProot :: "host \<Rightarrow> (world, string) act" where
  "provisionProot H =
     sbind (sgets provisionedProotPath) (\<lambda>known.
       if known \<noteq> [] then sret known
       else if disabled (getenv H ''KANIKO_PROOT_EMBEDDED'') then sret []
       else if proot_Binary H = [] then sret []
       else sbind (prootCachePath H) (\<lambda>cachePath.
         if cachePath = [] then sret []
         else sbind (sgets (\<lambda>w. isExecutableFile w cachePath)) (\<lambda>there.
           sbind (if there then sret (Inr ()) else stry (writeProot H (proot_Binary H) cachePath)) (\<lambda>r. case r of
               Inl _ \<Rightarrow> sret []
             | Inr _ \<Rightarrow> sthen (smodify (\<lambda>w. w\<lparr>provisionedProotPath := cachePath\<rparr>)) (sret cachePath)))))"

subsection \<open>The file system stays well formed\<close>

text \<open>A host whose processes leave a well-formed file system.\<close>

definition host_ok :: "host \<Rightarrow> bool" where
  "host_ok H \<longleftrightarrow> (\<forall>p. keeps world_ok (start_process H p)) \<and> (\<forall>pid. keeps world_ok (wait_process H pid))"

lemma keeps_host:
  assumes "host_ok H"
  shows "keeps world_ok (start_process H p)" "keeps world_ok (wait_process H pid)"
  using assms by (simp_all add: host_ok_def)

lemma keeps_proot_path [keeps_rules]: "keeps world_ok (smodify (\<lambda>w. w\<lparr>provisionedProotPath := p\<rparr>))"
  by (simp add: keeps_def smodify_def world_ok_def)

lemma keeps_dirWritable [keeps_rules]: "keeps world_ok (dirWritable H d)"
  unfolding dirWritable_def by (intro keeps_rules)

lemma keeps_first_writable [keeps_rules]: "keeps world_ok (first_writable H ds)"
proof (induction ds)
  case (Cons d ds)
  then show ?case unfolding first_writable.simps by (intro keeps_rules)
qed (simp add: keeps_rules)

lemma keeps_provisionProot [keeps_rules]: "host_ok H \<Longrightarrow> keeps world_ok (provisionProot H)"
  unfolding provisionProot_def writeProot_def verifyProot_def prootCachePath_def by (intro keeps_rules keeps_host)

subsection \<open>Publication\<close>

definition extract_name :: "host \<Rightarrow> world \<Rightarrow> string" where
  "extract_name H w = ''.proot-extract-'' @ random_name H (files w)"

definition extracted :: "string \<Rightarrow> inode" where
  "extracted bin = new_inode (FReg bin) 493"

text \<open>C37. The extracted \<open>proot\<close> appears under its name all at once or not at all. \<open>writeProot\<close> runs the complete, executable
  file under a temporary name; it succeeds exactly when that run does. Then the only change to the tree of files is that
  \<open>proot\<close> holds the binary, and otherwise nothing has changed, the temporary file included.\<close>

theorem writeProot_atomic:
  assumes "fs_ok (files w)" and "lookup (files w) cs = Some n" and "is_dir n" and "cs \<noteq> []"
    and "unused cs (extract_name H w) (files w)" and "\<not> is_dir_node (lookup (files w) (cs @ [''proot'']))"
    and "\<And>p v. snd (verifyProot H p v) = v"
  shows "\<exists>r w' v. writeProot H bin (abs_path (cs @ [''proot''])) w = (r, w') \<and> fs_ok (files w') \<and>
    lookup (files v) = (lookup (files w))(cs @ [extract_name H w] \<mapsto> extracted bin) \<and>
    r = fst (verifyProot H (abs_path (cs @ [extract_name H w])) v) \<and>
    lookup (files w') = (if is_ok r then (lookup (files w))(cs @ [''proot''] \<mapsto> extracted bin) else lookup (files w))"
proof -
  let ?fs = "files w" and ?x = "extract_name H w" and ?y = "''proot''"
  let ?f = "\<lambda>c m. add_entry (cs @ [?x]) (new_inode (FReg c) m) ?fs" and ?p = "abs_path (cs @ [?x])"
  let ?v = "w\<lparr>files := ?f bin 493\<rparr>"
  note ops = new_file_ops [OF assms(1-3, 5)]
  have x: "comp_ok ?x" "lookup ?fs (cs @ [?x]) = None" using assms(5) by (simp_all add: unused_def)
  have y: "comp_ok ?y" "?y \<noteq> ?x" by (simp_all add: comp_ok_def extract_name_def)
  have cs: "comps_ok cs" using fs_wf_entry(1) [OF _ assms(2)] assms(1) by (simp add: fs_ok_def)
  have c: "os_CreateTemp (random_name H) (abs_path cs) ''.proot-extract-'' ?fs = (Inr ?p, ?f [] (umask 384))"
    using create_temp [where rnd = "random_name H", OF assms(1-4), of "''.proot-extract-''"] x by (simp add: extract_name_def)
  let ?r = "fst (verifyProot H ?p ?v)"
  have ver: "verifyProot H ?p ?v = (?r, ?v)" using assms(7) [of ?p ?v] by (simp add: prod_eq_iff)
  have d: "dir (abs_path (cs @ [?y])) = abs_path cs" using cs y by (intro dir_abs_path) simp
  have "\<exists>fs'. writeProot H bin (abs_path (cs @ [?y])) w = (?r, w\<lparr>files := fs'\<rparr>) \<and> fs_ok fs' \<and>
     lookup fs' = (if is_ok ?r then (lookup ?fs)(cs @ [?y] \<mapsto> extracted bin) else lookup ?fs)"
  proof (cases ?r)
    case (Inl e)
    let ?fs' = "snd (os_Remove ?p (?f bin 493))"
    have "looks ?fs ?fs'"
      by (rule remove_temp [OF assms(1-3) x, of "new_inode (FReg bin) 493"]) (simp_all add: looks_def ops(1))
    moreover have "writeProot H bin (abs_path (cs @ [?y])) w = (Inl e, w\<lparr>files := ?fs'\<rparr>)"
      using ver Inl by (simp add: writeProot_def d sbind_def sthen_def deferred_def on_files_def c ops split: prod.split)
    ultimately show ?thesis using Inl by (auto simp: looks_def)
  next
    case (Inr u)
    have "\<not> is_dir (new_inode (FReg bin) 493)" by simp
    from replace_file [OF assms(1-3, 5) this y(1) assms(6) y(2)]
    obtain fs' where fs': "os_Rename ?p (abs_path (cs @ [?y])) (?f bin 493) = (Inr (), fs')" "fs_ok fs'"
      "lookup fs' = (lookup ?fs)(cs @ [?y] \<mapsto> extracted bin)" by (auto simp: extracted_def)
    have "unused cs ?x fs'" using assms(5) y by (auto simp: unused_def fs'(3))
    then have "snd (os_Remove ?p fs') = fs'" using fs'(2, 3) assms(2, 3) by (intro remove_missing) auto
    then have "writeProot H bin (abs_path (cs @ [?y])) w = (Inr (), w\<lparr>files := fs'\<rparr>)"
      using ver Inr fs'(1) by (auto simp: writeProot_def d sbind_def sthen_def deferred_def on_files_def c ops split: prod.split)
    with fs' Inr show ?thesis by auto
  qed
  moreover have "lookup (files ?v) = (lookup ?fs)(cs @ [?x] \<mapsto> extracted bin)"
    by (simp add: fun_eq_iff lookup_add_entry [OF assms(1)] extracted_def)
  ultimately show ?thesis by fastforce
qed

text \<open>A host whose processes do nothing, without an embedded \<open>proot\<close>\<close>

definition plain_host :: host where
  "plain_host = \<lparr>lib = plain_libs, grow = (\<lambda>n. n), parse_signal = (\<lambda>_. Inr ()), getenv = (\<lambda>_. []),
     kernel_fs_bound = False, proc_self_stub = False, proot_asset = [], random_name = (\<lambda>_. ''7''), environ = [], 
     start_process = (\<lambda>_. sret 1), getpgid = (\<lambda>_. Inr 1), wait_process = (\<lambda>_. sret ()), kill_group = (\<lambda>_. Inr ()), detect_compression = (\<lambda>_. 0),
     gunzip = Inr, bunzip2 = (\<lambda>b. b), read_tar = (\<lambda>_. ([], None))\<rparr>"

theorem writeProot_atomic_witness:
  "\<exists>w'. writeProot plain_host ''binary'' ''/box/proot'' (demo_world ''/'') = (Inr (), w') \<and>
     lookup (files w') = (lookup demo_fs)([''box'', ''proot''] \<mapsto> extracted ''binary'')"
proof -
  let ?w = "demo_world ''/''" and ?cs = "[''box'']"
  have fs: "files ?w = demo_fs" by (simp add: demo_world_def)
  have ok: "fs_ok (files ?w)" "is_dir_node (lookup (files ?w) ?cs)" by code_simp+
  then obtain n where n: "lookup (files ?w) ?cs = Some n" "is_dir n" by (auto simp: is_dir_node_def is_dir_def split: option.splits)
  have un: "unused ?cs (extract_name plain_host ?w) (files ?w)" "\<not> is_dir_node (lookup (files ?w) (?cs @ [''proot'']))" by code_simp+
  have ver: "verifyProot plain_host q v = (Inr (), v)" for q v
    by (simp add: verifyProot_def plain_host_def sbind_def stry_def sret_def)
  have "abs_path (?cs @ [''proot'']) = ''/box/proot''" by (simp add: abs_path_def)
  with writeProot_atomic [OF ok(1) n _ un, of "''binary''"] ver fs show ?thesis by auto
qed

text \<open>\<open>provisionProot\<close> never fails, and once it has a path it returns that path without touching a file again.\<close>

lemma first_writable_total: "\<exists>d v. first_writable H ds w = (Inr d, v)"
proof (induction ds arbitrary: w)
  case (Cons d ds)
  have "\<exists>b v. dirWritable H d w = (Inr b, v)"
    by (auto simp: dirWritable_def sbind_def stry_def sthen_def signore_def sret_def split: prod.split sum.split)
  then obtain b v where "dirWritable H d w = (Inr b, v)" by blast
  with Cons.IH [of v] show ?case by (auto simp: sbind_def sret_def)
qed (simp add: sret_def)

theorem provisionProot_once:
  "\<exists>p w'. provisionProot H w = (Inr p, w') \<and> (p = [] \<or> provisionedProotPath w' = p \<and> (\<forall>v. provisionedProotPath v = p \<longrightarrow> provisionProot H v = (Inr p, v)))"
proof -
  obtain d v where "first_writable H [''/kaniko'', os_TempDir H] w = (Inr d, v)" using first_writable_total by blast
  then show ?thesis
    by (auto simp: provisionProot_def prootCachePath_def sbind_def sgets_def sret_def stry_def sthen_def smodify_def split: prod.split sum.split)
qed

end
