(* ===== verification/Commands.thy ===== *)
theory Commands
  imports Proot_Provision
begin

text \<open>
  \<open>pkg/commands\<close>: the implementation of each Dockerfile instruction, and the functions on local archives of
  \<open>pkg/util/tar_util.go\<close> that \<open>ADD\<close> calls. A command is a value of the datatype \<open>DockerCommand\<close>;
  \<open>ExecuteCommand\<close> changes the state and returns the command with the fields the code sets on its receiver
  (\<open>snapshotFiles\<close>, \<open>extractedFiles\<close>, the expanded labels). A list of files that may be nil is an
  option. When a command fails, the build ends with its error; the model keeps what happened to the files and drops
  the half-updated receiver.
\<close>

subsection \<open>Images and commands\<close>

text \<open>A layer as its media type and its tar stream, an image as its layers; what cannot be read is an
  error.\<close>

record layer =
  layer_media :: "string res"
  layer_tar :: "tar_entry list res"

type_synonym cached_image = "layer list res option"

datatype DockerCommand =
    RunCommand (cmd: Command) (shdCache: bool)
  | RunMarkerCommand (cmd: Command) (cmd_changed: "string list option") (shdCache: bool)
  | CachingRunCommand (cmd: Command) (cmd_image: cached_image) (cmd_layer: "layer option") (cmd_extracted: "string list option")
  | CopyCommand (cmd: Command) (fileContext: FileContext) (snapshotFiles: "string list option") (shdCache: bool)
  | CachingCopyCommand (cmd: Command) (fileContext: FileContext) (cmd_image: cached_image) (cmd_layer: "layer option")
      (cmd_extracted: "string list option")
  | AddCommand (cmd: Command) (fileContext: FileContext) (snapshotFiles: "string list option")
  | WorkdirCommand (cmd: Command) (snapshotFiles: "string list option")
  | ExposeCommand (cmd: Command)
  | EnvCommand (cmd: Command)
  | CmdCommand (cmd: Command)
  | EntrypointCommand (cmd: Command)
  | LabelCommand (cmd: Command)
  | UserCommand (cmd: Command)
  | OnBuildCommand (cmd: Command)
  | VolumeCommand (cmd: Command)
  | StopSignalCommand (cmd: Command)
  | ArgCommand (cmd: Command)
  | ShellCommand (cmd: Command)
  | HealthCheckCommand (cmd: Command)

definition GetCommand :: "Command \<Rightarrow> FileContext \<Rightarrow> bool \<Rightarrow> bool \<Rightarrow> bool \<Rightarrow> DockerCommand option res" where
  "GetCommand c context useNewRun cacheCopy cacheRun =
     (case cmd_inst c of
        RunInst _ _ \<Rightarrow> Inr (Some (if useNewRun then RunMarkerCommand c None cacheRun else RunCommand c cacheRun))
      | CopyInst _ _ _ _ \<Rightarrow> Inr (Some (CopyCommand c context None cacheCopy))
      | ExposeInst _ \<Rightarrow> Inr (Some (ExposeCommand c))
      | EnvInst _ \<Rightarrow> Inr (Some (EnvCommand c))
      | WorkdirInst _ \<Rightarrow> Inr (Some (WorkdirCommand c None))
      | AddInst _ _ _ \<Rightarrow> Inr (Some (AddCommand c context None))
      | CmdInst _ _ \<Rightarrow> Inr (Some (CmdCommand c))
      | EntrypointInst _ _ \<Rightarrow> Inr (Some (EntrypointCommand c))
      | LabelInst _ \<Rightarrow> Inr (Some (LabelCommand c))
      | UserInst _ \<Rightarrow> Inr (Some (UserCommand c))
      | OnbuildInst _ \<Rightarrow> Inr (Some (OnBuildCommand c))
      | VolumeInst _ \<Rightarrow> Inr (Some (VolumeCommand c))
      | StopSignalInst _ \<Rightarrow> Inr (Some (StopSignalCommand c))
      | ArgInst _ \<Rightarrow> Inr (Some (ArgCommand c))
      | ShellInst _ \<Rightarrow> Inr (Some (ShellCommand c))
      | HealthCheckInst _ \<Rightarrow> Inr (Some (HealthCheckCommand c))
      | MaintainerInst _ \<Rightarrow> Inr None
      | OtherInst \<Rightarrow> Inl (Msg (cmd_name c @ '' is not a supported command'')))"

subsection \<open>What a command says of itself\<close>

definition cmd_String :: "DockerCommand \<Rightarrow> string" where
  "cmd_String c = cmd_code (cmd c)"

definition IsArgsEnvsRequiredInCache :: "DockerCommand \<Rightarrow> bool" where
  "IsArgsEnvsRequiredInCache c = (case c of
     RunCommand _ _ \<Rightarrow> True | RunMarkerCommand _ _ _ \<Rightarrow> True | CachingRunCommand _ _ _ _ \<Rightarrow> True | _ \<Rightarrow> False)"

definition FilesToSnapshot :: "DockerCommand \<Rightarrow> string list option" where
  "FilesToSnapshot c = (case c of
     RunCommand _ _ \<Rightarrow> None
   | RunMarkerCommand _ fs _ \<Rightarrow> fs
   | CachingRunCommand _ _ _ fs \<Rightarrow> fs
   | CopyCommand _ _ fs _ \<Rightarrow> fs
   | CachingCopyCommand _ _ _ _ fs \<Rightarrow> fs
   | AddCommand _ _ fs \<Rightarrow> fs
   | WorkdirCommand _ fs \<Rightarrow> fs
   | _ \<Rightarrow> Some [])"

definition ProvidesFilesToSnapshot :: "DockerCommand \<Rightarrow> bool" where
  "ProvidesFilesToSnapshot c = (case c of RunCommand _ _ \<Rightarrow> False | _ \<Rightarrow> True)"

definition MetadataOnly :: "DockerCommand \<Rightarrow> bool" where
  "MetadataOnly c = (case c of
     RunCommand _ _ \<Rightarrow> False | RunMarkerCommand _ _ _ \<Rightarrow> False | CachingRunCommand _ _ _ _ \<Rightarrow> False
   | CopyCommand _ _ _ _ \<Rightarrow> False | CachingCopyCommand _ _ _ _ _ \<Rightarrow> False
   | AddCommand _ _ _ \<Rightarrow> False | WorkdirCommand _ _ \<Rightarrow> False | _ \<Rightarrow> True)"

definition RequiresUnpackedFS :: "DockerCommand \<Rightarrow> bool" where
  "RequiresUnpackedFS c = (case c of
     RunCommand _ _ \<Rightarrow> True | RunMarkerCommand _ _ _ \<Rightarrow> True | CopyCommand _ _ _ _ \<Rightarrow> True
   | AddCommand _ _ _ \<Rightarrow> True | _ \<Rightarrow> False)"

definition ShouldCacheOutput :: "DockerCommand \<Rightarrow> bool" where
  "ShouldCacheOutput c = (case c of
     RunCommand _ b \<Rightarrow> b | RunMarkerCommand _ _ b \<Rightarrow> b | CopyCommand _ _ _ b \<Rightarrow> b | _ \<Rightarrow> False)"

definition ShouldDetectDeletedFiles :: "DockerCommand \<Rightarrow> bool" where
  "ShouldDetectDeletedFiles c = (case c of RunMarkerCommand _ _ _ \<Rightarrow> True | _ \<Rightarrow> False)"

definition CacheCommand :: "DockerCommand \<Rightarrow> cached_image \<Rightarrow> DockerCommand option" where
  "CacheCommand c i = (case c of
     RunCommand k _ \<Rightarrow> Some (CachingRunCommand k i None None)
   | RunMarkerCommand k _ _ \<Rightarrow> Some (CachingRunCommand k i None None)
   | CopyCommand k context _ _ \<Rightarrow> Some (CachingCopyCommand k context i None None)
   | _ \<Rightarrow> None)"

text \<open>The type switch on \<open>commands.Cached\<close>, and its \<open>Layer()\<close>\<close>

definition is_cached :: "DockerCommand \<Rightarrow> bool" where
  "is_cached c = (case c of CachingRunCommand _ _ _ _ \<Rightarrow> True | CachingCopyCommand _ _ _ _ _ \<Rightarrow> True | _ \<Rightarrow> False)"

definition CastAbstractCopyCommand :: "DockerCommand \<Rightarrow> string option" where
  "CastAbstractCopyCommand c = (case c of
     CopyCommand k _ _ _ \<Rightarrow> Some (From (cmd_inst k))
   | CachingCopyCommand k _ _ _ _ \<Rightarrow> Some (From (cmd_inst k)) | _ \<Rightarrow> None)"

subsection \<open>Metadata commands\<close>

definition resolve_env :: "host \<Rightarrow> string \<Rightarrow> bool \<Rightarrow> (cstate, string) act" where
  "resolve_env H v isFilepath = sreads (\<lambda>s. ResolveEnvironmentReplacement (lib H) v (envs s) isFilepath)"

text \<open>The shell form of a command line: \<open>append(shell, strings.Join(cmdLine, " "))\<close>, where the shell is the
  configuration's slice or a new one.\<close>

definition shell_form :: "host \<Rightarrow> slice \<Rightarrow> (cstate, slice) act" where
  "shell_form H line s =
     (let words = join '' '' (sl_read (arrs s) line);
          (shell, h) = (if slen (Shell (cfg s)) > 0 then (Shell (cfg s), arrs s)
                        else sl_new 2 [''/bin/sh'', ''-c''] (arrs s));
          (r, h) = sl_append (grow H) shell words h
      in (Inr r, s\<lparr>arrs := h\<rparr>))"

definition new_command :: "host \<Rightarrow> slice \<Rightarrow> bool \<Rightarrow> (cstate, slice) act" where
  "new_command H line prepend = (if prepend then shell_form H line else sret line)"

definition exec_Cmd :: "host \<Rightarrow> slice \<Rightarrow> bool \<Rightarrow> (cstate, unit) act" where
  "exec_Cmd H line prepend =
     sbind (new_command H line prepend) (\<lambda>newCommand. set_cfg (\<lambda>c. c\<lparr>Cmd := newCommand, ArgsEscaped := False\<rparr>))"

definition exec_Entrypoint :: "host \<Rightarrow> slice \<Rightarrow> bool \<Rightarrow> (cstate, unit) act" where
  "exec_Entrypoint H line prepend =
     sbind (new_command H line prepend) (\<lambda>newCommand. set_cfg (\<lambda>c. c\<lparr>Entrypoint := newCommand\<rparr>))"

definition exec_Env :: "host \<Rightarrow> KeyValuePair list \<Rightarrow> (cstate, unit) act" where
  "exec_Env H newEnvs =
     sbind (sreads (\<lambda>s. UpdateConfigEnv (lib H) newEnvs (env_of (cfg s)) (envs s))) (\<lambda>e.
       set_cfg (\<lambda>c. c\<lparr>Env := Some e\<rparr>))"

definition validProtocol :: "string \<Rightarrow> bool" where
  "validProtocol protocol \<longleftrightarrow> protocol \<in> set [''tcp'', ''udp'']"

definition expose_port :: "host \<Rightarrow> string \<Rightarrow> (cstate, string) act" where
  "expose_port H p =
     sbind (resolve_env H p False) (\<lambda>p.
       let p = (if contains p ''/'' then p else p @ ''/tcp'');
           protocol = split_on CHR ''/'' p ! 1
       in if validProtocol protocol then sret p else sfail (Msg (''invalid protocol: '' @ protocol)))"

definition exec_Expose :: "host \<Rightarrow> string list \<Rightarrow> (cstate, unit) act" where
  "exec_Expose H ports =
     sbind (smap (expose_port H) ports) (\<lambda>ps.
       set_cfg (\<lambda>c. c\<lparr>ExposedPorts := Some (fold (\<lambda>p m. gm_set m p ()) ps (map_or_new (ExposedPorts c)))\<rparr>))"

text \<open>\<open>updateLabels\<close> writes the expanded pairs back into the instruction.\<close>

definition updateLabels :: "host \<Rightarrow> KeyValuePair list \<Rightarrow> (cstate, KeyValuePair list) act" where
  "updateLabels H labels =
     sbind (sreads (\<lambda>s. rmap (expand_pair (lib H) (envs s)) labels)) (\<lambda>labels.
     sthen (set_cfg (\<lambda>c. c\<lparr>Labels := Some (fold (\<lambda>(k, v) m. gm_set m k v) labels (map_or_new (Labels c)))\<rparr>))
           (sret labels))"

definition exec_Shell :: "slice \<Rightarrow> (cstate, unit) act" where
  "exec_Shell shell = set_cfg (\<lambda>c. c\<lparr>Shell := shell\<rparr>)"

definition convertDockerHealthConfigToContainerRegistryFormat :: "HealthcheckConfig \<Rightarrow> HealthConfig" where
  "convertDockerHealthConfigToContainerRegistryFormat h =
     \<lparr>Test = Test h, Interval = Interval h, Timeout = Timeout h, StartPeriod = StartPeriod h, Retries = Retries h\<rparr>"

definition exec_HealthCheck :: "HealthcheckConfig \<Rightarrow> (cstate, unit) act" where
  "exec_HealthCheck h =
     set_cfg (\<lambda>c. c\<lparr>Healthcheck := Some (convertDockerHealthConfigToContainerRegistryFormat h)\<rparr>)"

definition exec_OnBuild :: "string \<Rightarrow> (cstate, unit) act" where
  "exec_OnBuild expression = set_cfg (\<lambda>c. c\<lparr>OnBuild := OnBuild c @ [expression]\<rparr>)"

definition exec_StopSignal :: "host \<Rightarrow> string \<Rightarrow> (cstate, unit) act" where
  "exec_StopSignal H signal =
     sbind (resolve_env H signal False) (\<lambda>stopsignal.
     sthen (sreads (\<lambda>_. parse_signal H stopsignal))
           (set_cfg (\<lambda>c. c\<lparr>StopSignal := stopsignal\<rparr>)))"

definition exec_User :: "host \<Rightarrow> string \<Rightarrow> (cstate, unit) act" where
  "exec_User H u =
     (let userAndGroup = split_on CHR '':'' u
      in sbind (swrap (''resolving user '' @ hd userAndGroup) (resolve_env H (hd userAndGroup) False)) (\<lambda>userStr.
         sbind (if length userAndGroup > 1
                then sbind (swrap (''resolving group '' @ userAndGroup ! 1) (resolve_env H (userAndGroup ! 1) False))
                       (\<lambda>groupStr. sret (userStr @ '':'' @ groupStr))
                else sret userStr) (\<lambda>userStr. set_cfg (\<lambda>c. c\<lparr>User := userStr\<rparr>))))"

definition ParseArg :: "libs \<Rightarrow> string \<Rightarrow> string option \<Rightarrow> string list \<Rightarrow> BuildArgs \<Rightarrow> (string \<times> string option) res" where
  "ParseArg l key val env ba =
     (let replacementEnvs = ReplacementEnvs ba env
      in rbind (ResolveEnvironmentReplacement l key replacementEnvs False) (\<lambda>resolvedKey.
           case val of
             Some v \<Rightarrow> rbind (ResolveEnvironmentReplacement l v replacementEnvs False) (\<lambda>x. Inr (resolvedKey, Some x))
           | None \<Rightarrow>
               Inr (resolvedKey,
                 (case gm_get (GetAllAllowed ba) resolvedKey of
                    Some x \<Rightarrow> Some x | None \<Rightarrow> gm_get (GetAllMeta ba) resolvedKey))))"

definition exec_arg :: "host \<Rightarrow> string \<times> string option \<Rightarrow> (cstate, unit) act" where
  "exec_arg H arg =
     sbind (sreads (\<lambda>s. ParseArg (lib H) (fst arg) (snd arg) (env_of (cfg s)) (args s))) (\<lambda>(key, val).
       smodify (\<lambda>s. s\<lparr>args := AddArg key val (args s)\<rparr>))"

definition exec_Arg :: "host \<Rightarrow> Build_Args.ArgCommand \<Rightarrow> (cstate, unit) act" where
  "exec_Arg H as = sfold (exec_arg H) as"

definition exec_volume :: "string \<Rightarrow> (world, unit) act" where
  "exec_volume volume =
     sthen (smodify (AddVolumePathToIgnoreList volume))
       (sbind (stry (sreads (\<lambda>w. os_Stat (files w) volume))) (\<lambda>r. case r of
            Inl e \<Rightarrow>
              (if is_not_exist e
               then swrap (''could not create directory for volume '' @ volume) (on_files (os_MkdirAll volume 493))
               else sret ())
          | Inr _ \<Rightarrow> sret ()))"

definition exec_Volume :: "host \<Rightarrow> string list \<Rightarrow> (cstate, unit) act" where
  "exec_Volume H vols =
     sbind (sreads (\<lambda>s. ResolveEnvironmentReplacementList (lib H) vols (envs s) True)) (\<lambda>resolved.
     sthen (on_world (sfold exec_volume resolved))
           (set_cfg (\<lambda>c. c\<lparr>Volumes := Some (fold (\<lambda>v m. gm_set m v ()) resolved (map_or_new (Volumes c)))\<rparr>)))"

definition exec_Workdir :: "host \<Rightarrow> string \<Rightarrow> (cstate, string list) act" where
  "exec_Workdir H path =
     sbind (resolve_env H path True) (\<lambda>resolved.
     sthen (set_cfg (\<lambda>c. c\<lparr>WorkingDir :=
              (if is_abs resolved then resolved
               else if WorkingDir c \<noteq> [] then join_path [WorkingDir c, resolved]
               else join_path [''/'', resolved])\<rparr>))
     (sbind (sgets (\<lambda>s. RootedPath (wld s) (WorkingDir (cfg s)))) (\<lambda>rooted.
      sbind (sgets (\<lambda>s. os_Stat (files (wld s)) rooted)) (\<lambda>r. case r of
         Inl e \<Rightarrow>
           (if is_not_exist e then
              sbind (sgets (\<lambda>s. User (cfg s))) (\<lambda>u.
              sbind (if u \<noteq> [] then swrap (''identifying uid and gid for user '' @ u)
                       (sreads (\<lambda>s. GetUserGroup (lib H) u (envs s)))
                     else sret (-1, -1)) (\<lambda>(uid, gid).
              sthen (swrap ''creating workdir'' (on_world (MkdirAllWithPermissions rooted 493 uid gid)))
                    (sret [rooted])))
            else sret [])
       | Inr _ \<Rightarrow> sret []))))"

subsection \<open>Local archives\<close>

definition fileIsCompressedTar :: "host \<Rightarrow> world \<Rightarrow> string \<Rightarrow> bool \<times> int" where
  "fileIsCompressedTar H w src =
     (case os_ReadFile (files w) src of
        Inl _ \<Rightarrow> (False, -1)
      | Inr buf \<Rightarrow> (detect_compression H buf > 0, detect_compression H buf))"

definition fileIsUncompressedTar :: "host \<Rightarrow> world \<Rightarrow> string \<Rightarrow> bool" where
  "fileIsUncompressedTar H w src =
     (case os_ReadFile (files w) src of
        Inl _ \<Rightarrow> False
      | Inr buf \<Rightarrow>
          (case os_Lstat (files w) src of
             Inl _ \<Rightarrow> False
           | Inr fi \<Rightarrow> size_of fi \<noteq> 0 \<and> fst (read_tar H buf) \<noteq> []))"

definition IsFileLocalTarArchive :: "host \<Rightarrow> world \<Rightarrow> string \<Rightarrow> bool" where
  "IsFileLocalTarArchive H w src \<longleftrightarrow> fst (fileIsCompressedTar H w src) \<or> fileIsUncompressedTar H w src"

text \<open>\<open>UnTar\<close> of a stream: the entries up to the first that cannot be read.\<close>

definition untar_stream :: "host \<Rightarrow> string \<Rightarrow> string \<Rightarrow> (world, string list) act" where
  "untar_stream H buf dest =
     (case read_tar H buf of (es, e) \<Rightarrow>
        sbind (UnTar es dest) (\<lambda>fs. case e of None \<Rightarrow> sret fs | Some e \<Rightarrow> sfail e))"

definition archive_Bzip2 :: int where "archive_Bzip2 = 1"
definition archive_Gzip :: int where "archive_Gzip = 2"

definition UnpackLocalTarArchive :: "host \<Rightarrow> string \<Rightarrow> string \<Rightarrow> (world, string list) act" where
  "UnpackLocalTarArchive H path dest =
     sbind (sgets (\<lambda>w. fileIsCompressedTar H w path)) (\<lambda>(compressed, level).
       if compressed \<and> level = archive_Gzip then
         sbind (sreads (\<lambda>w. os_ReadFile (files w) path)) (\<lambda>buf.
         sbind (sreads (\<lambda>_. gunzip H buf)) (\<lambda>tar. untar_stream H tar dest))
       else if compressed \<and> level = archive_Bzip2 then
         sbind (sreads (\<lambda>w. os_ReadFile (files w) path)) (\<lambda>buf. untar_stream H (bunzip2 H buf) dest)
       else sbind (sgets (\<lambda>w. fileIsUncompressedTar H w path)) (\<lambda>plain.
         if plain then sbind (sreads (\<lambda>w. os_ReadFile (files w) path)) (\<lambda>buf. untar_stream H buf dest)
         else sfail (Msg ''path does not lead to local tar archive'')))"

definition UnpackCompressedTar :: "host \<Rightarrow> string \<Rightarrow> string \<Rightarrow> (world, unit) act" where
  "UnpackCompressedTar H path d =
     sbind (sreads (\<lambda>w. os_ReadFile (files w) path)) (\<lambda>buf.
     sbind (sreads (\<lambda>_. gunzip H buf)) (\<lambda>tar. sthen (untar_stream H tar d) (sret ())))"

subsection \<open>\<open>COPY\<close> and \<open>ADD\<close>\<close>

text \<open>The loop of \<open>resolveIfSymlink\<close>: up to the first existing ancestor, with the components left on the
  way. Every step shortens the path, which bounds the fuel.\<close>

fun climb :: "nat \<Rightarrow> filesys \<Rightarrow> string \<Rightarrow> string list \<Rightarrow> (string \<times> string list) res" where
  "climb 0 fs newPath missing = Inl Hang"
| "climb (Suc n) fs newPath missing =
     (if newPath = ''/'' then Inr (newPath, missing)
      else case os_Lstat fs newPath of
        Inl e \<Rightarrow>
          (if is_not_exist e
           then let (d, file) = split_path newPath in climb n fs (clean d) (missing @ [file])
           else Inl (Wrap ''failed to lstat'' e))
      | Inr _ \<Rightarrow> rbind (wrap ''failed to eval symlinks'' (EvalSymlinks fs newPath)) (\<lambda>p. Inr (p, missing)))"

definition resolveIfSymlink :: "world \<Rightarrow> string \<Rightarrow> string res" where
  "resolveIfSymlink w destPath =
     (if \<not> is_abs destPath then Inl (Msg ''dest path must be abs'')
      else if clean (RootDir (conf w)) \<noteq> ''/'' then ResolvePathInRoot w destPath
      else rbind (climb (Suc (length destPath)) (files w) destPath []) (\<lambda>(newPath, missing).
             Inr (clean (fold (\<lambda>c p. join_path [p, c]) (rev missing) newPath))))"

definition app_files :: "string list option \<Rightarrow> string list \<Rightarrow> string list option" where
  "app_files fs gs = (if gs = [] then fs else Some ((case fs of None \<Rightarrow> [] | Some xs \<Rightarrow> xs) @ gs))"

definition from_context :: "config \<Rightarrow> string \<Rightarrow> FileContext \<Rightarrow> FileContext" where
  "from_context c from context =
     (if from \<noteq> [] then \<lparr>Root = join_path [KanikoDir c, from], ExcludedFiles = [], Matches = Matches context\<rparr> else context)"

definition copy_src :: "FileContext \<Rightarrow> string \<Rightarrow> string \<Rightarrow> int \<Rightarrow> int \<Rightarrow> nat \<Rightarrow> bool \<Rightarrow> string \<Rightarrow> (world, string list) act" where
  "copy_src context cwd dest uid gid chmod useDefaultChmod src =
     sbind (swrap ''could not copy source'' (sreads (\<lambda>w. os_Lstat (files w) (join_path [Root context, src])))) (\<lambda>fi.
       let fullPath = join_path [Root context, src];
           fullPath = (if is_dir fi \<and> \<not> has_suffix fullPath ''/'' then fullPath @ ''/'' else fullPath);
           cwd = (if cwd = [] then ''/'' else cwd)
       in sbind (swrap ''find destination path'' (sreads (\<lambda>w. DestinationFilepath w fullPath dest cwd))) (\<lambda>destPath.
          sbind (swrap ''resolving dest symlink'' (sreads (\<lambda>w. resolveIfSymlink w destPath))) (\<lambda>destPath.
            if is_dir fi then swrap ''copying dir'' (CopyDir fullPath destPath context uid gid chmod useDefaultChmod)
            else if is_symlink fi then
              sbind (swrap ''copying symlink'' (CopySymlink fullPath destPath context)) (\<lambda>exclude.
                sret (if exclude then [] else [destPath]))
            else sbind (swrap ''copying file'' (CopyFile fullPath destPath context uid gid chmod useDefaultChmod)) (\<lambda>exclude.
                sret (if exclude then [] else [destPath])))))"

definition exec_Copy :: "host \<Rightarrow> SourcesAndDest \<Rightarrow> string \<Rightarrow> string \<Rightarrow> string \<Rightarrow> FileContext \<Rightarrow> (cstate, FileContext \<times> string list) act" where
  "exec_Copy H sd from chownStr chmodStr context =
     sbind (sgets (\<lambda>s. from_context (conf (wld s)) from context)) (\<lambda>context.
     sbind (swrap ''getting user group from chown'' (sreads (\<lambda>s. GetUserGroup (lib H) chownStr (envs s)))) (\<lambda>(uid, gid).
     sbind (swrap ''resolving src'' (sreads (\<lambda>s. ResolveEnvAndWildcards (lib H) (wld s) sd context (envs s)))) (\<lambda>(srcs, dest).
     sbind (swrap ''getting permissions from chmod'' (sreads (\<lambda>s. GetChmod (lib H) chmodStr (envs s)))) (\<lambda>(chmod, useDefaultChmod).
     sbind (sgets (\<lambda>s. WorkingDir (cfg s))) (\<lambda>cwd.
     sbind (on_world (smap (copy_src context cwd dest uid gid chmod useDefaultChmod) srcs)) (\<lambda>copied.
       sret (context, concat copied)))))))"

definition add_src :: "host \<Rightarrow> FileContext \<Rightarrow> string \<Rightarrow> string list \<Rightarrow> string \<Rightarrow> int \<Rightarrow> int \<Rightarrow> nat \<Rightarrow> string \<Rightarrow>
    (world, string list \<times> string list) act" where
  "add_src H context cwd replacementEnvs dest uid gid chmod src =
     (let fullPath = join_path [Root context, src]
      in if IsSrcRemoteFileURL (lib H) src then
           sbind (sreads (\<lambda>w. URLDestinationFilepath (lib H) w src dest cwd replacementEnvs)) (\<lambda>urlDest.
           sthen (swrap ''downloading remote source file'' (DownloadFileToDest (http_Get (lib H)) src urlDest uid gid chmod))
                 (sret ([urlDest], [])))
         else sbind (sgets (\<lambda>w. IsFileLocalTarArchive H w fullPath)) (\<lambda>isTar.
           if isTar then
             sbind (swrap ''determining dest for tar'' (sreads (\<lambda>w. DestinationFilepath w [] dest cwd))) (\<lambda>tarDest.
             sbind (swrap ''unpacking local tar'' (UnpackLocalTarArchive H fullPath tarDest)) (\<lambda>fs. sret (fs, [])))
           else sret ([], [src])))"

definition exec_Add :: "host \<Rightarrow> SourcesAndDest \<Rightarrow> string \<Rightarrow> string \<Rightarrow> FileContext \<Rightarrow> (cstate, string list) act" where
  "exec_Add H sd chownStr chmodStr context =
     sbind (sgets envs) (\<lambda>replacementEnvs.
     sbind (swrap ''getting permissions from chmod'' (sreads (\<lambda>_. GetChmod (lib H) chmodStr replacementEnvs))) (\<lambda>(chmod, useDefaultChmod).
     sbind (swrap ''getting user group from chown'' (sreads (\<lambda>_. GetUserGroup (lib H) chownStr replacementEnvs))) (\<lambda>(uid, gid).
     sbind (sreads (\<lambda>s. ResolveEnvAndWildcards (lib H) (wld s) sd context replacementEnvs)) (\<lambda>(srcs, dest).
     sbind (sgets (\<lambda>s. WorkingDir (cfg s))) (\<lambda>cwd.
     sbind (on_world (smap (add_src H context cwd replacementEnvs dest uid gid (if useDefaultChmod then 384 else chmod)) srcs)) (\<lambda>added.
       let unresolved = concat (map snd added)
       in if unresolved = [] then sret (concat (map fst added))
          else sbind (swrap ''executing copy command''
                 (exec_Copy H \<lparr>SourcePaths = unresolved, DestPath = dest\<rparr> [] chownStr chmodStr context)) (\<lambda>(_, copied).
               sret (concat (map fst added) @ copied))))))))"

subsection \<open>The build context a command reads\<close>

definition copyCmdFilesUsedFromContext :: "host \<Rightarrow> SourcesAndDest \<Rightarrow> string \<Rightarrow> FileContext \<Rightarrow> cstate \<Rightarrow> string list res" where
  "copyCmdFilesUsedFromContext H sd from context s =
     (let context = from_context (conf (wld s)) from context
      in rbind (ResolveEnvAndWildcards (lib H) (wld s) sd context (envs s)) (\<lambda>(srcs, _).
           Inr (map (\<lambda>src. join_path [Root context, src]) srcs)))"

definition addFilesUsedFromContext :: "host \<Rightarrow> SourcesAndDest \<Rightarrow> FileContext \<Rightarrow> cstate \<Rightarrow> string list res" where
  "addFilesUsedFromContext H sd context s =
     rbind (ResolveEnvAndWildcards (lib H) (wld s) sd context (envs s)) (\<lambda>(srcs, _).
       Inr (map (\<lambda>src. join_path [Root context, src])
         (filter (\<lambda>src. \<not> IsSrcRemoteFileURL (lib H) src \<and> \<not> IsFileLocalTarArchive H (wld s) src) srcs)))"

definition FilesUsedFromContext :: "host \<Rightarrow> DockerCommand \<Rightarrow> cstate \<Rightarrow> string list res" where
  "FilesUsedFromContext H c s =
     (case c of
        CopyCommand k context _ _ \<Rightarrow> copyCmdFilesUsedFromContext H (srcs_dest (cmd_inst k)) (From (cmd_inst k)) context s
      | CachingCopyCommand k context _ _ _ \<Rightarrow> copyCmdFilesUsedFromContext H (srcs_dest (cmd_inst k)) (From (cmd_inst k)) context s
      | AddCommand k context _ \<Rightarrow> addFilesUsedFromContext H (srcs_dest (cmd_inst k)) context s
      | _ \<Rightarrow> Inr [])"

subsection \<open>\<open>RUN\<close>\<close>

text \<open>The permission bits \<open>0o111\<close>\<close>

definition validateExecutableInRoot :: "world \<Rightarrow> string \<Rightarrow> unit res" where
  "validateExecutableInRoot w file =
     rbind (os_Stat (files w) (RootedPath w file)) (\<lambda>info.
       if is_dir info \<or> \<not> exec_bits info then Inl (Sys EACCES) else Inr ())"

text \<open>\<open>filepath.SplitList\<close>, and \<open>exec.LookPath\<close> for a given \<open>PATH\<close>, which refuses a relative result.\<close>

definition split_list :: "string \<Rightarrow> string list" where
  "split_list p = (if p = [] then [] else split_on CHR '':'' p)"

definition exec_LookPath :: "world \<Rightarrow> string \<Rightarrow> string \<Rightarrow> string res" where
  "exec_LookPath w file pathEnv =
     (if contains file ''/'' then
        (if isExecutableFile w file then Inr file else Inl (Msg ''exec: not found''))
      else case filter (isExecutableFile w) (map (\<lambda>d. join_path [if d = [] then ''.'' else d, file]) (split_list pathEnv)) of
        [] \<Rightarrow> Inl (Msg ''executable file not found in $PATH'')
      | p # _ \<Rightarrow> if is_abs p then Inr p else Inl (Msg ''cannot run executable found relative to current directory''))"

definition lookPath :: "world \<Rightarrow> string \<Rightarrow> string \<Rightarrow> string res" where
  "lookPath w file pathEnv =
     (if clean (RootDir (conf w)) = ''/'' then exec_LookPath w file pathEnv
      else if contains file ''/'' then rbind (validateExecutableInRoot w file) (\<lambda>_. Inr file)
      else case filter (\<lambda>c. is_ok (validateExecutableInRoot w c))
                  (map (\<lambda>d. join_path [if d = [] then ''.'' else d, file]) (split_list pathEnv)) of
        [] \<Rightarrow> Inl (Msg ''executable file not found in $PATH'')
      | p # _ \<Rightarrow> Inr p)"

definition pathEnvFrom :: "string list \<Rightarrow> string" where
  "pathEnvFrom es =
     (case filter (\<lambda>e. has_prefix e ''PATH='') es of
        [] \<Rightarrow> ''/usr/local/sbin:/usr/local/bin:/usr/sbin:/usr/bin:/sbin:/bin''
      | e # _ \<Rightarrow> drop 5 e)"

definition setWorkDirIfExists :: "world \<Rightarrow> string \<Rightarrow> string" where
  "setWorkDirIfExists w workdir =
     (if workdir = [] then [] else if is_ok (os_Lstat (files w) (RootedPath w workdir)) then workdir else [])"

definition addDefaultHOME :: "libs \<Rightarrow> string \<Rightarrow> string list \<Rightarrow> string list res" where
  "addDefaultHOME l u es =
     (if list_ex (\<lambda>e. splitn 2 CHR ''='' e ! 0 = ''HOME'') es then Inr es
      else if u = [] \<or> u = ''root'' then Inr (es @ [''HOME=/root''])
      else rbind (wrap (''lookup user '' @ u) (LookupUser l u)) (\<lambda>userObj. Inr (es @ [''HOME='' @ HomeDir userObj])))"

definition prootUserSpec :: "libs \<Rightarrow> world \<Rightarrow> string \<Rightarrow> string" where
  "prootUserSpec l w userStr =
     (if userStr \<in> set [[], ''root'', ''0'', ''0:0''] then []
      else case SyscallCredentials l w userStr of
        Inl _ \<Rightarrow> []
      | Inr cred \<Rightarrow> itoa (int (cred_Uid cred)) @ '':'' @ itoa (int (cred_Gid cred)))"

definition buildSandboxProotCommand :: "libs \<Rightarrow> world \<Rightarrow> string \<Rightarrow> string \<Rightarrow> string \<Rightarrow> string \<Rightarrow> string list \<Rightarrow> string list" where
  "buildSandboxProotCommand l w prootPath root workDir userStr command =
     (let spec = prootUserSpec l w userStr
      in [prootPath, ''-r'', root, ''-b'', ''/proc'', ''-b'', ''/dev'', ''-b'', ''/sys'']
         @ (if workDir \<noteq> [] then [''-w'', workDir] else [])
         @ (if spec \<noteq> [] then [''-i'', spec] else [''-0''])
         @ command)"

definition sandboxProotPath :: "host \<Rightarrow> string \<Rightarrow> (world, string) act" where
  "sandboxProotPath H pathEnv =
     sbind (sgets (\<lambda>w. w)) (\<lambda>w.
       if clean (RootDir (conf w)) = ''/'' \<or> kernel_fs_bound H then sret []
       else if getenv H ''KANIKO_PROOT'' \<noteq> [] \<and> isExecutableFile w (getenv H ''KANIKO_PROOT'') then sret (getenv H ''KANIKO_PROOT'')
       else case filter (isExecutableFile w) [''/kaniko/proot'', ''/usr/local/bin/proot'', ''/busybox/proot''] of
         c # _ \<Rightarrow> sret c
       | [] \<Rightarrow> (case exec_LookPath w ''proot'' pathEnv of
                  Inr p \<Rightarrow> sret p
                | Inl _ \<Rightarrow> provisionProot H))"

text \<open>The exec form: the loop over the \<open>PATH\<close> entries, which sets the first word in place.\<close>

definition find_exe :: "slice \<Rightarrow> string \<Rightarrow> (cstate, unit) act" where
  "find_exe line v =
     (case splitn 2 CHR ''='' v of
        k # rest \<Rightarrow>
          if k \<noteq> ''PATH'' then sret ()
          else (case rest of
                  [] \<Rightarrow> sfail (Panic ''index out of range'')
                | p # _ \<Rightarrow>
                    sbind (sgets (\<lambda>s. sl_read (arrs s) line)) (\<lambda>ws. case ws of
                       [] \<Rightarrow> sfail (Panic ''index out of range'')
                     | f # _ \<Rightarrow> sbind (sgets (\<lambda>s. lookPath (wld s) f p)) (\<lambda>r. case r of
                           Inl _ \<Rightarrow> sret ()
                         | Inr path \<Rightarrow> smodify (\<lambda>s. s\<lparr>arrs := sl_set0 line path (arrs s)\<rparr>))))
      | [] \<Rightarrow> sret ())"

text \<open>The executor's own \<open>PATH\<close> while the command runs: the exec form sets it to each \<open>PATH\<close> entry in turn
  and restores it when the function returns.\<close>

definition current_PATH :: "host \<Rightarrow> bool \<Rightarrow> string list \<Rightarrow> string" where
  "current_PATH H prependShell es =
     (if prependShell then getenv H ''PATH''
      else fold (\<lambda>e p. case cut CHR ''='' e of Some (k, v) \<Rightarrow> (if k = ''PATH'' then v else p) | None \<Rightarrow> p) es (getenv H ''PATH''))"

text \<open>Without proot: the process is started in a chroot when there is a build root, and with the user's
  credentials.\<close>

definition plain_process :: "host \<Rightarrow> bool \<Rightarrow> string \<Rightarrow> string list \<Rightarrow> string \<Rightarrow> string \<Rightarrow> string list \<Rightarrow> string list \<Rightarrow> (world, proc) act" where
  "plain_process H prependShell pathEnv newCommand workDir userStr replacementEnvs env =
     sbind (sgets (\<lambda>w. w)) (\<lambda>w.
       let sandboxed = clean (RootDir (conf w)) \<noteq> ''/'';
           procExe = ResolveSandboxProcSelfExeTarget newCommand prependShell
             (\<lambda>name. lookPath w name (pathEnvFrom replacementEnvs)) (Some (validateExecutableInRoot w))
       in sthen (swhen sandboxed (signore (on_files
                   (UpdateSandboxProcSelfStub (proc_self_stub H) (RootDir (conf w)) procExe newCommand))))
         (sbind (if userStr \<noteq> [] then sbind (swrap ''credentials'' (sreads (\<lambda>w. SyscallCredentials (lib H) w userStr))) (\<lambda>c. sret (Some c))
                 else sret None) (\<lambda>cred.
            sret \<lparr>proc_argv = newCommand, proc_lookup = pathEnv,
                  proc_dir = (if sandboxed \<and> workDir = [] then ''/'' else workDir),
                  proc_env = env,
                  proc_chroot = (if sandboxed then RootDir (conf w) else []),
                  proc_cred = cred\<rparr>)))"

definition run_process :: "host \<Rightarrow> bool \<Rightarrow> proc \<Rightarrow> (world, unit) act" where
  "run_process H usingProot p =
     sbind (swrap (if usingProot
                   then ''starting command through proot (proot relies on the ptrace syscall; ensure the runner's seccomp profile permits ptrace)''
                   else ''starting command'') (start_process H p)) (\<lambda>pid.
     sbind (swrap ''getting group id for process'' (sreads (\<lambda>_. getpgid H pid))) (\<lambda>pgid.
     sthen (swrap ''waiting for process to exit'' (wait_process H pid))
       (case kill_group H pgid of
          Inl e \<Rightarrow> (if e \<noteq> Msg ''no such process'' then sfail e else sret ())
        | Inr _ \<Rightarrow> sret ())))"

definition runCommandInExec :: "host \<Rightarrow> slice \<Rightarrow> bool \<Rightarrow> (cstate, unit) act" where
  "runCommandInExec H line prependShell =
     sbind (if prependShell then shell_form H line
            else sbind (sgets envs) (\<lambda>es. sthen (sfold (find_exe line) es) (sret line))) (\<lambda>newCommand.
     sbind (sgets (\<lambda>s. sl_read (arrs s) newCommand)) (\<lambda>argv.
       if argv = [] then sfail (Panic ''index out of range'')
       else
         sbind (sgets envs) (\<lambda>replacementEnvs.
         sbind (sgets (\<lambda>s. setWorkDirIfExists (wld s) (WorkingDir (cfg s)))) (\<lambda>workDir.
         sbind (sgets (\<lambda>s. hd (split_on CHR '':'' (User (cfg s))))) (\<lambda>u.
         sbind (swrap (''resolving user '' @ u) (resolve_env H u False)) (\<lambda>userStr.
         sbind (swrap ''adding default HOME variable'' (sreads (\<lambda>_. addDefaultHOME (lib H) userStr replacementEnvs))) (\<lambda>env.
         sbind (on_world (sandboxProotPath H (current_PATH H prependShell replacementEnvs))) (\<lambda>prootPath.
           if prootPath \<noteq> [] then
             sbind (sgets wld) (\<lambda>w.
               on_world (run_process H True
                 \<lparr>proc_argv = buildSandboxProotCommand (lib H) w prootPath (RootDir (conf w)) workDir userStr argv,
                  proc_lookup = current_PATH H prependShell replacementEnvs, proc_dir = [], proc_env = env, proc_chroot = [], proc_cred = None\<rparr>))
           else sbind (on_world (plain_process H prependShell (current_PATH H prependShell replacementEnvs) argv workDir userStr replacementEnvs env)) (\<lambda>p.
             on_world (run_process H False p))))))))))"

subsection \<open>The caching commands\<close>

definition exec_cached :: "string \<Rightarrow> string \<Rightarrow> cached_image \<Rightarrow> (cstate, layer \<times> string list) act" where
  "exec_cached nil_msg layers_msg i =
     (case i of
        None \<Rightarrow> sfail (Msg nil_msg)
      | Some (Inl e) \<Rightarrow> sfail (Wrap layers_msg e)
      | Some (Inr ls) \<Rightarrow>
          (case ls of
             [l] \<Rightarrow>
               sbind (swrap ''extracting fs from image'' (on_world (\<lambda>w.
                   GetFSFromLayers (Some ExtractFile) True (RootDir (conf w)) [layer_tar l] w))) (\<lambda>fs. sret (l, fs))
           | _ \<Rightarrow> sfail (Msg (''expected 1 layers but got '' @ itoa (int (length ls))))))"

definition exec_RunMarker :: "host \<Rightarrow> slice \<Rightarrow> bool \<Rightarrow> (cstate, string list) act" where
  "exec_RunMarker H line prependShell =
     sbind (sgets (\<lambda>s. fst (GetFSInfoMap (wld s) ''/'' []))) (\<lambda>prevFilesMap.
     sthen (runCommandInExec H line prependShell)
           (sgets (\<lambda>s. snd (GetFSInfoMap (wld s) ''/'' prevFilesMap))))"

subsection \<open>Execution of a command\<close>

definition ExecuteCommand :: "host \<Rightarrow> DockerCommand \<Rightarrow> (cstate, DockerCommand) act" where
  "ExecuteCommand H c =
     (case c of
        RunCommand k _ \<Rightarrow> sthen (runCommandInExec H (CmdLine (cmd_inst k)) (PrependShell (cmd_inst k))) (sret c)
      | RunMarkerCommand k _ b \<Rightarrow>
          sbind (exec_RunMarker H (CmdLine (cmd_inst k)) (PrependShell (cmd_inst k))) (\<lambda>fs.
            sret (RunMarkerCommand k (Some fs) b))
      | CachingRunCommand k i _ _ \<Rightarrow>
          sbind (exec_cached (''command image is nil '' @ cmd_code k) ''retrieving image layers'' i) (\<lambda>(l, fs).
            sret (CachingRunCommand k i (Some l) (Some fs)))
      | CopyCommand k context fs b \<Rightarrow>
          (case cmd_inst k of
             CopyInst sd from chown chmod \<Rightarrow>
               sbind (exec_Copy H sd from chown chmod context) (\<lambda>(context, copied).
                 sret (CopyCommand k context (app_files fs copied) b))
           | _ \<Rightarrow> sret c)
      | CachingCopyCommand k context i _ _ \<Rightarrow>
          sbind (exec_cached (''cached command image is nil '' @ cmd_code k) ''retrieve image layers'' i) (\<lambda>(l, fs).
            sret (CachingCopyCommand k context i (Some l) (Some fs)))
      | AddCommand k context fs \<Rightarrow>
          (case cmd_inst k of
             AddInst sd chown chmod \<Rightarrow>
               sbind (exec_Add H sd chown chmod context) (\<lambda>added. sret (AddCommand k context (app_files fs added)))
           | _ \<Rightarrow> sret c)
      | WorkdirCommand k _ \<Rightarrow> sbind (exec_Workdir H (Path (cmd_inst k))) (\<lambda>fs. sret (WorkdirCommand k (Some fs)))
      | ExposeCommand k \<Rightarrow> sthen (exec_Expose H (Ports (cmd_inst k))) (sret c)
      | EnvCommand k \<Rightarrow> sthen (exec_Env H (EnvPairs (cmd_inst k))) (sret c)
      | CmdCommand k \<Rightarrow> sthen (exec_Cmd H (CmdLine (cmd_inst k)) (PrependShell (cmd_inst k))) (sret c)
      | EntrypointCommand k \<Rightarrow> sthen (exec_Entrypoint H (CmdLine (cmd_inst k)) (PrependShell (cmd_inst k))) (sret c)
      | LabelCommand k \<Rightarrow>
          sbind (updateLabels H (LabelPairs (cmd_inst k))) (\<lambda>ls. sret (LabelCommand (k\<lparr>cmd_inst := LabelInst ls\<rparr>)))
      | UserCommand k \<Rightarrow> sthen (exec_User H (UserName (cmd_inst k))) (sret c)
      | OnBuildCommand k \<Rightarrow> sthen (exec_OnBuild (Expression (cmd_inst k))) (sret c)
      | VolumeCommand k \<Rightarrow> sthen (exec_Volume H (VolumePaths (cmd_inst k))) (sret c)
      | StopSignalCommand k \<Rightarrow> sthen (exec_StopSignal H (Signal (cmd_inst k))) (sret c)
      | ArgCommand k \<Rightarrow> sthen (exec_Arg H (Args (cmd_inst k))) (sret c)
      | ShellCommand k \<Rightarrow> sthen (exec_Shell (ShellWords (cmd_inst k))) (sret c)
      | HealthCheckCommand k \<Rightarrow> sthen (exec_HealthCheck (Health (cmd_inst k))) (sret c))"

end
