(* ===== verification/Command_Props.thy ===== *)
theory Command_Props
  imports Commands
begin

text \<open>
  What the commands of \<open>pkg/commands\<close> do to the state: they keep the file system well formed, metadata
  commands leave the files alone, how \<open>CMD\<close> and \<open>ENTRYPOINT\<close> interact through the shell's slice, how \<open>LABEL\<close>
  expands, which ports \<open>EXPOSE\<close> accepts, and what \<open>resolveIfSymlink\<close> returns. The contract
  that the executor relies on is the locale \<open>docker_commands\<close>.
\<close>

subsection \<open>The file system stays well formed\<close>

definition cs_ok :: "cstate \<Rightarrow> bool" where
  "cs_ok s \<longleftrightarrow> world_ok (wld s)"

lemma keeps_on_world [keeps_rules]: "keeps world_ok m \<Longrightarrow> keeps cs_ok (on_world m)"
  by (fastforce simp: keeps_def on_world_def cs_ok_def split: prod.splits)

lemma keeps_set_cfg [keeps_rules]: "keeps cs_ok (set_cfg f)"
  by (simp add: keeps_def set_cfg_def smodify_def cs_ok_def)

lemma keeps_shell_form [keeps_rules]: "keeps cs_ok (shell_form H line)"
  by (auto simp: keeps_def shell_form_def cs_ok_def Let_def split: prod.splits)

lemma keeps_resolve_env [keeps_rules]: "keeps P (resolve_env H v b)"
  by (simp add: resolve_env_def)

lemma keeps_smodify_arrs [keeps_rules]: "keeps cs_ok (smodify (\<lambda>s. s\<lparr>arrs := f s\<rparr>))"
  by (simp add: keeps_def smodify_def cs_ok_def)

lemma keeps_smodify_args [keeps_rules]: "keeps cs_ok (smodify (\<lambda>s. s\<lparr>args := f s\<rparr>))"
  by (simp add: keeps_def smodify_def cs_ok_def)

lemma keeps_list [keeps_rules]:
  "keeps P m \<Longrightarrow> (\<And>x xs. keeps P (f x xs)) \<Longrightarrow> keeps P (case r of [] \<Rightarrow> m | x # xs \<Rightarrow> f x xs)"
  by (cases r) simp_all

lemma keeps_volumes [keeps_rules]: "keeps world_ok (smodify (AddVolumePathToIgnoreList v))"
  by (simp add: keeps_def smodify_def world_ok_def AddVolumePathToIgnoreList_def AddToIgnoreList_def Let_def)

lemma keeps_new_command [keeps_rules]: "keeps cs_ok (new_command H line b)"
  unfolding new_command_def by (intro keeps_rules)

lemma keeps_metadata [keeps_rules]:
  "keeps cs_ok (exec_Cmd H line b)" "keeps cs_ok (exec_Entrypoint H line b)" "keeps cs_ok (exec_Env H es)"
  "keeps cs_ok (exec_Expose H ps)" "keeps cs_ok (updateLabels H ls)" "keeps cs_ok (exec_User H u)"
  "keeps cs_ok (exec_OnBuild e)" "keeps cs_ok (exec_StopSignal H g)" "keeps cs_ok (exec_Arg H as)"
  unfolding exec_Cmd_def exec_Entrypoint_def exec_Env_def exec_Expose_def expose_port_def updateLabels_def
    exec_User_def exec_OnBuild_def exec_StopSignal_def exec_Arg_def exec_arg_def
  by (intro keeps_rules)+

lemma keeps_exec_Volume [keeps_rules]: "keeps cs_ok (exec_Volume H vs)"
  unfolding exec_Volume_def exec_volume_def by (intro keeps_rules)

lemma keeps_exec_Workdir [keeps_rules]: "keeps cs_ok (exec_Workdir H p)"
  unfolding exec_Workdir_def by (intro keeps_rules)

lemma keeps_Unpack [keeps_rules]: "keeps world_ok (UnpackLocalTarArchive H path dest)"
  unfolding UnpackLocalTarArchive_def untar_stream_def by (intro keeps_rules)

lemma keeps_Download [keeps_rules]: "keeps world_ok (DownloadFileToDest g u dest uid gid chmod)"
  unfolding DownloadFileToDest_def by (intro keeps_rules)

lemma keeps_exec_Copy [keeps_rules]: "keeps cs_ok (exec_Copy H sd from ch cm context)"
  unfolding exec_Copy_def copy_src_def by (intro keeps_rules)

lemma keeps_exec_Add [keeps_rules]: "keeps cs_ok (exec_Add H sd ch cm context)"
  unfolding exec_Add_def add_src_def by (intro keeps_rules)

lemma keeps_stub [keeps_rules]: "keeps fs_ok (UpdateSandboxProcSelfStub stub sandbox exe argv)"
  unfolding UpdateSandboxProcSelfStub_def by (intro keeps_rules)

lemma keeps_run [keeps_rules]: "host_ok H \<Longrightarrow> keeps cs_ok (runCommandInExec H line b)"
  unfolding runCommandInExec_def run_process_def plain_process_def sandboxProotPath_def find_exe_def
  by (intro keeps_rules keeps_host)

lemma keeps_exec_cached [keeps_rules]: "keeps cs_ok (exec_cached m1 m2 i)"
proof -
  have "keeps world_ok (\<lambda>w. GetFSFromLayers (Some ExtractFile) True (RootDir (conf w)) ls w)" for ls
    using keepsD [OF keeps_GetFSFromLayers [OF keeps_ExtractFile]] by (intro keeps_apply) fast
  then show ?thesis unfolding exec_cached_def by (intro keeps_rules)
qed

lemma keeps_RunMarker [keeps_rules]: "host_ok H \<Longrightarrow> keeps cs_ok (exec_RunMarker H line b)"
  unfolding exec_RunMarker_def by (intro keeps_rules)

lemma keeps_inst [keeps_rules]:
  "(\<And>sd from ch cm. keeps P (f sd from ch cm)) \<Longrightarrow> keeps P m \<Longrightarrow>
     keeps P (case i of CopyInst sd from ch cm \<Rightarrow> f sd from ch cm | _ \<Rightarrow> m)"
  "(\<And>sd ch cm. keeps P (g sd ch cm)) \<Longrightarrow> keeps P m \<Longrightarrow>
     keeps P (case i of AddInst sd ch cm \<Rightarrow> g sd ch cm | _ \<Rightarrow> m)"
  by (cases i; simp)+

lemma keeps_ExecuteCommand: "host_ok H \<Longrightarrow> keeps cs_ok (ExecuteCommand H c)"
  unfolding ExecuteCommand_def exec_Shell_def exec_HealthCheck_def by (cases c; simp; intro keeps_rules)

subsection \<open>The contract of a command\<close>

text \<open>What the executor relies on when it runs the commands of a stage one after the other: a
  command keeps the invariant of the state, and the command it leaves behind has the same text (which keys the
  cache) and the same kind.\<close>

locale docker_commands =
  fixes exec :: "'h \<Rightarrow> 'c \<Rightarrow> ('s, 'c) act"
    and env_ok :: "'h \<Rightarrow> bool"
    and text_of :: "'c \<Rightarrow> string"
    and metadata :: "'c \<Rightarrow> bool"
    and inv :: "'s \<Rightarrow> bool"
  assumes exec_inv: "env_ok h \<Longrightarrow> keeps inv (exec h c)"
    and exec_text: "exec h c s = (Inr c', t) \<Longrightarrow> text_of c' = text_of c"
    and exec_metadata: "exec h c s = (Inr c', t) \<Longrightarrow> metadata c' = metadata c"
begin

lemma run_inv: "env_ok h \<Longrightarrow> keeps inv (smap (exec h) cs)"
  by (intro keeps_rules exec_inv)

lemma run_text: "smap (exec h) cs s = (Inr cs', t) \<Longrightarrow> map text_of cs' = map text_of cs"
  by (induction cs arbitrary: s cs' t) (auto simp: act_Inr exec_text)

lemma run_metadata: "smap (exec h) cs s = (Inr cs', t) \<Longrightarrow> map metadata cs' = map metadata cs"
  by (induction cs arbitrary: s cs' t) (auto simp: act_Inr exec_metadata)

end

lemma ExecuteCommand_kind:
  assumes "ExecuteCommand H c s = (Inr c', t)"
  shows "cmd_String c' = cmd_String c \<and> MetadataOnly c' = MetadataOnly c"
  using assms by (cases c) (auto simp: ExecuteCommand_def act_Inr cmd_String_def MetadataOnly_def
      split: instruction.splits prod.splits)

interpretation dc: docker_commands ExecuteCommand host_ok cmd_String MetadataOnly cs_ok
  by unfold_locales (use keeps_ExecuteCommand ExecuteCommand_kind in blast)+


definition demo_state :: cstate where
  "demo_state = \<lparr>wld = demo_world ''/'', cfg = empty_config, args = NewBuildArgs [], arrs = []\<rparr>"

definition inst :: "string \<Rightarrow> instruction \<Rightarrow> Command" where
  "inst c i = \<lparr>cmd_name = [], cmd_code = c, cmd_inst = i\<rparr>"


subsection \<open>Metadata commands\<close>

definition wld_is :: "world \<Rightarrow> cstate \<Rightarrow> bool" where
  "wld_is w s \<longleftrightarrow> wld s = w"

lemma wld_is_rules [keeps_rules]:
  "keeps (wld_is w) (set_cfg f)" "keeps (wld_is w) (shell_form H line)"
  "keeps (wld_is w) (smodify (\<lambda>s. s\<lparr>args := g s\<rparr>))"
  by (auto simp: keeps_def wld_is_def set_cfg_def smodify_def shell_form_def Let_def split: prod.splits)

lemma wld_is_exec [keeps_rules]:
  "keeps (wld_is w) (exec_Cmd H line b)" "keeps (wld_is w) (exec_Entrypoint H line b)" "keeps (wld_is w) (exec_Env H es)"
  "keeps (wld_is w) (exec_Expose H ps)" "keeps (wld_is w) (updateLabels H ls)" "keeps (wld_is w) (exec_User H u)"
  "keeps (wld_is w) (exec_OnBuild e)" "keeps (wld_is w) (exec_StopSignal H g)" "keeps (wld_is w) (exec_Arg H as)"
  unfolding exec_Cmd_def exec_Entrypoint_def exec_Env_def exec_Expose_def expose_port_def updateLabels_def
    exec_User_def exec_OnBuild_def exec_StopSignal_def exec_Arg_def exec_arg_def new_command_def
  by (intro keeps_rules)+

lemma wld_is_metadata:
  assumes "MetadataOnly c" and "\<not> is_VolumeCommand c"
  shows "keeps (wld_is w) (ExecuteCommand H c)"
  using assms unfolding ExecuteCommand_def exec_Shell_def exec_HealthCheck_def
  by (cases c) (auto simp: MetadataOnly_def intro!: keeps_rules)

text \<open>C33. A command that calls itself metadata only changes nothing but the configuration, the build
  arguments and the arrays of its slices: the files, the ignore list and the volumes stay as they are. The one
  exception is \<open>VOLUME\<close>.\<close>

theorem metadata_commands_keep_world:
  assumes "MetadataOnly c" and "\<not> is_VolumeCommand c"
  shows "wld (snd (ExecuteCommand H c s)) = wld s"
  using keepsD [OF wld_is_metadata [OF assms], of "wld s" s H] by (simp add: wld_is_def)

theorem metadata_commands_keep_world_witness:
  "wld (snd (ExecuteCommand plain_host (UserCommand (inst ''USER a:b'' (UserInst ''a:b''))) demo_state)) = demo_world ''/'' \<and>
   User (cfg (snd (ExecuteCommand plain_host (UserCommand (inst ''USER a:b'' (UserInst ''a:b''))) demo_state))) = ''a:b''"
proof
  let ?c = "UserCommand (inst ''USER a:b'' (UserInst ''a:b''))"
  show "wld (snd (ExecuteCommand plain_host ?c demo_state)) = demo_world ''/''"
    using metadata_commands_keep_world [of ?c plain_host demo_state] by (simp add: MetadataOnly_def demo_state_def)
  show "User (cfg (snd (ExecuteCommand plain_host ?c demo_state))) = ''a:b''" by code_simp
qed

subsection \<open>The shell's slice\<close>

lemma shell_form_spec:
  assumes "0 < slen (Shell (cfg s))"
  shows "shell_form H line s =
    (Inr (fst (sl_append (grow H) (Shell (cfg s)) (join '' '' (sl_read (arrs s) line)) (arrs s))),
     s\<lparr>arrs := snd (sl_append (grow H) (Shell (cfg s)) (join '' '' (sl_read (arrs s) line)) (arrs s))\<rparr>)"
  using assms by (simp add: shell_form_def Let_def split: prod.splits)

definition own_array :: "cstate \<Rightarrow> slice \<Rightarrow> bool" where
  "own_array s line \<longleftrightarrow> sl_ok (arrs s) line \<and> sarr line \<noteq> sarr (Shell (cfg s))"

lemma sl_append_shared:
  assumes "slen s < sl_cap h s"
  shows "sl_append g s y (snd (sl_append g s x h)) = (s\<lparr>slen := Suc (slen s)\<rparr>, snd (sl_append g s y h))"
    and "fst (sl_append g s x h) = s\<lparr>slen := Suc (slen s)\<rparr>"
proof -
  have a: "sarr s < length h" using assms by (auto simp: sl_cap_def array_of_def split: if_splits)
  with assms show "sl_append g s y (snd (sl_append g s x h)) = (s\<lparr>slen := Suc (slen s)\<rparr>, snd (sl_append g s y h))"
    by (simp add: sl_append_def sl_cap_def array_of_def)
  show "fst (sl_append g s x h) = s\<lparr>slen := Suc (slen s)\<rparr>" using assms by (simp add: sl_append_def)
qed

text \<open>\<open>CMD\<close> and \<open>ENTRYPOINT\<close> in shell form, one after the other, under a \<open>SHELL\<close>. Both append to the shell's slice.
  If its array has no spare capacity the configuration ends up with the two command lines given; if it
  has, the second \<open>append\<close> writes over the first and the \<open>CMD\<close> of the image becomes the command line
  of the \<open>ENTRYPOINT\<close>.\<close>

theorem CMD_then_ENTRYPOINT:
  fixes H :: host
  assumes "sl_ok (arrs s) (Shell (cfg s))" and "0 < slen (Shell (cfg s))" and "own_array s line1" and "own_array s line2"
  defines "t \<equiv> snd (sthen (exec_Cmd H line1 True) (exec_Entrypoint H line2 True) s)"
  defines "sh \<equiv> sl_read (arrs s) (Shell (cfg s))"
  shows "sl_read (arrs t) (Entrypoint (cfg t)) = sh @ [join '' '' (sl_read (arrs s) line2)] \<and>
    sl_read (arrs t) (Cmd (cfg t)) =
      sh @ [join '' '' (sl_read (arrs s) (if slen (Shell (cfg s)) < sl_cap (arrs s) (Shell (cfg s)) then line2 else line1))]"
proof -
  let ?S = "Shell (cfg s)" let ?h = "arrs s"
  let ?w = "\<lambda>line. join '' '' (sl_read ?h line)"
  let ?a = "sl_append (grow H) ?S (?w line1) ?h"
  have l2: "sl_read (snd ?a) line2 = sl_read ?h line2"
    using sl_append_frame [of ?h line2 ?S] assms(4) by (simp add: own_array_def)
  have okS: "sl_ok (snd ?a) ?S" and rdS: "sl_read (snd ?a) ?S = sl_read ?h ?S"
    using sl_append_frame [OF assms(1), of ?S] by simp_all
  let ?b = "sl_append (grow H) ?S (?w line2) (snd ?a)"
  have t: "arrs t = snd ?b" "Entrypoint (cfg t) = fst ?b" "Cmd (cfg t) = fst ?a"
    using assms(2) unfolding t_def exec_Cmd_def exec_Entrypoint_def new_command_def
    by (simp_all add: act_defs set_cfg_def shell_form_spec l2)
  have ent: "sl_read (snd ?b) (fst ?b) = sl_read ?h ?S @ [?w line2]" using sl_append_read [OF okS] rdS by simp
  show ?thesis
  proof (cases "slen ?S < sl_cap ?h ?S")
    case True
    have "snd ?b = snd (sl_append (grow H) ?S (?w line2) ?h)" "fst ?a = fst (sl_append (grow H) ?S (?w line2) ?h)"
      using sl_append_shared [OF True] by simp_all
    with sl_append_read [OF assms(1)] ent t True show ?thesis by (simp add: sh_def)
  next
    case False
    have na: "sarr (fst ?a) = length ?h" using False by (simp add: sl_append_def sl_new_def)
    have "sl_cap ?h ?S = slen ?S" using False assms(1) by (simp add: sl_ok_def)
    then have "sarr ?S < length ?h" using assms(2) by (auto simp: sl_cap_def array_of_def split: if_splits)
    moreover have "sl_ok (snd ?a) (fst ?a)" by (rule sl_append_ok [OF assms(1)])
    ultimately have "sl_read (snd ?b) (fst ?a) = sl_read (snd ?a) (fst ?a)"
      using na sl_append_frame [of "snd ?a" "fst ?a" ?S] by simp
    with sl_append_read [OF assms(1)] ent t False show ?thesis by (simp add: sh_def)
  qed
qed

definition shell_state :: cstate where
  "shell_state = demo_state\<lparr>cfg := empty_config\<lparr>Shell := \<lparr>sarr = 0, slen = 3\<rparr>\<rparr>,
     arrs := [[''/bin/bash'', ''-e'', ''-c'', []], [''echo one''], [''echo two'']]\<rparr>"

theorem CMD_then_ENTRYPOINT_witness:
  "let t = snd (sthen (exec_Cmd plain_host \<lparr>sarr = 1, slen = 1\<rparr> True) (exec_Entrypoint plain_host \<lparr>sarr = 2, slen = 1\<rparr> True) shell_state)
   in sl_read (arrs t) (Cmd (cfg t)) = [''/bin/bash'', ''-e'', ''-c'', ''echo two'']"
proof -
  have pre: "sl_ok (arrs shell_state) (Shell (cfg shell_state))" "0 < slen (Shell (cfg shell_state))"
    "own_array shell_state \<lparr>sarr = 1, slen = 1\<rparr>" "own_array shell_state \<lparr>sarr = 2, slen = 1\<rparr>"
    "sl_read (arrs shell_state) (Shell (cfg shell_state)) = [''/bin/bash'', ''-e'', ''-c'']"
    "slen (Shell (cfg shell_state)) < sl_cap (arrs shell_state) (Shell (cfg shell_state))"
    "join '' '' (sl_read (arrs shell_state) \<lparr>sarr = 2, slen = 1\<rparr>) = ''echo two''"
    by code_simp+
  show ?thesis unfolding Let_def using CMD_then_ENTRYPOINT [OF pre(1-4), of plain_host] pre(5-7) by simp
qed

subsection \<open>The destination of a copy through symbolic links\<close>

definition absent :: "filesys \<Rightarrow> string list \<Rightarrow> bool" where
  "absent fs cs \<longleftrightarrow> (case os_Lstat fs (abs_path cs) of Inl e \<Rightarrow> is_not_exist e | Inr _ \<Rightarrow> False)"

text \<open>What the loop computes from the first \<open>k\<close> components, all longer prefixes being absent.\<close>

definition anchored :: "filesys \<Rightarrow> string list \<Rightarrow> nat \<Rightarrow> (string \<times> string list) res" where
  "anchored fs cs k =
     (if k = 0 then Inr (''/'', rev cs)
      else case os_Lstat fs (abs_path (take k cs)) of
        Inl e \<Rightarrow> Inl (Wrap ''failed to lstat'' e)
      | Inr _ \<Rightarrow> rbind (wrap ''failed to eval symlinks'' (EvalSymlinks fs (abs_path (take k cs)))) (\<lambda>p. Inr (p, rev (drop k cs))))"

definition longest :: "filesys \<Rightarrow> string list \<Rightarrow> nat \<Rightarrow> bool" where
  "longest fs cs k \<longleftrightarrow> k \<le> length cs \<and> (k \<noteq> 0 \<longrightarrow> \<not> absent fs (take k cs)) \<and>
     (\<forall>j. k < j \<longrightarrow> j \<le> length cs \<longrightarrow> absent fs (take j cs))"

lemma climb_longest:
  assumes "comps_ok cs" and "length cs < n"
  shows "\<exists>k. longest fs cs k \<and> climb n fs (abs_path cs) ms = rbind (anchored fs cs k) (\<lambda>(p, xs). Inr (p, ms @ xs))"
  using assms
proof (induction cs arbitrary: n ms rule: rev_induct)
  case Nil
  then show ?case by (cases n) (auto simp: longest_def anchored_def intro!: exI [of _ 0])
next
  case (snoc c cs)
  obtain m where n: "n = Suc m" using snoc.prems(2) by (cases n) auto
  show ?case
  proof (cases "absent fs (cs @ [c])")
    case False
    then have "longest fs (cs @ [c]) (length (cs @ [c]))" by (simp add: longest_def)
    moreover have "climb n fs (abs_path (cs @ [c])) ms =
        rbind (anchored fs (cs @ [c]) (length (cs @ [c]))) (\<lambda>(p, xs). Inr (p, ms @ xs))"
      using False snoc.prems(1)
      by (auto simp: n anchored_def absent_def rbind_def wrap_def split: sum.splits)
    ultimately show ?thesis by blast
  next
    case True
    have "climb n fs (abs_path (cs @ [c])) ms = climb m fs (abs_path cs) (ms @ [c])"
      using True snoc.prems(1)
      by (auto simp: n absent_def split_path_abs_path clean_trailing_sep split: sum.splits)
    moreover obtain k where k: "longest fs cs k"
      "climb m fs (abs_path cs) (ms @ [c]) = rbind (anchored fs cs k) (\<lambda>(p, xs). Inr (p, (ms @ [c]) @ xs))"
      using snoc.IH [of m "ms @ [c]"] snoc.prems n by auto
    moreover have "rbind (anchored fs cs k) (\<lambda>(p, xs). Inr (p, (ms @ [c]) @ xs)) =
        rbind (anchored fs (cs @ [c]) k) (\<lambda>(p, xs). Inr (p, ms @ xs))"
      using k(1) by (auto simp: anchored_def longest_def rbind_def wrap_def split: sum.splits)
    moreover have "longest fs (cs @ [c]) k"
      using k(1) True by (auto simp: longest_def le_Suc_eq)
    ultimately show ?thesis by metis
  qed
qed

lemma fold_join_path: "comps_ok (cs @ ds) \<Longrightarrow> fold (\<lambda>c p. join_path [p, c]) ds (abs_path cs) = abs_path (cs @ ds)"
proof (induction ds arbitrary: cs)
  case (Cons d ds)
  have "join_path [abs_path cs, d] = abs_path (cs @ [d])" by (rule join_path_comp) (use Cons.prems in simp)
  with Cons.IH [of "cs @ [d]"] Cons.prems show ?case by simp
qed simp

text \<open>With the build root \<open>/\<close>, the loop of \<open>resolveIfSymlink\<close> ends for every absolute path. It finds the longest
  prefix of the path that exists, evaluates the links of that prefix only, and appends the components that do
  not exist yet; a path with no existing component is returned as it is. The only errors are those of looking at
  or evaluating that prefix.\<close>

theorem resolveIfSymlink_longest:
  assumes "clean (RootDir (conf w)) = ''/''" and "comps_ok cs"
  shows "\<exists>k. longest (files w) cs k \<and> resolveIfSymlink w (abs_path cs) =
    (if k = 0 then Inr (abs_path cs)
     else case os_Lstat (files w) (abs_path (take k cs)) of
       Inl e \<Rightarrow> Inl (Wrap ''failed to lstat'' e)
     | Inr _ \<Rightarrow> rbind (wrap ''failed to eval symlinks'' (EvalSymlinks (files w) (abs_path (take k cs)))) (\<lambda>p.
         Inr (clean (fold (\<lambda>c p. join_path [p, c]) (drop k cs) p))))"
proof -
  have "length cs < Suc (length (abs_path cs))" using length_abs_path [OF assms(2)] by simp
  from climb_longest [OF assms(2) this, of "files w" "[]"] obtain k where k: "longest (files w) cs k"
    "climb (Suc (length (abs_path cs))) (files w) (abs_path cs) [] = rbind (anchored (files w) cs k) (\<lambda>(p, xs). Inr (p, [] @ xs))"
    by blast
  have "resolveIfSymlink w (abs_path cs) = rbind (anchored (files w) cs k) (\<lambda>(p, xs). Inr (clean (fold (\<lambda>c p. join_path [p, c]) (rev xs) p)))"
    unfolding resolveIfSymlink_def using assms k(2) by (auto simp: rbind_def split: sum.splits simp del: climb.simps)
  moreover have "clean (fold (\<lambda>c p. join_path [p, c]) cs ''/'') = abs_path cs"
    using fold_join_path [of "[]" cs] assms(2) by simp
  ultimately show ?thesis using k(1)
    by (intro exI [of _ k]) (auto simp: anchored_def rbind_def wrap_def split: sum.splits)
qed

theorem resolveIfSymlink_longest_witness:
  "resolveIfSymlink (demo_world ''/'') (abs_path [''nowhere'', ''x'']) = Inr ''/nowhere/x''"
proof -
  have pre: "clean (RootDir (conf (demo_world ''/''))) = ''/''" "comps_ok [''nowhere'', ''x'']" by code_simp+
  have gone: "absent (files (demo_world ''/'')) (take 1 [''nowhere'', ''x''])" "absent (files (demo_world ''/'')) (take 2 [''nowhere'', ''x''])"
    by code_simp+
  have k0: "k = 0" if "longest (files (demo_world ''/'')) [''nowhere'', ''x''] k" for k
  proof -
    from that have "k = 0 \<or> k = 1 \<or> k = 2" by (auto simp: longest_def)
    with that gone show ?thesis by (auto simp: longest_def)
  qed
  have "abs_path [''nowhere'', ''x''] = ''/nowhere/x''" by code_simp
  with resolveIfSymlink_longest [OF pre] k0 show ?thesis by auto
qed

subsection \<open>Labels and ports\<close>

lemma updateLabels_Inr:
  "updateLabels H ls s = (Inr ls', t) \<longleftrightarrow> rmap (expand_pair (lib H) (envs s)) ls = Inr ls' \<and>
     t = s\<lparr>cfg := (cfg s)\<lparr>Labels := Some (fold (\<lambda>(k, v) m. gm_set m k v) ls' (map_or_new (Labels (cfg s))))\<rparr>\<rparr>"
  by (auto simp: updateLabels_def act_Inr set_cfg_def smodify_def)

text \<open>\<open>LABEL\<close> expands its pairs in the environment of the stage and writes the expanded pairs back into the
  instruction, so running the same command again, as a build with the cache does, expands the result
  of the first expansion once more: what ends up in the image are the doubly expanded pairs.\<close>

theorem LABEL_expanded_twice:
  assumes "ExecuteCommand H (LabelCommand k) s = (Inr c, s1)" and "ExecuteCommand H c s1 = (Inr c', s2)"
  shows "\<exists>once twice. rmap (expand_pair (lib H) (envs s)) (LabelPairs (cmd_inst k)) = Inr once \<and>
    rmap (expand_pair (lib H) (envs s)) once = Inr twice \<and>
    Labels (cfg s2) = Some (fold (\<lambda>(k, v) m. gm_set m k v) twice
      (fold (\<lambda>(k, v) m. gm_set m k v) once (map_or_new (Labels (cfg s)))))"
proof -
  from assms(1) obtain once where c: "c = LabelCommand (k\<lparr>cmd_inst := LabelInst once\<rparr>)"
    and one: "updateLabels H (LabelPairs (cmd_inst k)) s = (Inr once, s1)"
    by (auto simp: ExecuteCommand_def act_Inr)
  from assms(2) c obtain twice where two: "updateLabels H once s1 = (Inr twice, s2)"
    by (auto simp: ExecuteCommand_def act_Inr)
  have "envs s1 = envs s" using one by (auto simp: updateLabels_Inr envs_def env_of_def)
  with one two show ?thesis by (auto simp: updateLabels_Inr map_or_new_def)
qed

text \<open>A lexer that removes one level of backslashes, enough to tell the two expansions apart.\<close>

definition unescape_libs :: libs where
  "unescape_libs = plain_libs\<lparr>lex_word := (\<lambda>w es. Inr (case w of c # cs \<Rightarrow> (if c = CHR 92 then cs else ''value'') | [] \<Rightarrow> []))\<rparr>"

theorem LABEL_expanded_twice_witness:
  "let H = plain_host\<lparr>lib := unescape_libs\<rparr>;
       c = LabelCommand (inst [] (LabelInst [(CHR 92 # ''k'', CHR 92 # ''$HOME'')]));
       r1 = ExecuteCommand H c demo_state; r2 = ExecuteCommand H (projr (fst r1)) (snd r1)
   in Labels (cfg (snd r1)) = Some [(''k'', ''$HOME'')] \<and> Labels (cfg (snd r2)) = Some [(''k'', ''$HOME''), (''value'', ''value'')]"
proof -
  define H where "H = plain_host\<lparr>lib := unescape_libs\<rparr>"
  define k where "k = inst [] (LabelInst [(CHR 92 # ''k'', CHR 92 # ''$HOME'')])"
  obtain c s1 where one: "ExecuteCommand H (LabelCommand k) demo_state = (Inr c, s1)"
    and l1: "Labels (cfg s1) = Some [(''k'', ''$HOME'')]"
  proof -
    have "case ExecuteCommand H (LabelCommand k) demo_state of (Inl _, _) \<Rightarrow> False
        | (Inr _, t) \<Rightarrow> Labels (cfg t) = Some [(''k'', ''$HOME'')]" unfolding H_def k_def by code_simp
    then show thesis by (auto split: prod.splits sum.splits intro: that)
  qed
  have "fst (ExecuteCommand H c s1) \<noteq> Inl e" for e
  proof -
    have "case ExecuteCommand H (LabelCommand k) demo_state of (Inl _, _) \<Rightarrow> False
        | (Inr c, t) \<Rightarrow> is_ok (fst (ExecuteCommand H c t))" unfolding H_def k_def by code_simp
    with one show ?thesis by auto
  qed
  then obtain c' s2 where two: "ExecuteCommand H c s1 = (Inr c', s2)" by (cases "ExecuteCommand H c s1"; cases "fst (ExecuteCommand H c s1)") auto
  have once: "rmap (expand_pair (lib H) (envs demo_state)) (LabelPairs (cmd_inst k)) = Inr [(''k'', ''$HOME'')]"
    and twice: "rmap (expand_pair (lib H) (envs demo_state)) [(''k'', ''$HOME'')] = Inr [(''value'', ''value'')]"
    and none: "Labels (cfg demo_state) = None"
    unfolding H_def k_def by code_simp+
  have "Labels (cfg s2) = Some [(''k'', ''$HOME''), (''value'', ''value'')]"
    using LABEL_expanded_twice [OF one two] once twice none by (auto simp: map_or_new_def gm_set_def)
  with one two l1 show ?thesis unfolding Let_def H_def [symmetric] k_def [symmetric] by simp
qed

lemma gm_has_fold_set: "gm_has (fold (\<lambda>p m. gm_set m p ()) ps m) q \<longleftrightarrow> gm_has m q \<or> q \<in> set ps"
  by (induction ps arbitrary: m) auto

lemma expose_port_Inr:
  assumes "expose_port H p s = (Inr q, t)"
  shows "t = s \<and> contains q ''/'' \<and> validProtocol (split_on CHR ''/'' q ! 1)"
proof -
  have "contains (r @ ''/tcp'') ''/''" for r :: string by (induction r) (auto simp: has_prefix_def)
  with assms show ?thesis by (auto simp: expose_port_def resolve_env_def act_Inr Let_def split: if_splits)
qed

text \<open>\<open>EXPOSE\<close> adds to the exposed ports and never removes one; every port it adds has a protocol after the
  slash, and that protocol is \<open>tcp\<close> or \<open>udp\<close> (any other is an error).\<close>

theorem EXPOSE_adds_valid_ports:
  assumes "exec_Expose H ports s = (Inr u, t)"
  shows "(\<forall>p. gm_has (map_or_new (ExposedPorts (cfg s))) p \<longrightarrow> gm_has (map_or_new (ExposedPorts (cfg t))) p) \<and>
    (\<forall>p. gm_has (map_or_new (ExposedPorts (cfg t))) p \<longrightarrow> gm_has (map_or_new (ExposedPorts (cfg s))) p \<or>
       contains p ''/'' \<and> split_on CHR ''/'' p ! 1 \<in> {''tcp'', ''udp''})"
proof -
  have ports: "smap (expose_port H) ps s = (Inr qs, t) \<Longrightarrow>
      t = s \<and> (\<forall>q \<in> set qs. contains q ''/'' \<and> validProtocol (split_on CHR ''/'' q ! 1))" for ps qs s t
    by (induction ps arbitrary: s qs) (auto simp: act_Inr dest!: expose_port_Inr)
  from assms obtain qs s1 where qs: "smap (expose_port H) ports s = (Inr qs, s1)"
    and t: "t = s1\<lparr>cfg := (cfg s1)\<lparr>ExposedPorts := Some (fold (\<lambda>p m. gm_set m p ()) qs (map_or_new (ExposedPorts (cfg s1))))\<rparr>\<rparr>"
    by (auto simp: exec_Expose_def act_Inr set_cfg_def smodify_def)
  show ?thesis using ports [OF qs] t
    by (auto simp: gm_has_fold_set map_or_new_def validProtocol_def)
qed

theorem EXPOSE_adds_valid_ports_witness:
  "let t = snd (exec_Expose plain_host [''80'', ''53/udp''] demo_state)
   in ExposedPorts (cfg t) = Some [(''80/tcp'', ()), (''53/udp'', ())] \<and>
     (\<forall>p. gm_has (map_or_new (ExposedPorts (cfg t))) p \<longrightarrow> contains p ''/'' \<and> split_on CHR ''/'' p ! 1 \<in> {''tcp'', ''udp''})"
proof -
  let ?t = "snd (exec_Expose plain_host [''80'', ''53/udp''] demo_state)"
  have "is_ok (fst (exec_Expose plain_host [''80'', ''53/udp''] demo_state))" by code_simp
  then obtain u where "exec_Expose plain_host [''80'', ''53/udp''] demo_state = (Inr u, ?t)"
    by (metis is_ok_iff prod.collapse)
  from EXPOSE_adds_valid_ports [OF this] have "gm_has (map_or_new (ExposedPorts (cfg ?t))) p \<Longrightarrow>
      gm_has (map_or_new (ExposedPorts (cfg demo_state))) p \<or> contains p ''/'' \<and> split_on CHR ''/'' p ! 1 \<in> {''tcp'', ''udp''}" for p
    by blast
  moreover have "map_or_new (ExposedPorts (cfg demo_state)) = []" by code_simp
  moreover have "ExposedPorts (cfg ?t) = Some [(''80/tcp'', ()), (''53/udp'', ())]" by code_simp
  ultimately show ?thesis unfolding Let_def by (auto simp: gm_has_def gm_get_def)
qed

end
