(* ===== verification/Composite_Cache.thy ===== *)
theory Composite_Cache
  imports Commands
begin

text \<open>
  \<open>pkg/executor/composite_cache.go\<close>: the key of the layer cache as a sequence of strings. SHA-256 and MD5 are
  arguments, functions from the bytes to the hexadecimal digest.
\<close>

subsection \<open>Keys\<close>

type_synonym CompositeCache = "string list"

definition NewCompositeCache :: "string list \<Rightarrow> CompositeCache" where
  "NewCompositeCache initial = initial"

definition AddKey :: "string list \<Rightarrow> CompositeCache \<Rightarrow> CompositeCache" where
  "AddKey k keys = keys @ k"

definition cc_Key :: "CompositeCache \<Rightarrow> string" where
  "cc_Key keys = join ''-'' keys"

definition cc_Hash :: "(string \<Rightarrow> string) \<Rightarrow> CompositeCache \<Rightarrow> string" where
  "cc_Hash sha256 keys = sha256 (cc_Key keys)"

text \<open>The callback of the walk in \<open>hashDir\<close>: what has been written to the hash, and whether nothing has.\<close>

definition hash_step :: "(string \<Rightarrow> string) \<Rightarrow> filesys \<Rightarrow> FileContext \<Rightarrow> string \<Rightarrow> string \<times> bool \<Rightarrow> (string \<times> bool) res" where
  "hash_step md5 fs context path acc =
     (if ExcludesFile context path then Inr acc
      else rbind (CacheHasher md5 fs path) (\<lambda>fileHash. Inr (fst acc @ fileHash, False)))"

definition hashDir :: "(string \<Rightarrow> string) \<Rightarrow> (string \<Rightarrow> string) \<Rightarrow> filesys \<Rightarrow> string \<Rightarrow> FileContext \<Rightarrow> (bool \<times> string) res" where
  "hashDir sha256 md5 fs p context =
     rbind (list_children (Suc (depth fs)) fs p) (\<lambda>paths.
     rbind (rfold (hash_step md5 fs context) paths ([], True)) (\<lambda>(bytes, empty). Inr (empty, sha256 bytes)))"

definition AddPath :: "(string \<Rightarrow> string) \<Rightarrow> (string \<Rightarrow> string) \<Rightarrow> filesys \<Rightarrow> string \<Rightarrow> FileContext \<Rightarrow> CompositeCache \<Rightarrow> CompositeCache res" where
  "AddPath sha256 md5 fs p context keys =
     rbind (wrap ''could not add path'' (os_Lstat fs p)) (\<lambda>fi.
       if is_dir fi then
         rbind (hashDir sha256 md5 fs p context) (\<lambda>(empty, k).
           Inr (if \<not> empty \<or> \<not> ExcludesFile context p then keys @ [k] else keys))
       else if ExcludesFile context p then Inr keys
       else rbind (CacheHasher md5 fs p) (\<lambda>fh. Inr (keys @ [sha256 fh])))"

subsection \<open>What a key depends on\<close>

text \<open>Two walks that meet the same hashes in the same order, whatever the paths are called.\<close>

definition same_hashes :: "(string \<Rightarrow> string) \<Rightarrow> FileContext \<Rightarrow> filesys \<Rightarrow> filesys \<Rightarrow> string list \<Rightarrow> string list \<Rightarrow> bool" where
  "same_hashes md5 context fs fs' = list_all2 (\<lambda>a b.
     ExcludesFile context a = ExcludesFile context b \<and> CacheHasher md5 fs a = CacheHasher md5 fs' b)"

lemma rfold_same_hashes:
  "same_hashes md5 context fs fs' ps qs \<Longrightarrow>
     rfold (hash_step md5 fs context) ps acc = rfold (hash_step md5 fs' context) qs acc"
  unfolding same_hashes_def
proof (induction arbitrary: acc rule: list_all2_induct)
  case (Cons x xs y ys)
  then have "hash_step md5 fs context x acc = hash_step md5 fs' context y acc" for acc
    by (simp add: hash_step_def)
  moreover have "rfold (hash_step md5 fs context) xs = rfold (hash_step md5 fs' context) ys"
    by (rule ext) (rule Cons.IH)
  ultimately show ?case by simp
qed simp

text \<open>C34. The key that a directory of the build context adds depends on the hashes of the files below it, in the order
  of the walk, and on which of them are excluded, but not on their names: two directories whose walks meet the
  same modes, owners and contents in the same order give the same key, even when a file has been renamed.\<close>

theorem cache_key_ignores_names:
  assumes "list_children (Suc (depth fs)) fs p = Inr ps" and "list_children (Suc (depth fs')) fs' p = Inr qs"
    and "same_hashes md5 context fs fs' ps qs"
    and "os_Lstat fs p = Inr fi" and "os_Lstat fs' p = Inr fi'" and "is_dir fi" and "is_dir fi'"
  shows "AddPath sha256 md5 fs p context keys = AddPath sha256 md5 fs' p context keys"
  using assms by (simp add: AddPath_def hashDir_def rfold_same_hashes [OF assms(3)] del: list_children.simps)

definition one_file :: "string \<Rightarrow> filesys" where
  "one_file n = snd (os_WriteFile (''/ctx/'' @ n) ''data'' 420 (snd (os_Mkdir ''/ctx'' 493 demo_fs)))"

definition all_context :: FileContext where
  "all_context = \<lparr>Root = ''/ctx'', ExcludedFiles = [], Matches = (\<lambda>_ _. Inr False)\<rparr>"

theorem cache_key_ignores_names_witness:
  "os_ReadFile (one_file ''a.txt'') ''/ctx/a.txt'' = Inr ''data'' \<and> os_ReadFile (one_file ''b.txt'') ''/ctx/a.txt'' = Inl (Sys ENOENT) \<and>
   (\<forall>sha256 keys. AddPath sha256 (\<lambda>s. s) (one_file ''a.txt'') ''/ctx'' all_context keys =
     AddPath sha256 (\<lambda>s. s) (one_file ''b.txt'') ''/ctx'' all_context keys)"
proof -
  let ?a = "one_file ''a.txt''" let ?b = "one_file ''b.txt''"
  have l: "list_children (Suc (depth ?a)) ?a ''/ctx'' = Inr [''/ctx'', ''/ctx/a.txt'']"
    "list_children (Suc (depth ?b)) ?b ''/ctx'' = Inr [''/ctx'', ''/ctx/b.txt'']" by code_simp+
  have h: "same_hashes (\<lambda>s. s) all_context ?a ?b [''/ctx'', ''/ctx/a.txt''] [''/ctx'', ''/ctx/b.txt'']" by code_simp
  have d: "case os_Lstat ?a ''/ctx'' of Inl _ \<Rightarrow> False | Inr i \<Rightarrow> is_dir i"
    "case os_Lstat ?b ''/ctx'' of Inl _ \<Rightarrow> False | Inr i \<Rightarrow> is_dir i" by code_simp+
  obtain i j where ij: "os_Lstat ?a ''/ctx'' = Inr i" "os_Lstat ?b ''/ctx'' = Inr j" "is_dir i" "is_dir j"
    using d by (auto split: sum.splits)
  have "os_ReadFile ?a ''/ctx/a.txt'' = Inr ''data''" "os_ReadFile ?b ''/ctx/a.txt'' = Inl (Sys ENOENT)" by code_simp+
  with cache_key_ignores_names [OF l h ij] show ?thesis by simp
qed

end
