(* ===== verification/Path_Trie.thy ===== *)
theory Path_Trie
  imports Go_Filepath
begin

text \<open>
  \<open>deduplicatePaths\<close> of \<open>pkg/executor/build.go\<close>: a tree of path components that marks the given paths, and a
  traversal that stops at the first mark on every branch. The theorem says which paths are left: the ones
  with no other given path above them, each once.
\<close>

subsection \<open>The tree\<close>

datatype node = Node (node_children: "(string, node) gomap") (node_value: bool)

definition new_node :: node where
  "new_node = Node [] False"

text \<open>The loop over the components of a path. It always sets a new, marked node for the last one, dropping
  what was below.\<close>

fun ins :: "string list \<Rightarrow> node \<Rightarrow> node" where
  "ins [] n = n"
| "ins [p] (Node cs v) = Node (gm_set cs p (Node [] True)) v"
| "ins (p # q # ps) (Node cs v) =
     Node (gm_set cs p (ins (q # ps) (case gm_get cs p of None \<Rightarrow> new_node | Some m \<Rightarrow> m))) v"

fun trav :: "string \<Rightarrow> node \<Rightarrow> string list" where
  "trav path (Node cs v) =
     (if v then [trim_prefix path ''/''] else concat (map (\<lambda>(k, m). trav (path @ ''/'' @ k) m) cs))"

definition deduplicatePaths :: "string list \<Rightarrow> string list" where
  "deduplicatePaths paths = trav [] (fold (\<lambda>f. ins (split_on CHR ''/'' f)) paths new_node)"

subsection \<open>The marks that the traversal meets\<close>

fun tops :: "node \<Rightarrow> string list list" where
  "tops (Node cs v) = (if v then [[]] else concat (map (\<lambda>(k, m). map ((#) k) (tops m)) cs))"

fun node_wf :: "node \<Rightarrow> bool" where
  "node_wf (Node cs v) \<longleftrightarrow> gm_wf cs \<and> list_all (\<lambda>(k, m). node_wf m) cs"

lemma new_node_simps [simp]: "tops new_node = []" "node_wf new_node"
  by (simp_all add: new_node_def)

lemma trav_tops: "trav path n = map (\<lambda>ks. trim_prefix (path @ concat (map ((#) CHR ''/'') ks)) ''/'') (tops n)"
proof (induction path n rule: trav.induct)
  case (1 path cs v)
  show ?case
  proof (cases v)
    case False
    have "trav (path @ ''/'' @ k) m = map (\<lambda>ks. trim_prefix (path @ concat (map ((#) CHR ''/'') (k # ks))) ''/'') (tops m)"
      if "(k, m) \<in> set cs" for k m
      using 1 [OF False that] by simp
    then have "map (\<lambda>(k, m). trav (path @ ''/'' @ k) m) cs =
        map (\<lambda>(k, m). map (\<lambda>ks. trim_prefix (path @ concat (map ((#) CHR ''/'') ks)) ''/'') (map ((#) k) (tops m))) cs"
      by (auto simp: comp_def)
    then show ?thesis using False by (simp only: trav.simps tops.simps if_False map_concat map_map)
        (simp add: comp_def case_prod_unfold)
  qed simp
qed

text \<open>The child at a component, which for a missing one is a node without marks\<close>

definition sub :: "node \<Rightarrow> string \<Rightarrow> node" where
  "sub n k = (case gm_get (node_children n) k of None \<Rightarrow> new_node | Some m \<Rightarrow> m)"

lemma gm_set_elements:
  "gm_wf m \<Longrightarrow> set (gm_set m k v) = insert (k, v) {(j, x). (j, x) \<in> set m \<and> j \<noteq> k}"
proof (induction m)
  case (Cons a m)
  then show ?case by (cases a) (force simp: gm_set_def gm_wf_def)
qed (simp add: gm_set_def)

lemma gm_get_iff: "gm_wf m \<Longrightarrow> gm_get m k = Some v \<longleftrightarrow> (k, v) \<in> set m"
  by (simp add: gm_get_def gm_wf_def)

lemma node_wf_sub: "node_wf n \<Longrightarrow> node_wf (sub n k)"
  by (cases n) (auto simp: sub_def gm_get_iff list_all_iff split: option.splits)

lemma tops_Cons: "k # ks \<in> set (tops (Node cs v)) \<longleftrightarrow> \<not> v \<and> (\<exists>m. (k, m) \<in> set cs \<and> ks \<in> set (tops m))"
  by (auto simp: image_iff)

lemma tops_sub: "node_wf n \<Longrightarrow> k # ks \<in> set (tops n) \<longleftrightarrow> \<not> node_value n \<and> ks \<in> set (tops (sub n k))"
proof (cases n)
  case (Node cs v)
  assume "node_wf n"
  then have "(k, m) \<in> set cs \<longleftrightarrow> gm_get cs k = Some m" for m using Node by (simp add: gm_get_iff)
  then show ?thesis unfolding Node tops_Cons by (cases "gm_get cs k") (simp_all add: sub_def)
qed

lemma tops_Nil: "[] \<in> set (tops n) \<longleftrightarrow> node_value n"
  by (cases n) auto

lemma ins_sub:
  "node_value (ins ks n) = node_value n \<or> ks = []"
  "sub (ins (p # ps) n) k = (if k = p then (if ps = [] then Node [] True else ins ps (sub n p)) else sub n k)"
proof -
  show "node_value (ins ks n) = node_value n \<or> ks = []" by (cases "(ks, n)" rule: ins.cases) auto
  show "sub (ins (p # ps) n) k = (if k = p then (if ps = [] then Node [] True else ins ps (sub n p)) else sub n k)"
    by (cases n; cases ps) (auto simp: sub_def)
qed

lemma node_wf_ins: "node_wf n \<Longrightarrow> node_wf (ins ks n)"
proof (induction ks n rule: ins.induct)
  case (3 p q ps cs v)
  have "node_wf (ins (q # ps) (case gm_get cs p of None \<Rightarrow> new_node | Some m \<Rightarrow> m))"
    using 3 node_wf_sub [of "Node cs v" p] by (simp add: sub_def)
  then show ?case using "3.prems" by (auto simp: gm_set_elements list_all_iff)
qed (auto simp: gm_set_elements list_all_iff)

lemma tops_distinct: "node_wf n \<Longrightarrow> distinct (tops n)"
proof (induction n rule: tops.induct)
  case (1 cs v)
  then show ?case
  proof (cases v)
    case False
    let ?f = "\<lambda>(k, m). map ((#) k) (tops m)"
    have "distinct (concat (map ?f xs))" if "set xs \<subseteq> set cs" "gm_wf xs" for xs
      using that
    proof (induction xs)
      case (Cons x xs)
      obtain k m where [simp]: "x = (k, m)" by fastforce
      have "distinct (tops m)" using 1 False Cons.prems(1) by (auto simp: list_all_iff)
      moreover have "set (?f x) \<inter> set (concat (map ?f xs)) = {}"
        using Cons.prems(2) by (force simp: gm_wf_def)
      ultimately show ?case using Cons by (simp add: gm_wf_def distinct_map)
    qed simp
    with 1 False show ?thesis by simp
  qed simp
qed

subsection \<open>What is left are the least paths\<close>

definition least_paths :: "'a list set \<Rightarrow> 'a list set" where
  "least_paths A = {p \<in> A. \<forall>q \<in> A. \<not> strict_prefix q p}"

lemma least_below: "p \<in> A \<Longrightarrow> \<exists>q \<in> least_paths A. Sublist.prefix q p"
proof (induction "length p" arbitrary: p rule: less_induct)
  case less
  show ?case
  proof (cases "p \<in> least_paths A")
    case False
    with less.prems obtain q where q: "q \<in> A" "strict_prefix q p" by (auto simp: least_paths_def)
    with less.hyps [of q] obtain r where "r \<in> least_paths A" "Sublist.prefix r q"
      using prefix_length_less [OF q(2)] by blast
    with q(2) show ?thesis using prefix_order.order_trans prefix_order.less_imp_le by blast
  qed auto
qed

lemma least_insert: "least_paths (insert k (least_paths A)) = least_paths (insert k A)" (is "?L = ?R")
proof (intro equalityI subsetI)
  fix p assume p: "p \<in> ?L"
  then have "p \<in> insert k A" by (auto simp: least_paths_def)
  moreover have "\<not> strict_prefix q p" if "q \<in> insert k A" for q
  proof
    assume "strict_prefix q p"
    have "\<exists>r \<in> insert k (least_paths A). Sublist.prefix r q"
    proof (cases "q = k")
      case False
      with that show ?thesis using least_below [of q A] by auto
    qed simp
    then obtain r where "r \<in> insert k (least_paths A)" "Sublist.prefix r q" ..
    moreover have "strict_prefix r p"
      using \<open>Sublist.prefix r q\<close> \<open>strict_prefix q p\<close> by (rule prefix_order.le_less_trans)
    ultimately show False using p by (auto simp: least_paths_def)
  qed
  ultimately show "p \<in> ?R" by (simp add: least_paths_def)
qed (auto simp: least_paths_def)

lemma least_union: "finite B \<Longrightarrow> least_paths (B \<union> least_paths A) = least_paths (B \<union> A)"
proof (induction B rule: finite_induct)
  case (insert k B)
  have "least_paths (insert k B \<union> least_paths A) = least_paths (insert k (least_paths (B \<union> least_paths A)))"
    by (simp add: least_insert)
  then show ?case by (simp add: insert least_insert)
next
  case empty
  have "least_paths (least_paths A) = least_paths A" by (auto simp: least_paths_def)
  then show ?case by simp
qed

lemma strict_prefix_Cons: "strict_prefix (x # xs) (y # ys) \<longleftrightarrow> x = y \<and> strict_prefix xs ys"
  by (auto simp: strict_prefix_def)

lemma least_Nil: "[] \<in> A \<Longrightarrow> least_paths A = {[]}"
  by (auto simp: least_paths_def strict_prefix_def)

lemma least_Cons: "[] \<notin> A \<Longrightarrow> k # u \<in> least_paths A \<longleftrightarrow> u \<in> least_paths {u. k # u \<in> A}"
proof -
  assume "[] \<notin> A"
  then have "strict_prefix q (k # u) \<longleftrightarrow> (\<exists>v. q = k # v \<and> strict_prefix v u)" if "q \<in> A" for q
    using that by (cases q) (auto simp: strict_prefix_Cons)
  then show ?thesis by (auto simp: least_paths_def)
qed

lemma tops_least: "node_wf n \<Longrightarrow> least_paths (set (tops n)) = set (tops n)"
proof (induction n rule: tops.induct)
  case (1 cs v)
  let ?n = "Node cs v"
  show ?case
  proof (cases v)
    case False
    then have nil: "[] \<notin> set (tops ?n)" by (simp add: tops_Nil del: tops.simps)
    have IH: "least_paths (set (tops (sub ?n k))) = set (tops (sub ?n k))" for k
    proof (cases "gm_get cs k")
      case (Some m)
      then have "(k, m) \<in> set cs" "node_wf m" using "1.prems" by (auto simp: gm_get_iff list_all_iff)
      with 1 False Some show ?thesis by (simp add: sub_def)
    qed (simp add: sub_def least_paths_def)
    have "t \<in> least_paths (set (tops ?n)) \<longleftrightarrow> t \<in> set (tops ?n)" for t
    proof (cases t)
      case Nil
      then show ?thesis using nil by (auto simp: least_paths_def)
    next
      case (Cons k u)
      then show ?thesis using least_Cons [OF nil, of k u] IH [of k] tops_sub [OF "1.prems"] False by simp
    qed
    then show ?thesis by blast
  qed (simp add: least_Nil)
qed

lemma tops_ins: "node_wf n \<Longrightarrow> ks \<noteq> [] \<Longrightarrow> set (tops (ins ks n)) = least_paths (insert ks (set (tops n)))"
proof (induction ks arbitrary: n)
  case (Cons p ps)
  note wf = node_wf_ins [OF Cons.prems(1), of "p # ps"]
  show ?case
  proof (cases "node_value n")
    case True
    then have "set (tops (ins (p # ps) n)) = {[]}"
      using ins_sub(1) [of "p # ps" n] by (cases "ins (p # ps) n") simp
    then show ?thesis using True by (simp add: least_Nil tops_Nil)
  next
    case False
    have nil: "[] \<notin> insert (p # ps) (set (tops n))" using False by (simp add: tops_Nil)
    have v: "\<not> node_value (ins (p # ps) n)" using False ins_sub(1) [of "p # ps" n] by simp
    have "t \<in> set (tops (ins (p # ps) n)) \<longleftrightarrow> t \<in> least_paths (insert (p # ps) (set (tops n)))" for t
    proof (cases t)
      case Nil
      then show ?thesis using nil v by (auto simp: least_paths_def tops_Nil)
    next
      case (Cons k u)
      have *: "{u. k # u \<in> insert (p # ps) (set (tops n))} =
          (if k = p then insert ps (set (tops (sub n k))) else set (tops (sub n k)))"
        using tops_sub [OF Cons.prems(1)] False by auto
      have "u \<in> set (tops (sub (ins (p # ps) n) k)) \<longleftrightarrow> u \<in> least_paths {u. k # u \<in> insert (p # ps) (set (tops n))}"
        unfolding * using Cons.IH [OF node_wf_sub [OF Cons.prems(1)], of p] tops_least [OF node_wf_sub [OF Cons.prems(1)], of k]
        by (auto simp: ins_sub(2) least_Nil)
      then show ?thesis using Cons tops_sub [OF wf] v least_Cons [OF nil, of k u] by simp
    qed
    then show ?thesis by blast
  qed
qed simp

lemma trim_slashes: "ks \<noteq> [] \<Longrightarrow> trim_prefix (concat (map ((#) CHR ''/'') ks)) ''/'' = join ''/'' ks"
proof -
  have j: "join ''/'' (k # ks) = k @ concat (map ((#) CHR ''/'') ks)" for k ks
    by (induction ks arbitrary: k) simp_all
  have "concat (map ((#) CHR ''/'') (k # ks)) = ''/'' @ join ''/'' (k # ks)" for k ks by (simp add: j)
  then show "ks \<noteq> [] \<Longrightarrow> ?thesis" by (metis neq_Nil_conv trim_prefix_append)
qed

lemma tops_fold:
  "node_wf n \<Longrightarrow> [] \<notin> set pss \<Longrightarrow>
   node_wf (fold ins pss n) \<and> set (tops (fold ins pss n)) = least_paths (set pss \<union> set (tops n))"
proof (induction pss arbitrary: n)
  case (Cons ks pss)
  have "set (tops (fold ins (ks # pss) n)) = least_paths (set pss \<union> least_paths (insert ks (set (tops n))))"
    using Cons tops_ins [of n ks] by (auto simp: node_wf_ins)
  also have "\<dots> = least_paths (set (ks # pss) \<union> set (tops n))" using least_union [of "set pss"] by simp
  finally show ?case using Cons by (simp add: node_wf_ins)
qed (simp add: tops_least)

lemma deduplicatePaths_tops:
  "distinct (deduplicatePaths ps)"
  "set (deduplicatePaths ps) = join ''/'' ` least_paths (split_on CHR ''/'' ` set ps)"
proof -
  let ?s = "split_on CHR ''/''" and ?n = "fold ins (map (split_on CHR ''/'') ps) new_node"
  have "[] \<notin> set (map ?s ps)" by (metis ex_map_conv split_on_neq_Nil)
  then have t: "node_wf ?n" "set (tops ?n) = least_paths (?s ` set ps)"
    using tops_fold [of new_node "map ?s ps"] by auto
  have e: "\<exists>p. ks = ?s p" if "ks \<in> set (tops ?n)" for ks
    using that by (auto simp: t(2) least_paths_def)
  have "deduplicatePaths ps = map (\<lambda>ks. trim_prefix (concat (map ((#) CHR ''/'') ks)) ''/'') (tops ?n)"
    by (simp add: deduplicatePaths_def trav_tops fold_map comp_def)
  also have "\<dots> = map (join ''/'') (tops ?n)" using e by (force simp: trim_slashes)
  finally have n: "deduplicatePaths ps = map (join ''/'') (tops ?n)" .
  have "inj_on (join ''/'') (set (tops ?n))" using e by (intro inj_onI) (metis join_split_on)
  then show "distinct (deduplicatePaths ps)" unfolding n using t(1) by (simp add: distinct_map tops_distinct)
  show "set (deduplicatePaths ps) = join ''/'' ` least_paths (?s ` set ps)" by (simp add: n t(2))
qed

lemma deduplicatePaths_subset: "set (deduplicatePaths ps) \<subseteq> set ps"
  by (auto simp: deduplicatePaths_tops(2) least_paths_def)

lemma deduplicatePaths_above:
  "p \<in> set ps \<Longrightarrow> \<exists>q \<in> set (deduplicatePaths ps). Sublist.prefix (split_on CHR ''/'' q) (split_on CHR ''/'' p)"
proof -
  assume "p \<in> set ps"
  then obtain ks where ks: "ks \<in> least_paths (split_on CHR ''/'' ` set ps)" "Sublist.prefix ks (split_on CHR ''/'' p)"
    using least_below [of "split_on CHR ''/'' p" "split_on CHR ''/'' ` set ps"] by blast
  then have "split_on CHR ''/'' (join ''/'' ks) = ks" by (auto simp: least_paths_def)
  with ks show ?thesis by (intro bexI [of _ "join ''/'' ks"]) (auto simp: deduplicatePaths_tops(2))
qed

text \<open>C31. Of the paths given, \<open>deduplicatePaths\<close> keeps exactly those that are not below another one, component by component,
  each once, in whatever order and however often they are given.\<close>

theorem deduplicatePaths_least:
  "distinct (deduplicatePaths ps) \<and>
   set (deduplicatePaths ps) = {p \<in> set ps. \<forall>q \<in> set ps. \<not> strict_prefix (split_on CHR ''/'' q) (split_on CHR ''/'' p)}"
proof -
  let ?s = "split_on CHR ''/''"
  have "least_paths (?s ` set ps) = ?s ` {p \<in> set ps. \<forall>q \<in> set ps. \<not> strict_prefix (?s q) (?s p)}"
    by (auto simp: least_paths_def)
  then show ?thesis by (simp add: deduplicatePaths_tops image_image)
qed

theorem deduplicatePaths_least_witness:
  "distinct (deduplicatePaths [''usr/lib/ssl'', ''usr/lib'', ''etc'', ''usr/lib'', ''usr/libexec'']) \<and>
   deduplicatePaths [''usr/lib/ssl'', ''usr/lib'', ''etc'', ''usr/lib'', ''usr/libexec''] = [''usr/lib'', ''usr/libexec'', ''etc'']"
proof
  show "distinct (deduplicatePaths [''usr/lib/ssl'', ''usr/lib'', ''etc'', ''usr/lib'', ''usr/libexec''])"
    using deduplicatePaths_least by blast
qed code_simp

end
