(* ===== verification/Transport.thy ===== *)
theory Transport
  imports Kaniko_Options
begin

text \<open>
  \<open>pkg/util/transport_util.go\<close>: the TLS settings of the connection to a registry. The pool of certificate authorities is a
  variable of the package: a certificate that is loaded for one registry stays in it. The files of certificates and the
  parsers of the standard library's \<open>crypto\<close> packages are arguments, the record \<open>cert_files\<close>.
\<close>

record cert_files =
  system_pool :: "string list"
  read_pem :: "string \<Rightarrow> string res"
  pem_certs :: "string \<Rightarrow> string list"
  load_key_pair :: "string \<Rightarrow> string \<Rightarrow> string res"

text \<open>The fields of \<open>tls.Config\<close> that are set; without \<open>RootCAs\<close> the authorities of the system are trusted.\<close>

record tls_config =
  InsecureSkipVerify :: bool
  RootCAs :: "string list option"
  Certificates :: "string list"

definition default_tls :: tls_config where
  "default_tls = \<lparr>InsecureSkipVerify = False, RootCAs = None, Certificates = []\<rparr>"

subsection \<open>Operations\<close>

definition pool_append :: "cert_files \<Rightarrow> string \<Rightarrow> (string list, unit) act" where
  "pool_append F path =
     sbind (sreads (\<lambda>_. read_pem F path)) (\<lambda>pem. smodify (\<lambda>pool. pool @ pem_certs F pem))"

definition server_tls :: "cert_files \<Rightarrow> RegistryOptions \<Rightarrow> string \<Rightarrow> (string list, tls_config) act" where
  "server_tls F opts registryName =
     (let certificatePath = (case gm_get (RegistriesCertificates opts) registryName of None \<Rightarrow> [] | Some p \<Rightarrow> p)
      in if SkipTLSVerify opts \<or> registryName \<in> set (SkipTLSVerifyRegistries opts)
         then sret (default_tls\<lparr>InsecureSkipVerify := True\<rparr>)
         else if certificatePath \<noteq> []
         then sthen (swrap (''failed to load certificate '' @ certificatePath @ '' for '' @ registryName) (pool_append F certificatePath))
                    (sgets (\<lambda>pool. default_tls\<lparr>RootCAs := Some pool\<rparr>))
         else sret default_tls)"

definition client_tls :: "cert_files \<Rightarrow> RegistryOptions \<Rightarrow> string \<Rightarrow> tls_config \<Rightarrow> tls_config res" where
  "client_tls F opts registryName c =
     (case gm_get (RegistriesClientCertificates opts) registryName of
        None \<Rightarrow> Inr c
      | Some path \<Rightarrow>
          if path = [] then Inr c
          else (case split_on CHR '','' path of
              [cert, key] \<Rightarrow>
                rbind (wrap (''failed to load client certificate/key '' @ path @ '' for '' @ registryName) (load_key_pair F cert key)) (\<lambda>k.
                  Inr (c\<lparr>Certificates := [k]\<rparr>))
            | _ \<Rightarrow> Inl (Msg (''failed to load client certificate/key '' @ registryName @ ''='' @ path))))"

definition MakeTransport :: "cert_files \<Rightarrow> RegistryOptions \<Rightarrow> string \<Rightarrow> (string list, tls_config) act" where
  "MakeTransport F opts registryName =
     sbind (server_tls F opts registryName) (\<lambda>c. sreads (\<lambda>_. client_tls F opts registryName c))"

text \<open>Whether a transport can be made does not depend on the pool.\<close>

definition transport_ok :: "cert_files \<Rightarrow> RegistryOptions \<Rightarrow> string \<Rightarrow> unit res" where
  "transport_ok F opts registryName = rbind (fst (MakeTransport F opts registryName (system_pool F))) (\<lambda>_. Inr ())"

subsection \<open>Which registries are verified\<close>

lemmas transport_defs = MakeTransport_def server_tls_def client_tls_def pool_append_def default_tls_def Let_def rbind_def wrap_def
  sbind_def sthen_def sret_def swrap_def sreads_def sgets_def smodify_def

lemma MakeTransport_pool:
  "rbind (fst (MakeTransport F opts n pool)) (\<lambda>_. Inr ()) = transport_ok F opts n"
  by (auto simp: transport_ok_def transport_defs split: sum.splits option.splits list.splits)

lemma split_pair: "split_on c p = [a, b] \<Longrightarrow> p = a @ c # b"
  using join_split_on [of c p] by simp

text \<open>C38. A connection to a registry goes unverified exactly when the options switch verification off for it. Otherwise a
  certificate configured for the registry is among the trusted ones, and a configured client certificate is loaded from its two
  files and presented. Certificates that are trusted once stay in the pool.\<close>

theorem MakeTransport_verifies:
  assumes "MakeTransport F opts n pool = (Inr c, pool')"
  shows "(InsecureSkipVerify c \<longleftrightarrow> SkipTLSVerify opts \<or> n \<in> set (SkipTLSVerifyRegistries opts)) \<and>
    (\<forall>p. \<not> InsecureSkipVerify c \<and> gm_get (RegistriesCertificates opts) n = Some p \<and> p \<noteq> [] \<longrightarrow>
      (\<exists>pem. read_pem F p = Inr pem \<and> RootCAs c = Some (pool @ pem_certs F pem))) \<and>
    (\<forall>p. gm_get (RegistriesClientCertificates opts) n = Some p \<and> p \<noteq> [] \<longrightarrow>
      (\<exists>cert key k. p = cert @ '','' @ key \<and> load_key_pair F cert key = Inr k \<and> Certificates c = [k])) \<and>
    prefix pool pool'"
  using assms by (auto simp: transport_defs dest: split_pair split: sum.splits option.splits list.splits if_splits)

definition demo_certs :: cert_files where
  "demo_certs = \<lparr>system_pool = [], read_pem = (\<lambda>_. Inr ''pem''), pem_certs = (\<lambda>s. [s]), load_key_pair = (\<lambda>a b. Inr (a @ b))\<rparr>"

definition tls_options :: RegistryOptions where
  "tls_options = no_registry_options\<lparr>RegistriesCertificates := [(''r.io'', ''/ca.pem'')], RegistriesClientCertificates := [(''r.io'', ''/c,/k'')]\<rparr>"

theorem MakeTransport_verifies_witness:
  "\<exists>c pool. MakeTransport demo_certs tls_options ''r.io'' [] = (Inr c, pool) \<and>
     \<not> InsecureSkipVerify c \<and> RootCAs c = Some [''pem''] \<and> Certificates c = [''/c/k'']"
proof -
  let ?r = "MakeTransport demo_certs tls_options ''r.io'' []"
  have "is_ok (fst ?r)" by code_simp
  then obtain c pool where r: "?r = (Inr c, pool)" by (cases ?r) (auto simp: is_ok_def split: sum.splits)
  note main = MakeTransport_verifies [OF r]
  have o: "\<not> SkipTLSVerify tls_options" "SkipTLSVerifyRegistries tls_options = []"
    "gm_get (RegistriesCertificates tls_options) ''r.io'' = Some ''/ca.pem''" by code_simp+
  have skip: "\<not> InsecureSkipVerify c" using conjunct1 [OF main] o(1, 2) by simp
  with conjunct1 [OF conjunct2 [OF main]] o(3) have "RootCAs c = Some [''pem'']" by (simp add: demo_certs_def)
  moreover have "Certificates (projr (fst ?r)) = [''/c/k'']" by code_simp
  ultimately show ?thesis using r skip by simp
qed

text \<open>The pool is shared: after a certificate was loaded for one registry, a registry with a certificate of its own trusts both.\<close>

lemma RootCAs_pool:
  "MakeTransport F opts n pool = (Inr c, pool') \<Longrightarrow> RootCAs c = Some cas \<Longrightarrow> cas = pool' \<and> prefix pool pool'"
  by (auto simp: transport_defs split: sum.splits option.splits list.splits if_splits)

lemma certificates_leak:
  assumes "MakeTransport F opts n pool = (Inr c, pool1)" and "MakeTransport F opts m pool1 = (Inr d, pool2)"
    and "RootCAs c = Some cas" and "RootCAs d = Some das"
  shows "prefix cas das"
  using RootCAs_pool [OF assms(1, 3)] RootCAs_pool [OF assms(2, 4)] by simp

end
