(* ===== verification/Image_Source.thy ===== *)
theory Image_Source
  imports Commands Transport
begin

text \<open>
  Where the base image of a stage comes from: \<open>pkg/image/image_util.go\<close>, \<open>pkg/image/remote/remote.go\<close>,
  \<open>pkg/cache/cache.go\<close>, \<open>pkg/cache/errors.go\<close> and the retries of \<open>pkg/util/util.go\<close>. Registries, reference parsing,
  the tarball reader and the OCI layout reader are libraries, the fields of \<open>registry\<close>. The answer of a registry
  may change from one request to the next: it is a function of the requests made so far.
\<close>

subsection \<open>Images\<close>

record ConfigFile =
  Config :: v1_Config
  OS :: string
  Architecture :: string
  Created :: int
  History :: "string list"

record image =
  img_layers :: "layer list res"
  img_media :: "string res"
  img_config :: "ConfigFile res"
  img_manifest :: "unit res"
  known_digest :: "string option"

definition DockerLayer :: string where "DockerLayer = ''application/vnd.docker.image.rootfs.diff.tar.gzip''"
definition DockerManifestSchema2 :: string where "DockerManifestSchema2 = ''application/vnd.docker.distribution.manifest.v2+json''"

definition empty_Image :: image where
  "empty_Image = \<lparr>img_layers = Inr [], img_media = Inr DockerManifestSchema2,
     img_config = Inr \<lparr>Config = empty_config, OS = [], Architecture = [], Created = 0, History = []\<rparr>,
     img_manifest = Inr (), known_digest = None\<rparr>"

record reference =
  ref_registry :: string
  ref_repository :: string
  ref_ident :: string
  ref_is_digest :: bool
  ref_insecure :: bool

record registry =
  parse_reference :: "string \<Rightarrow> reference res"
  new_tag :: "string \<Rightarrow> reference res"
  valid_repository :: "string \<Rightarrow> string \<Rightarrow> unit res"
  valid_registry :: "string \<Rightarrow> unit res"
  certs :: cert_files
  parse_platform :: "string \<Rightarrow> unit res"
  remote_image :: "reference list \<Rightarrow> reference \<Rightarrow> image res"
  image_digest :: "image \<Rightarrow> string res"
  image_from_path :: "filesys \<Rightarrow> string \<Rightarrow> image res"
  manifest_from_path :: "filesys \<Rightarrow> string \<Rightarrow> unit res"
  layout_images :: "filesys \<Rightarrow> string \<Rightarrow> image res list res"
  now :: int

record net =
  requests :: "reference list"
  manifestCache :: "(string, image) gomap"

text \<open>The pool of certificates is not kept: which servers are trusted shows in the answers of the registry, a parameter.\<close>

definition make_transport :: "registry \<Rightarrow> RegistryOptions \<Rightarrow> string \<Rightarrow> unit res" where
  "make_transport R = transport_ok (certs R)"

definition fetch :: "registry \<Rightarrow> reference \<Rightarrow> (net, image) act" where
  "fetch R r n = (remote_image R (requests n) r, n\<lparr>requests := requests n @ [r]\<rparr>)"

subsection \<open>Retries\<close>

fun Retry :: "nat \<Rightarrow> ('s, 'a) act \<Rightarrow> ('s, 'a) act" where
  "Retry 0 op s = op s"
| "Retry (Suc n) op s = (case op s of (Inr x, t) \<Rightarrow> (Inr x, t) | (Inl e, t) \<Rightarrow> Retry n op t)"

definition RetryWithResult :: "nat \<Rightarrow> ('s, 'a) act \<Rightarrow> ('s, 'a) act" where
  "RetryWithResult retryCount op =
     swrap (''unable to complete operation after '' @ itoa (int retryCount) @ '' attempts, last error'') (Retry retryCount op)"

subsection \<open>Remote images\<close>

definition parseRegistryMapping :: "string \<Rightarrow> string \<times> string" where
  "parseRegistryMapping regMapping =
     (case cut CHR ''/'' regMapping of
        None \<Rightarrow> (regMapping, [])
      | Some (regURL, pre) \<Rightarrow> (regURL, if pre \<noteq> [] \<and> \<not> has_suffix pre ''/'' then pre @ ''/'' else pre))"

definition remapRepository :: "registry \<Rightarrow> reference \<Rightarrow> string \<Rightarrow> string \<Rightarrow> bool \<Rightarrow> reference res" where
  "remapRepository R r regToMapTo repositoryPrefix insecurePull =
     (let repo = repositoryPrefix @ ref_repository r
      in rbind (valid_repository R regToMapTo repo) (\<lambda>_.
           Inr (r\<lparr>ref_registry := regToMapTo, ref_repository := repo, ref_insecure := insecurePull\<rparr>)))"

definition setNewRegistry :: "reference \<Rightarrow> string \<Rightarrow> reference" where
  "setNewRegistry r reg = r\<lparr>ref_registry := reg, ref_insecure := True\<rparr>"

text \<open>\<open>remoteOptions\<close> ends the program on an error.\<close>

definition remoteOptions :: "registry \<Rightarrow> string \<Rightarrow> RegistryOptions \<Rightarrow> string \<Rightarrow> unit res" where
  "remoteOptions R registryName opts customPlatform =
     (case make_transport R opts registryName of
        Inl e \<Rightarrow> Inl (Panic ''Unable to setup transport for registry'')
      | Inr _ \<Rightarrow> (case parse_platform R customPlatform of Inl e \<Rightarrow> Inl (Panic ''Invalid platform'') | Inr _ \<Rightarrow> Inr ()))"

definition download :: "registry \<Rightarrow> RegistryOptions \<Rightarrow> string \<Rightarrow> string \<Rightarrow> reference \<Rightarrow> (net, image) act" where
  "download R opts customPlatform registryName r =
     sthen (sreads (\<lambda>_. remoteOptions R registryName opts customPlatform)) (fetch R r)"

definition remember :: "string \<Rightarrow> image \<Rightarrow> (net, image) act" where
  "remember name i n = (Inr i, n\<lparr>manifestCache := gm_set (manifestCache n) name i\<rparr>)"

definition is_fatal :: "err \<Rightarrow> bool" where
  "is_fatal e = (case cause e of Panic _ \<Rightarrow> True | _ \<Rightarrow> False)"

text \<open>The loop over the mapped registries: the next one is tried after a failed download.\<close>

fun try_mapped :: "registry \<Rightarrow> RegistryOptions \<Rightarrow> string \<Rightarrow> string \<Rightarrow> reference \<Rightarrow> string list \<Rightarrow> (net, image option) act" where
  "try_mapped R opts customPlatform img r [] = sret None"
| "try_mapped R opts customPlatform img r (m # ms) =
     (let (regToMapTo, repositoryPrefix) = parseRegistryMapping m;
          insecurePull = InsecurePull opts \<or> multiArg_Contains (InsecureRegistries opts) regToMapTo
      in case remapRepository R r regToMapTo repositoryPrefix insecurePull of
           Inl e \<Rightarrow> sfail e
         | Inr remappedRef \<Rightarrow>
             sbind (stry (RetryWithResult (ImageDownloadRetry opts) (download R opts customPlatform regToMapTo remappedRef))) (\<lambda>res.
               case res of
                 Inr i \<Rightarrow> sbind (remember img i) (\<lambda>i. sret (Some i))
               | Inl e \<Rightarrow> if is_fatal e then sfail e else try_mapped R opts customPlatform img r ms))"

definition RetrieveRemoteImage :: "registry \<Rightarrow> string \<Rightarrow> RegistryOptions \<Rightarrow> string \<Rightarrow> (net, image) act" where
  "RetrieveRemoteImage R img opts customPlatform n =
     (case gm_get (manifestCache n) img of
        Some i \<Rightarrow> (Inr i, n)
      | None \<Rightarrow>
          sbind (sreads (\<lambda>_. parse_reference R img)) (\<lambda>r.
            let newRegURLs = (case gm_get (RegistryMaps opts) (ref_registry r) of None \<Rightarrow> [] | Some us \<Rightarrow> us) in
            sbind (try_mapped R opts customPlatform img r newRegURLs) (\<lambda>found.
              case found of
                Some i \<Rightarrow> sret i
              | None \<Rightarrow>
                  if newRegURLs \<noteq> [] \<and> SkipDefaultRegistryFallback opts
                  then sfail (Msg ''image not found on any configured mapped registries'')
                  else
                    sbind (if InsecurePull opts \<or> multiArg_Contains (InsecureRegistries opts) (ref_registry r)
                           then sbind (sreads (\<lambda>_. valid_registry R (ref_registry r))) (\<lambda>_. sret (setNewRegistry r (ref_registry r)))
                           else sret r) (\<lambda>r'.
                    sbind (RetryWithResult (ImageDownloadRetry opts) (download R opts customPlatform (ref_registry r) r')) (remember img)))) n)"

subsection \<open>Caches\<close>

definition IsNotFound :: "err \<Rightarrow> bool" where
  "IsNotFound e = (case cause e of NotFoundErr _ \<Rightarrow> True | _ \<Rightarrow> False)"

definition IsExpired :: "err \<Rightarrow> bool" where
  "IsExpired e = (case cause e of ExpiredErr _ \<Rightarrow> True | _ \<Rightarrow> False)"

definition IsAlreadyCached :: "err \<Rightarrow> bool" where
  "IsAlreadyCached e = (case cause e of AlreadyCachedErr _ \<Rightarrow> True | _ \<Rightarrow> False)"

definition Destination :: "registry \<Rightarrow> KanikoOptions \<Rightarrow> string \<Rightarrow> string res" where
  "Destination R opts cacheKey =
     (if CacheRepo opts = [] then
        (case Destinations opts of
           [] \<Rightarrow> Inl (Panic ''index out of range'')
         | d # _ \<Rightarrow> rbind (wrap ''getting tag for destination'' (new_tag R d)) (\<lambda>r.
             Inr (ref_registry r @ ''/'' @ ref_repository r @ ''/cache:'' @ cacheKey)))
      else Inr (CacheRepo opts @ '':'' @ cacheKey))"

definition verifyImage :: "registry \<Rightarrow> image \<Rightarrow> int \<Rightarrow> string \<Rightarrow> unit res" where
  "verifyImage R img cacheTTL cache =
     rbind (wrap (''retrieving config file for '' @ cache) (img_config img)) (\<lambda>cf.
       if Created cf + cacheTTL < now R then Inl (Msg (''Cache entry expired: '' @ cache))
       else img_manifest img)"

definition registry_RetrieveLayer :: "registry \<Rightarrow> KanikoOptions \<Rightarrow> string \<Rightarrow> (net, image) act" where
  "registry_RetrieveLayer R opts ck =
     sbind (swrap ''getting cache destination'' (sreads (\<lambda>_. Destination R opts ck))) (\<lambda>cache.
     sbind (swrap (''getting reference for '' @ cache) (sreads (\<lambda>_. new_tag R cache))) (\<lambda>cacheRef.
     sbind (if Insecure (Registry opts) \<or> multiArg_Contains (InsecureRegistries (Registry opts)) (ref_registry cacheRef)
            then sbind (sreads (\<lambda>_. valid_registry R (ref_registry cacheRef))) (\<lambda>_. sret (setNewRegistry cacheRef (ref_registry cacheRef)))
            else sret cacheRef) (\<lambda>r.
     sbind (swrap ''making transport for registry'' (sreads (\<lambda>_. make_transport R (Registry opts) (ref_registry cacheRef)))) (\<lambda>_.
     sbind (fetch R r) (\<lambda>img.
     sbind (sreads (\<lambda>_. verifyImage R img (CacheTTL (CacheOpts opts)) cache)) (\<lambda>_. sret img))))))"

text \<open>The loop of \<open>locateImage\<close> keeps the last image of the index.\<close>

definition locateImage :: "registry \<Rightarrow> filesys \<Rightarrow> string \<Rightarrow> image res" where
  "locateImage R fs path =
     rbind (wrap (''constructing layout path from '' @ path) (layout_images R fs path)) (\<lambda>is.
     rbind (wrap ''initializing image with digest'' (rmap (\<lambda>i. i) is)) (\<lambda>is.
       if is = [] then Inl (Msg ''path contains no images'') else Inr (last is)))"

definition layout_RetrieveLayer :: "registry \<Rightarrow> filesys \<Rightarrow> KanikoOptions \<Rightarrow> string \<Rightarrow> image res" where
  "layout_RetrieveLayer R fs opts ck =
     rbind (wrap ''getting cache destination'' (Destination R opts ck)) (\<lambda>cache.
     rbind (wrap ''locating cache image'' (locateImage R fs (trim_prefix cache ''oci:''))) (\<lambda>img.
     rbind (verifyImage R img (CacheTTL (CacheOpts opts)) cache) (\<lambda>_. Inr img)))"

definition isOCILayout :: "string \<Rightarrow> bool" where
  "isOCILayout path = has_prefix path ''oci:''"

definition RetrieveLayer :: "registry \<Rightarrow> filesys \<Rightarrow> KanikoOptions \<Rightarrow> string \<Rightarrow> (net, image) act" where
  "RetrieveLayer R fs opts ck =
     (if isOCILayout (CacheRepo opts) then sreads (\<lambda>_. layout_RetrieveLayer R fs opts ck)
      else registry_RetrieveLayer R opts ck)"

definition cachedImageFromPath :: "registry \<Rightarrow> filesys \<Rightarrow> string \<Rightarrow> image res" where
  "cachedImageFromPath R fs p =
     rbind (wrap ''getting image from path'' (image_from_path R fs p)) (\<lambda>imgTar.
       let mfst = (if is_ok (os_Stat fs (p @ ''.json'')) \<and> is_ok (manifest_from_path R fs (p @ ''.json''))
                   then Inr () else img_manifest imgTar)
       in Inr (imgTar\<lparr>known_digest := Some (base p), img_manifest := mfst\<rparr>))"

text \<open>\<open>None\<close> is the nil image of a cache without a directory.\<close>

definition LocalSource :: "registry \<Rightarrow> filesys \<Rightarrow> CacheOptions \<Rightarrow> string \<Rightarrow> image option res" where
  "LocalSource R fs opts cacheKey =
     (if CacheDir opts = [] then Inr None
      else let path = join_path [CacheDir opts, cacheKey]
           in case os_Stat fs path of
                Inl e \<Rightarrow> Inl (NotFoundErr (''No file found for cache key '' @ cacheKey))
              | Inr fi \<Rightarrow>
                  if imtime fi + CacheTTL opts < now R then Inl (ExpiredErr ''Cached image is too old'')
                  else rbind (cachedImageFromPath R fs path) (\<lambda>i. Inr (Some i)))"

subsection \<open>The base image of a stage\<close>

definition cachedImage :: "registry \<Rightarrow> filesys \<Rightarrow> KanikoOptions \<Rightarrow> string \<Rightarrow> (net, image option) act" where
  "cachedImage R fs opts img =
     sbind (sreads (\<lambda>_. parse_reference R img)) (\<lambda>ref.
     sbind (if ref_is_digest ref then sret (ref_ident ref)
            else sbind (RetrieveRemoteImage R img (Registry opts) (CustomPlatform opts)) (\<lambda>i.
                   sreads (\<lambda>_. case known_digest i of Some d \<Rightarrow> Inr d | None \<Rightarrow> image_digest R i))) (\<lambda>cacheKey.
       sreads (\<lambda>_. LocalSource R fs (CacheOpts opts) cacheKey)))"

definition tarballImage :: "registry \<Rightarrow> world \<Rightarrow> int \<Rightarrow> image res" where
  "tarballImage R w index = image_from_path R (files w) (join_path [join_path [KanikoDir (conf w), ''stages''], itoa index])"

definition source_args :: "KanikoStage \<Rightarrow> KanikoOptions \<Rightarrow> string list" where
  "source_args s opts =
     map (\<lambda>(k, v). k @ ''='' @ (case v of None \<Rightarrow> [] | Some x \<Rightarrow> x)) (concat (MetaArgs s)) @ BuildArgs_opt opts"

definition RetrieveSourceImage :: "registry \<Rightarrow> libs \<Rightarrow> world \<Rightarrow> KanikoOptions \<Rightarrow> KanikoStage \<Rightarrow> (net, image) act" where
  "RetrieveSourceImage R l w opts s =
     sbind (sreads (\<lambda>_. ResolveEnvironmentReplacement l (BaseName (stage s)) (source_args s opts) False)) (\<lambda>currentBaseName.
       if currentBaseName = ''scratch'' then sret empty_Image
       else if BaseImageStoredLocally s then sreads (\<lambda>_. tarballImage R w (BaseImageIndex s))
       else
         sbind (if Cache opts \<and> CacheDir (CacheOpts opts) \<noteq> [] then stry (cachedImage R (files w) opts currentBaseName)
                else sret (Inr None)) (\<lambda>cached.
           case cached of
             Inr (Some i) \<Rightarrow> sret i
           | _ \<Rightarrow> RetrieveRemoteImage R currentBaseName (Registry opts) (CustomPlatform opts)))"

subsection \<open>Retries end after the configured number of attempts\<close>

text \<open>The results of the attempts: \<open>attempts n op s\<close> runs the operation until it succeeds, at most \<open>Suc n\<close>
  times, and lists what it returned.\<close>

fun attempts :: "nat \<Rightarrow> ('s, 'a) act \<Rightarrow> 's \<Rightarrow> ('a res \<times> 's) list" where
  "attempts 0 op s = [op s]"
| "attempts (Suc n) op s =
     (case op s of (Inr x, t) \<Rightarrow> [(Inr x, t)] | (Inl e, t) \<Rightarrow> (Inl e, t) # attempts n op t)"

lemma attempts_neq_Nil [simp]: "attempts n op s \<noteq> []"
  by (cases n) (auto split: prod.splits sum.splits)

lemma Retry_attempts: "Retry n op s = last (attempts n op s)"
  by (induction n arbitrary: s) (auto split: prod.splits sum.splits)

lemma attempts_length: "length (attempts n op s) \<le> Suc n"
  by (induction n arbitrary: s) (auto split: prod.splits sum.splits)

lemma attempts_fail: "\<forall>a \<in> set (butlast (attempts n op s)). \<not> is_ok (fst a)"
  by (induction n arbitrary: s) (auto split: prod.splits sum.splits)

lemma attempts_all: "\<not> is_ok (fst (last (attempts n op s))) \<Longrightarrow> length (attempts n op s) = Suc n"
  by (induction n arbitrary: s) (auto split: prod.splits sum.splits)



subsection \<open>Mapped registries\<close>

definition asks_only :: "(string \<Rightarrow> bool) \<Rightarrow> reference list \<Rightarrow> net \<Rightarrow> bool" where
  "asks_only P old n \<longleftrightarrow> (\<exists>new. requests n = old @ new \<and> (\<forall>r \<in> set new. P (ref_registry r)))"

lemma keeps_asks_fetch: "P (ref_registry r) \<Longrightarrow> keeps (asks_only P old) (fetch R r)"
  by (fastforce simp: keeps_def asks_only_def fetch_def)

lemma keeps_asks_remember [keeps_rules]: "keeps (asks_only P old) (remember img i)"
  by (auto simp: keeps_def asks_only_def remember_def)

lemma keeps_Retry: "keeps P op \<Longrightarrow> keeps P (Retry n op)"
proof (induction n)
  case (Suc n)
  then show ?case by (fastforce simp: keeps_def split: prod.splits sum.splits)
qed (simp add: keeps_def)

lemma keeps_RetryWithResult [keeps_rules]: "keeps P op \<Longrightarrow> keeps P (RetryWithResult n op)"
  unfolding RetryWithResult_def by (intro keeps_rules keeps_Retry)

lemma keeps_try_mapped:
  assumes "\<And>m. m \<in> set ms \<Longrightarrow> P (fst (parseRegistryMapping m))"
  shows "keeps (asks_only P old) (try_mapped R opts plat img r ms)"
  using assms
proof (induction ms)
  case (Cons m ms)
  have m: "P (fst (parseRegistryMapping m))" and IH: "keeps (asks_only P old) (try_mapped R opts plat img r ms)"
    using Cons by auto
  have dl: "keeps (asks_only P old) (download R opts plat reg r')" if "P (ref_registry r')" for reg r'
    unfolding download_def by (intro keeps_rules keeps_asks_fetch that)
  show ?case
    using m by (auto simp: remapRepository_def rbind_def Let_def split: prod.splits sum.splits
        intro!: keeps_rules IH dl)
qed simp


definition hub_ref :: reference where
  "hub_ref = \<lparr>ref_registry = ''docker.io'', ref_repository = ''library/alpine'', ref_ident = ''latest'', ref_is_digest = False, ref_insecure = False\<rparr>"

definition offline_registry :: registry where
  "offline_registry = \<lparr>parse_reference = (\<lambda>_. Inr hub_ref), new_tag = (\<lambda>_. Inr hub_ref), valid_repository = (\<lambda>_ _. Inr ()),
     valid_registry = (\<lambda>_. Inr ()), certs = \<lparr>system_pool = [], read_pem = (\<lambda>_. Inl (Sys ENOENT)), pem_certs = (\<lambda>_. []), load_key_pair = (\<lambda>_ _. Inl (Sys ENOENT))\<rparr>, parse_platform = (\<lambda>_. Inr ()),
     remote_image = (\<lambda>_ _. Inl (Msg ''timeout'')), image_digest = (\<lambda>_. Inr ''sha256:0''),
     image_from_path = (\<lambda>_ _. Inr empty_Image), manifest_from_path = (\<lambda>_ _. Inr ()), layout_images = (\<lambda>_ _. Inr []), now = 0\<rparr>"

definition mirror_options :: RegistryOptions where
  "mirror_options = no_registry_options\<lparr>RegistryMaps := [(''docker.io'', [''mirror.one/hub'', ''mirror.two''])],
     SkipDefaultRegistryFallback := True, ImageDownloadRetry := 1\<rparr>"


subsection \<open>The layer cache\<close>

text \<open>What the executor may rely on, whichever cache \<open>newLayerCache\<close> chose: an image that \<open>RetrieveLayer\<close> returns is
  not older than the time to live, and its manifest can be read.\<close>

locale layer_cache =
  fixes retrieve :: "'e \<Rightarrow> KanikoOptions \<Rightarrow> string \<Rightarrow> ('s, image) act"
    and clock :: "'e \<Rightarrow> int"
  assumes verified: "retrieve e opts ck s = (Inr i, t) \<Longrightarrow>
    \<exists>cf. img_config i = Inr cf \<and> clock e \<le> Created cf + CacheTTL (CacheOpts opts) \<and> img_manifest i = Inr ()"
begin

lemma stale_is_miss:
  assumes "img_config i = Inr cf" and "Created cf + CacheTTL (CacheOpts opts) < clock e"
  shows "retrieve e opts ck s \<noteq> (Inr i, t)"
  using verified [of e opts ck s i t] assms by auto

end

lemma verifyImage_Inr:
  "verifyImage R i ttl cache = Inr u \<Longrightarrow>
     \<exists>cf. img_config i = Inr cf \<and> now R \<le> Created cf + ttl \<and> img_manifest i = Inr ()"
  by (auto simp: verifyImage_def split: if_splits)

interpretation registry_cache: layer_cache registry_RetrieveLayer now
  by unfold_locales (auto simp: registry_RetrieveLayer_def act_Inr dest!: verifyImage_Inr)

interpretation layout_cache: layer_cache "\<lambda>(R, fs) opts ck. sreads (\<lambda>_. layout_RetrieveLayer R fs opts ck)" "\<lambda>(R, fs). now R"
  by unfold_locales (auto simp: layout_RetrieveLayer_def act_Inr split: prod.splits dest!: verifyImage_Inr)

text \<open>C35. A cache hit is never stale: an image that the layer cache returns, from a registry or from an OCI layout, was
  created within the time to live and has a readable manifest.\<close>

theorem RetrieveLayer_fresh:
  assumes "RetrieveLayer R fs opts ck n = (Inr i, n')"
  shows "\<exists>cf. img_config i = Inr cf \<and> now R \<le> Created cf + CacheTTL (CacheOpts opts) \<and> img_manifest i = Inr ()"
proof (cases "isOCILayout (CacheRepo opts)")
  case True
  with assms show ?thesis using layout_cache.verified [of "(R, fs)" opts ck n i n'] by (simp add: RetrieveLayer_def)
next
  case False
  with assms show ?thesis using registry_cache.verified [of R opts ck n i n'] by (simp add: RetrieveLayer_def)
qed

definition cache_registry :: registry where
  "cache_registry = offline_registry\<lparr>layout_images := (\<lambda>_ _. Inr [Inr empty_Image]), now := 100\<rparr>"

theorem RetrieveLayer_fresh_witness:
  "\<exists>i. fst (RetrieveLayer cache_registry demo_fs (default_options\<lparr>CacheRepo := ''oci:/c''\<rparr>) ''k'' \<lparr>requests = [], manifestCache = []\<rparr>) = Inr i \<and>
     (\<exists>cf. img_config i = Inr cf \<and> 100 \<le> Created cf + 1209600)"
proof -
  let ?r = "RetrieveLayer cache_registry demo_fs (default_options\<lparr>CacheRepo := ''oci:/c''\<rparr>) ''k'' \<lparr>requests = [], manifestCache = []\<rparr>"
  have "is_ok (fst ?r)" by code_simp
  then obtain i where i: "fst ?r = Inr i" by (auto simp: is_ok_iff)
  then have r: "?r = (Inr i, snd ?r)" by (metis prod.collapse)
  have "now cache_registry = 100" "CacheTTL (CacheOpts (default_options\<lparr>CacheRepo := ''oci:/c''\<rparr>)) = 1209600" by code_simp+
  with RetrieveLayer_fresh [OF r] i show ?thesis by auto
qed

end
