(* ===== verification/Stage_Deps.thy ===== *)
theory Stage_Deps
  imports Path_Trie Image_Source
begin

text \<open>
  How the stages of a Dockerfile depend on each other (\<open>pkg/executor/build.go\<close>): the resolution of stage names in
  \<open>COPY --from\<close> to stage numbers, the images that are not stages, the paths later stages copy from a stage and
  the files kept for them; and the configuration a stage starts from. The libraries the executor calls are the fields of
  \<open>executor\<close>: besides those of the commands and the registry, the hash functions, the reader and the matcher of
  \<open>.dockerignore\<close>, the copier of trees, and the writer of image tarballs and \<open>mutate.Canonical\<close> of
  go-containerregistry.
\<close>

subsection \<open>Names of stages\<close>

text \<open>The loop of \<open>ResolveCrossStageInstructions\<close>: the name of the stage is recorded before its own commands are
  resolved.\<close>

fun resolve_stages :: "nat \<Rightarrow> (string, string) gomap \<Rightarrow> KanikoStage list \<Rightarrow> KanikoStage list \<times> (string, string) gomap" where
  "resolve_stages i nameToIndex [] = ([], nameToIndex)"
| "resolve_stages i nameToIndex (s # ss) =
     (let m = (if Name (stage s) \<noteq> [] then gm_set nameToIndex (Name (stage s)) (itoa (int i)) else nameToIndex);
          s' = s\<lparr>stage := (stage s)\<lparr>Commands := ResolveCrossStageCommands (Commands (stage s)) m\<rparr>\<rparr>;
          (ss', m') = resolve_stages (Suc i) m ss
      in (s' # ss', m'))"

definition ResolveCrossStageInstructions :: "KanikoStage list \<Rightarrow> KanikoStage list \<times> (string, string) gomap" where
  "ResolveCrossStageInstructions stages = resolve_stages 0 [] stages"

definition reviewConfig :: "Stage \<Rightarrow> v1_Config \<Rightarrow> v1_Config" where
  "reviewConfig s c =
     (let cmd = list_ex (\<lambda>k. cmd_name k = ''CMD'') (Commands s);
          entrypoint = list_ex (\<lambda>k. cmd_name k = ''ENTRYPOINT'') (Commands s)
      in if entrypoint \<and> \<not> cmd then c\<lparr>Cmd := nil_slice\<rparr> else c)"

subsection \<open>The configuration a stage starts from\<close>

definition ScratchEnvVars :: "string list" where
  "ScratchEnvVars = [''PATH=/usr/local/sbin:/usr/local/bin:/usr/sbin:/usr/bin:/sbin:/bin'']"

definition add_label :: "string \<Rightarrow> (string, string) gomap \<Rightarrow> (string, string) gomap res" where
  "add_label label m =
     (case splitn 2 CHR ''='' label of
        [k, v] \<Rightarrow> Inr (gm_set m k v)
      | _ \<Rightarrow> Inl (Msg (''labels must be of the form key=value, got '' @ label)))"

definition initConfig :: "image \<Rightarrow> KanikoOptions \<Rightarrow> ConfigFile res" where
  "initConfig img opts =
     rbind (img_config img) (\<lambda>cf.
       let c = Config cf; c = (if Env c = None then c\<lparr>Env := Some ScratchEnvVars\<rparr> else c)
       in if Labels_opt opts = [] then Inr (cf\<lparr>Config := c\<rparr>)
          else rbind (rfold add_label (Labels_opt opts) (map_or_new (Labels c))) (\<lambda>m.
                 Inr (cf\<lparr>Config := c\<lparr>Labels := Some m\<rparr>\<rparr>)))"

definition resolveOnBuild :: "parser \<Rightarrow> Stage \<Rightarrow> v1_Config \<Rightarrow> (string, string) gomap \<Rightarrow> (Stage \<times> v1_Config) res" where
  "resolveOnBuild P s c stageNameToIdx =
     rbind (GetOnBuildInstructions P (OnBuild c) stageNameToIdx) (\<lambda>cmds.
       Inr (s\<lparr>Commands := cmds @ Commands s\<rparr>, c\<lparr>OnBuild := []\<rparr>))"

definition getHasher :: "(string \<Rightarrow> string) \<Rightarrow> (string \<Rightarrow> string) \<Rightarrow> (int \<Rightarrow> string) \<Rightarrow> string \<Rightarrow> (filesys \<Rightarrow> hasher) res" where
  "getHasher highway md5 time_str snapshotMode =
     (if snapshotMode = ''time'' then Inr (MtimeHasher md5 time_str)
      else if snapshotMode = ''full'' then Inr (Hasher highway time_str)
      else if snapshotMode = ''redo'' then Inr (RedoHasher md5 time_str)
      else Inl (Msg (snapshotMode @ '' is not a valid snapshot mode'')))"

subsection \<open>Changes to an image\<close>

text \<open>The functions of \<open>mutate\<close> in go-containerregistry the executor calls. An image is a value: the functions return a
  new one.\<close>

definition mutate_ConfigFile :: "image \<Rightarrow> ConfigFile \<Rightarrow> image res" where
  "mutate_ConfigFile img cf = rbind (img_manifest img) (\<lambda>_. Inr (img\<lparr>img_config := Inr cf, known_digest := None\<rparr>))"

definition mutate_Config :: "image \<Rightarrow> v1_Config \<Rightarrow> image res" where
  "mutate_Config img c = rbind (img_config img) (\<lambda>cf. mutate_ConfigFile img (cf\<lparr>Config := c\<rparr>))"

definition mutate_Append :: "image \<Rightarrow> layer \<Rightarrow> string \<Rightarrow> image" where
  "mutate_Append img l createdBy =
     img\<lparr>img_layers := rbind (img_layers img) (\<lambda>ls. Inr (ls @ [l])),
         img_config := rbind (img_config img) (\<lambda>cf. Inr (cf\<lparr>History := History cf @ [createdBy]\<rparr>)),
         known_digest := None\<rparr>"

subsection \<open>What later stages copy from a stage\<close>

text \<open>The state of the loop over the commands of a stage: the configuration, the build arguments, the image
  and the graph.\<close>

record dep_state =
  dep_cfg :: v1_Config
  dep_args :: BuildArgs
  dep_image :: image
  depGraph :: "(int, string list) gomap"

definition dep_envs :: "dep_state \<Rightarrow> string list" where
  "dep_envs d = ReplacementEnvs (dep_args d) (env_of (dep_cfg d))"

definition dep_arg :: "libs \<Rightarrow> string \<times> string option \<Rightarrow> dep_state \<Rightarrow> dep_state res" where
  "dep_arg l a d =
     rbind (ParseArg l (fst a) (snd a) (env_of (dep_cfg d)) (dep_args d)) (\<lambda>(k, v).
       Inr (d\<lparr>dep_args := AddArg k v (dep_args d)\<rparr>))"

definition dep_command :: "libs \<Rightarrow> Command \<Rightarrow> dep_state \<Rightarrow> dep_state res" where
  "dep_command l c d =
     (case cmd_inst c of
        CopyInst sd from _ _ \<Rightarrow>
          (if from = [] then Inr d
           else case atoi from of
             Inl _ \<Rightarrow> Inr d
           | Inr i \<Rightarrow>
               rbind (ResolveEnvironmentReplacementList l (SourcePaths sd) (dep_envs d) True) (\<lambda>resolved.
                 Inr (d\<lparr>depGraph := gm_set (depGraph d) i
                        ((case gm_get (depGraph d) i of None \<Rightarrow> [] | Some ps \<Rightarrow> ps) @ resolved)\<rparr>)))
      | EnvInst kvs \<Rightarrow>
          rbind (UpdateConfigEnv l kvs (env_of (dep_cfg d)) (dep_envs d)) (\<lambda>e.
            let c = (dep_cfg d)\<lparr>Env := Some e\<rparr>
            in rbind (mutate_Config (dep_image d) c) (\<lambda>i. Inr (d\<lparr>dep_cfg := c, dep_image := i\<rparr>)))
      | ArgInst as \<Rightarrow> rfold (dep_arg l) as d
      | _ \<Rightarrow> Inr d)"

text \<open>One stage: a failure to parse the \<open>ONBUILD\<close> triggers is dropped, and with it the triggers.\<close>

definition dep_stage :: "registry \<Rightarrow> parser \<Rightarrow> libs \<Rightarrow> world \<Rightarrow> KanikoOptions \<Rightarrow> (string, string) gomap \<Rightarrow> KanikoStage \<Rightarrow>
    image list \<times> (int, string list) gomap \<Rightarrow> (net, image list \<times> (int, string list) gomap) act" where
  "dep_stage R P l w opts stageNameToIdx s st =
     (case st of (imgs, graph) \<Rightarrow>
       sbind (if BaseImageStoredLocally s then sreads (\<lambda>_. at imgs (BaseImageIndex s))
              else if Name (stage s) = ''scratch'' then sret empty_Image
              else RetrieveSourceImage R l w opts s) (\<lambda>img.
       sbind (sreads (\<lambda>_. initConfig img opts)) (\<lambda>cf.
         let cmds = (case GetOnBuildInstructions P (OnBuild (Config cf)) stageNameToIdx of Inl _ \<Rightarrow> [] | Inr cs \<Rightarrow> cs)
                    @ Commands (stage s);
             d = \<lparr>dep_cfg = Config cf, dep_args = AddMetaArgs (MetaArgs s) (NewBuildArgs (BuildArgs_opt opts)),
                  dep_image = img, depGraph = graph\<rparr>
         in sbind (sreads (\<lambda>_. rfold (dep_command l) cmds d)) (\<lambda>d.
              sret (imgs @ [dep_image d], depGraph d)))))"

fun dep_stages :: "registry \<Rightarrow> parser \<Rightarrow> libs \<Rightarrow> world \<Rightarrow> KanikoOptions \<Rightarrow> (string, string) gomap \<Rightarrow> KanikoStage list \<Rightarrow>
    image list \<times> (int, string list) gomap \<Rightarrow> (net, image list \<times> (int, string list) gomap) act" where
  "dep_stages R P l w opts names [] st = sret st"
| "dep_stages R P l w opts names (s # ss) st =
     sbind (dep_stage R P l w opts names s st) (dep_stages R P l w opts names ss)"

definition CalculateDependencies :: "registry \<Rightarrow> parser \<Rightarrow> libs \<Rightarrow> world \<Rightarrow> KanikoStage list \<Rightarrow> KanikoOptions \<Rightarrow>
    (string, string) gomap \<Rightarrow> (net, (int, string list) gomap) act" where
  "CalculateDependencies R P l w stages opts stageNameToIdx =
     sbind (dep_stages R P l w opts stageNameToIdx stages ([], [])) (\<lambda>(_, graph). sret graph)"

subsection \<open>Globs and the files kept for later stages\<close>

definition has_meta :: "string \<Rightarrow> bool" where
  "has_meta p \<longleftrightarrow> list_ex (\<lambda>c. c \<in> set [CHR ''*'', CHR ''?'', CHR ''['', CHR 0x5C]) p"

definition cleanGlobPath :: "string \<Rightarrow> string" where
  "cleanGlobPath p = (if p = [] then ''.'' else if p = ''/'' then p else butlast p)"

definition glob_dir :: "filesys \<Rightarrow> string \<Rightarrow> string \<Rightarrow> string list res" where
  "glob_dir fs d pattern =
     (case os_Stat fs d of
        Inl _ \<Rightarrow> Inr []
      | Inr fi \<Rightarrow>
          (if \<not> is_dir fi then Inr []
           else case locate fs True d of
             Inl _ \<Rightarrow> Inr []
           | Inr q \<Rightarrow>
               rbind (rmap (\<lambda>n. rbind (match pattern n) (\<lambda>b. Inr (b, n))) (sort (map last (children fs q)))) (\<lambda>bs.
                 Inr (map (\<lambda>(_, n). join_path [d, n]) (filter fst bs)))))"

text \<open>\<open>filepath.Glob\<close>. Every level drops the last component of the pattern, so the length of the pattern bounds the
  recursion.\<close>

fun glob_fuel :: "nat \<Rightarrow> filesys \<Rightarrow> string \<Rightarrow> string list res" where
  "glob_fuel 0 fs pattern = Inl Hang"
| "glob_fuel (Suc n) fs pattern =
     rbind (match pattern []) (\<lambda>_.
       if \<not> has_meta pattern then Inr (if is_ok (os_Lstat fs pattern) then [pattern] else [])
       else
         let (d, file) = split_path pattern; d = cleanGlobPath d
         in if \<not> has_meta d then glob_dir fs d file
            else if d = pattern then Inl (Msg ''syntax error in pattern'')
            else rbind (glob_fuel n fs d) (\<lambda>ds.
                   rbind (rmap (\<lambda>d. glob_dir fs d file) ds) (\<lambda>ms. Inr (concat ms))))"

definition Glob :: "filesys \<Rightarrow> string \<Rightarrow> string list res" where
  "Glob fs pattern = glob_fuel (Suc (length pattern)) fs pattern"

definition escapes :: "string \<Rightarrow> bool" where
  "escapes p \<longleftrightarrow> has_prefix p ''../'' \<or> p = ''..''"

definition rel_to_root :: "world \<Rightarrow> string \<Rightarrow> string \<Rightarrow> string res" where
  "rel_to_root w msg p =
     rbind (wrap (''could not find relative path to '' @ RootDir (conf w)) (rel (RootDir (conf w)) p)) (\<lambda>r.
       if escapes r then Inl (Msg msg) else Inr r)"

definition save_file :: "world \<Rightarrow> string \<Rightarrow> string list res" where
  "save_file w f =
     rbind (case EvalSymLink w f of
              Inl _ \<Rightarrow> Inr []
            | Inr link \<Rightarrow> rbind (rel_to_root w (''resolved symlink '' @ f @ '' escapes root '' @ RootDir (conf w)) link) (\<lambda>l. Inr [l])) (\<lambda>ls.
     rbind (rel_to_root w (''resolved file '' @ f @ '' escapes root '' @ RootDir (conf w)) f) (\<lambda>r. Inr (ls @ [r])))"

definition filesToSave :: "world \<Rightarrow> string list \<Rightarrow> string list res" where
  "filesToSave w deps =
     rbind (rmap (\<lambda>src. rbind (Glob (files w) (join_path [RootDir (conf w), src])) (\<lambda>srcs.
                    rbind (rmap (save_file w) srcs) (\<lambda>fss. Inr (concat fss)))) deps) (\<lambda>srcFiles.
       Inr (deduplicatePaths (concat srcFiles)))"

subsection \<open>Images that are not stages\<close>

record executor =
  ex_host :: host
  ex_registry :: registry
  ex_parser :: parser
  ex_sha256 :: "string \<Rightarrow> string"
  ex_md5 :: "string \<Rightarrow> string"
  ex_highway :: "string \<Rightarrow> string"
  ex_time :: "int \<Rightarrow> string"
  read_dockerignore :: "string \<Rightarrow> string list res"
  ignore_matches :: "string \<Rightarrow> string list \<Rightarrow> bool res"
  copy_tree :: "string \<Rightarrow> string \<Rightarrow> (filesys, unit) act"
  tarball_bytes :: "image \<Rightarrow> string res"
  Canonical :: "image \<Rightarrow> image res"
  GOOS :: string
  GOARCH :: string

text \<open>The world and the network, which \<open>fetchExtraStages\<close> changes\<close>

type_synonym site = "world \<times> net"

definition in_net :: "(net, 'a) act \<Rightarrow> (site, 'a) act" where
  "in_net m s = (case m (snd s) of (r, n) \<Rightarrow> (r, fst s, n))"

definition in_wld :: "(world, 'a) act \<Rightarrow> (site, 'a) act" where
  "in_wld m s = (case m (fst s) of (r, w) \<Rightarrow> (r, w, snd s))"

definition layer_tars :: "image \<Rightarrow> tar_entry list res list res" where
  "layer_tars img = rbind (img_layers img) (\<lambda>ls. Inr (map layer_tar ls))"

definition extractImageToDependencyDir :: "string \<Rightarrow> image \<Rightarrow> (world, unit) act" where
  "extractImageToDependencyDir name img =
     sbind (sgets (\<lambda>w. join_path [KanikoDir (conf w), name])) (\<lambda>dependencyDir.
     sthen (on_files (os_MkdirAll dependencyDir 493))
     (sthen (GetFSFromImage dependencyDir (Some (layer_tars img)) ExtractFile) (sret ())))"

definition saveStageAsTarball :: "executor \<Rightarrow> string \<Rightarrow> image \<Rightarrow> (world, unit) act" where
  "saveStageAsTarball E path img =
     sbind (sgets (\<lambda>w. join_path [join_path [KanikoDir (conf w), ''stages''], path])) (\<lambda>tarPath.
     sthen (on_files (os_MkdirAll (dir tarPath) 488))
     (sbind (sreads (\<lambda>_. tarball_bytes E img)) (\<lambda>bytes. on_files (os_WriteFile tarPath bytes 438))))"

definition fromPreviousStage :: "string \<Rightarrow> string list \<Rightarrow> bool" where
  "fromPreviousStage from previousStageNames \<longleftrightarrow> list_ex (\<lambda>n. n = from) previousStageNames"

definition is_extra :: "nat \<Rightarrow> string list \<Rightarrow> Command \<Rightarrow> bool" where
  "is_extra stageIndex names c =
     (case cmd_inst c of
        CopyInst _ from _ _ \<Rightarrow>
          from \<noteq> [] \<and>
          \<not> (case atoi from of Inr i \<Rightarrow> int stageIndex > i \<and> i \<ge> 0 | Inl _ \<Rightarrow> False) \<and>
          \<not> fromPreviousStage from names
      | _ \<Rightarrow> False)"

definition fetch_extra :: "executor \<Rightarrow> KanikoOptions \<Rightarrow> Command \<Rightarrow> (site, unit) act" where
  "fetch_extra E opts c =
     sbind (in_net (RetrieveRemoteImage (ex_registry E) (From (cmd_inst c)) (Registry opts) (CustomPlatform opts))) (\<lambda>img.
     sthen (in_wld (saveStageAsTarball E (From (cmd_inst c)) img))
           (in_wld (extractImageToDependencyDir (From (cmd_inst c)) img)))"

fun fetch_stages :: "executor \<Rightarrow> KanikoOptions \<Rightarrow> nat \<Rightarrow> string list \<Rightarrow> KanikoStage list \<Rightarrow> (site, unit) act" where
  "fetch_stages E opts i names [] = sret ()"
| "fetch_stages E opts i names (s # ss) =
     sthen (sfold (fetch_extra E opts) (filter (is_extra i names) (Commands (stage s))))
           (fetch_stages E opts (Suc i) (if Name (stage s) \<noteq> [] then names @ [Name (stage s)] else names) ss)"

definition fetchExtraStages :: "executor \<Rightarrow> KanikoStage list \<Rightarrow> KanikoOptions \<Rightarrow> (site, unit) act" where
  "fetchExtraStages E stages opts = fetch_stages E opts 0 [] stages"

subsection \<open>Names resolve to the last stage of that name\<close>

text \<open>The number of the last stage with a name\<close>

definition last_named :: "KanikoStage list \<Rightarrow> string \<Rightarrow> nat option" where
  "last_named ss n = (if n = [] then None else find (\<lambda>j. Name (stage (ss ! j)) = n) (rev [0..<length ss]))"

lemma last_named_Nil [simp]: "last_named [] n = None" "last_named ss [] = None"
  by (simp_all add: last_named_def)

lemma last_named_snoc:
  "last_named (ss @ [s]) n = (if n \<noteq> [] \<and> Name (stage s) = n then Some (length ss) else last_named ss n)"
proof -
  have "find (\<lambda>j. Name (stage ((ss @ [s]) ! j)) = n) xs = find (\<lambda>j. Name (stage (ss ! j)) = n) xs"
    if "set xs \<subseteq> {..<length ss}" for xs
    using that by (induction xs) (auto simp: nth_append)
  from this [of "rev [0..<length ss]"] show ?thesis
    by (simp add: last_named_def atLeast0LessThan cong: if_cong)
qed

text \<open>A command with the stage name in its \<open>--from\<close> replaced by the number of that stage\<close>

definition numbered :: "KanikoStage list \<Rightarrow> Command \<Rightarrow> Command" where
  "numbered ss c =
     (case cmd_inst c of
        CopyInst sd from chown chmod \<Rightarrow>
          (case last_named ss (to_lower from) of
             Some j \<Rightarrow> c\<lparr>cmd_inst := CopyInst sd (itoa (int j)) chown chmod\<rparr> | None \<Rightarrow> c)
      | _ \<Rightarrow> c)"

definition number_stage :: "KanikoStage list \<Rightarrow> KanikoStage \<Rightarrow> KanikoStage" where
  "number_stage ss s = s\<lparr>stage := (stage s)\<lparr>Commands := map (numbered ss) (Commands (stage s))\<rparr>\<rparr>"

definition names_upto :: "KanikoStage list \<Rightarrow> (string, string) gomap \<Rightarrow> bool" where
  "names_upto ss m \<longleftrightarrow> (\<forall>n. gm_get m n = map_option (\<lambda>j. itoa (int j)) (last_named ss n))"

lemma resolve_numbered: "names_upto ss m \<Longrightarrow> ResolveCrossStageCommands cs m = map (numbered ss) cs"
  by (auto simp: to_lower_def ResolveCrossStageCommands_def resolve_from_def numbered_def names_upto_def split: instruction.splits option.splits)

lemma resolve_stages_numbered:
  "names_upto ps m \<Longrightarrow> resolve_stages (length ps) m ss = (ss', m') \<Longrightarrow>
   ss' = map (\<lambda>i. number_stage (ps @ take (Suc i) ss) (ss ! i)) [0..<length ss] \<and> names_upto (ps @ ss) m'"
proof (induction ss arbitrary: ps m ss' m')
  case (Cons s ss)
  let ?m = "if Name (stage s) \<noteq> [] then gm_set m (Name (stage s)) (itoa (int (length ps))) else m"
  obtain rs k where rs: "resolve_stages (Suc (length ps)) ?m ss = (rs, k)" by fastforce
  have m: "names_upto (ps @ [s]) ?m" using Cons.prems(1) by (auto simp: names_upto_def last_named_snoc)
  note IH = Cons.IH [OF m, of rs k]
  have "resolve_stages (length ps) m (s # ss) = (number_stage (ps @ [s]) s # rs, k)"
    using rs resolve_numbered [OF m] by (simp only: resolve_stages.simps Let_def prod.case number_stage_def)
  then have "ss' = number_stage (ps @ [s]) s # rs" "m' = k" using Cons.prems(2) by simp_all
  moreover have "[0..<length (s # ss)] = 0 # map Suc [0..<length ss]" by (simp add: upt_conv_Cons map_Suc_upt del: upt_Suc)
  ultimately show ?case using IH rs by simp
qed simp

text \<open>In every stage, a \<open>COPY --from\<close> that gives the name of this or an earlier stage, in any case, gets the number
  of the last such stage; every other instruction stays as it is. The map returned takes each name
  to the last stage that has it.\<close>

theorem ResolveCrossStageInstructions_last_named:
  "fst (ResolveCrossStageInstructions ss) = map (\<lambda>i. number_stage (take (Suc i) ss) (ss ! i)) [0..<length ss] \<and>
   gm_get (snd (ResolveCrossStageInstructions ss)) n = map_option (\<lambda>j. itoa (int j)) (last_named ss n)"
  using resolve_stages_numbered [of "[]" "[]" ss "fst (resolve_stages 0 [] ss)" "snd (resolve_stages 0 [] ss)"]
  by (simp add: names_upto_def ResolveCrossStageInstructions_def)

subsection \<open>Nothing a later stage copies is missing from the graph\<close>

definition graph_le :: "(int, string list) gomap \<Rightarrow> (int, string list) gomap \<Rightarrow> bool" where
  "graph_le g h \<longleftrightarrow> (\<forall>i ps. gm_get g i = Some ps \<longrightarrow> (\<exists>qs. gm_get h i = Some qs \<and> set ps \<subseteq> set qs))"

lemma graph_le_trans: "graph_le f g \<Longrightarrow> graph_le g h \<Longrightarrow> graph_le f h"
  by (fastforce simp: graph_le_def)

lemma graph_le_refl [simp]: "graph_le g g"
  by (auto simp: graph_le_def)

lemma dep_arg_graph: "dep_arg l a d = Inr d' \<Longrightarrow> depGraph d' = depGraph d"
  by (auto simp: dep_arg_def split: prod.splits)

lemma dep_command_graph: "dep_command l c d = Inr d' \<Longrightarrow> graph_le (depGraph d) (depGraph d')"
proof -
  have "depGraph d' = depGraph d" if "rfold (dep_arg l) as d = Inr d'" for as
    by (rule rfold_invariant [OF that, where P = "\<lambda>x. depGraph x = depGraph d"]) (auto dest: dep_arg_graph)
  then show "dep_command l c d = Inr d' \<Longrightarrow> ?thesis"
    by (auto simp: dep_command_def Let_def graph_le_def split: instruction.splits if_splits sum.splits option.splits)
qed

lemma dep_commands_graph: "rfold (dep_command l) cs d = Inr d' \<Longrightarrow> graph_le (depGraph d) (depGraph d')"
  by (rule rfold_invariant [where P = "\<lambda>x. graph_le (depGraph d) (depGraph x)"])
    (auto intro: graph_le_trans dep_command_graph)

text \<open>A command's sources are in the graph, expanded in some environment.\<close>

definition copied :: "libs \<Rightarrow> (int, string list) gomap \<Rightarrow> Command \<Rightarrow> bool" where
  "copied l g c =
     (case cmd_inst c of
        CopyInst sd from _ _ \<Rightarrow>
          (case atoi from of
             Inl _ \<Rightarrow> True
           | Inr i \<Rightarrow> \<exists>es rs qs. ResolveEnvironmentReplacementList l (SourcePaths sd) es True = Inr rs \<and>
                        gm_get g i = Some qs \<and> set rs \<subseteq> set qs)
      | _ \<Rightarrow> True)"

lemma copied_mono: "copied l g c \<Longrightarrow> graph_le g h \<Longrightarrow> copied l h c"
  by (auto simp: copied_def graph_le_def split: instruction.splits sum.splits) (meson subset_trans)

lemma dep_command_copied: "dep_command l c d = Inr d' \<Longrightarrow> copied l (depGraph d') c"
  by (auto simp: dep_command_def copied_def atoi_def split: instruction.splits sum.splits if_splits) blast+

lemma dep_commands_copied: "rfold (dep_command l) cs d = Inr d' \<Longrightarrow> c \<in> set cs \<Longrightarrow> copied l (depGraph d') c"
proof (induction cs arbitrary: d)
  case (Cons a cs)
  then obtain e where "dep_command l a d = Inr e" "rfold (dep_command l) cs e = Inr d'" by auto
  with Cons show ?case by (auto dest: dep_command_copied dep_commands_graph intro: copied_mono)
qed simp

lemma dep_stage_copied:
  assumes "dep_stage R P l w opts names s (imgs, g) n = (Inr (imgs', g'), n')"
  shows "graph_le g g' \<and> (\<forall>c \<in> set (Commands (stage s)). copied l g' c)"
  using assms by (auto simp: dep_stage_def act_Inr Let_def dest: dep_commands_graph dep_commands_copied)

lemma dep_stages_copied:
  "dep_stages R P l w opts names ss (imgs, g) n = (Inr (imgs', g'), n') \<Longrightarrow>
   graph_le g g' \<and> (\<forall>s \<in> set ss. \<forall>c \<in> set (Commands (stage s)). copied l g' c)"
proof (induction ss arbitrary: imgs g n)
  case (Cons s ss)
  then obtain js h m where "dep_stage R P l w opts names s (imgs, g) n = (Inr (js, h), m)"
    "dep_stages R P l w opts names ss (js, h) m = (Inr (imgs', g'), n')" by (auto simp: act_Inr)
  with Cons.IH dep_stage_copied show ?case by (fastforce intro: graph_le_trans copied_mono)
qed (simp add: sret_def)


definition scratch_stage :: "Command list \<Rightarrow> KanikoStage" where
  "scratch_stage cs = \<lparr>stage = \<lparr>Name = ''scratch'', BaseName = ''scratch'', Commands = cs\<rparr>, BaseImageIndex = -1, Final = False,
     BaseImageStoredLocally = False, SaveStage = False, MetaArgs = [], Index = 0\<rparr>"

definition copy_from :: "string \<Rightarrow> string list \<Rightarrow> Command" where
  "copy_from f srcs = \<lparr>cmd_name = ''COPY'', cmd_code = ''COPY'', cmd_inst = CopyInst \<lparr>SourcePaths = srcs, DestPath = ''/''\<rparr> f [] []\<rparr>"

definition no_parser :: parser where
  "no_parser = \<lparr>parse = (\<lambda>_. Inr ([], [])), parse_nodes = (\<lambda>_. Inr []), parse_node = (\<lambda>_. Inl (Msg []))\<rparr>"


subsection \<open>The files kept stay below the root and cover what was asked for\<close>

lemma rel_strip_Some: "rel_strip bs ts = Some (bs', ts') \<Longrightarrow> \<exists>ps. bs = ps @ bs' \<and> ts = ps @ ts'"
proof (induction bs ts rule: rel_strip.induct)
  case (1 b bs t ts)
  then show ?case by (cases "b = t") (auto split: if_splits)
qed auto

lemma escapes_up: "escapes (join ''/'' (''..'' # xs))"
  by (cases xs) (simp_all add: escapes_def)

lemma rel_inside:
  assumes bs: "comps_ok bs" and r: "rel (abs_path bs) p = Inr r" and "\<not> escapes r"
  shows "\<exists>cs. comps_ok (bs @ cs) \<and> r = (if cs = [] then ''.'' else join ''/'' cs)"
proof (cases "clean p = abs_path bs")
  case True
  then show ?thesis using bs r by (intro exI [of _ "[]"]) (simp add: rel_def)
next
  case False
  let ?t = "abs_comps (clean p)"
  from False r bs have "is_abs (clean p)" by (auto simp: rel_def Let_def split: if_splits)
  then have t: "clean p = abs_path ?t" using clean_abs [of "clean p"] by simp
  with False r bs obtain us ts where s: "rel_strip bs ?t = Some (us, ts)" "r = join ''/'' (map (\<lambda>_. ''..'') us @ ts)"
    using rel_comps_abs_path [OF abs_comps_ok, of "clean p"] rel_comps_abs_path [OF bs]
    by (auto simp: rel_def Let_def split: if_splits option.splits)
  from rel_strip_Some [OF s(1)] obtain ps where ps: "bs = ps @ us" "?t = ps @ ts" by blast
  have "us = []"
  proof (rule ccontr)
    assume "us \<noteq> []"
    then obtain u vs where "us = u # vs" by (cases us) auto
    then have "escapes r" using s(2) escapes_up by simp
    with assms(3) show False by simp
  qed
  with ps have "?t = bs @ ts" by simp
  moreover from this have "ts \<noteq> []" using t False by auto
  moreover have "comps_ok (bs @ ts)" using abs_comps_ok [of "clean p"] \<open>?t = bs @ ts\<close> by metis
  ultimately show ?thesis using s(2) \<open>us = []\<close> by (intro exI [of _ ts]) simp
qed

lemma join_inside:
  "comps_ok (bs @ cs) \<Longrightarrow> r = (if cs = [] then ''.'' else join ''/'' cs) \<Longrightarrow> join_path [abs_path bs, r] = abs_path (bs @ cs)"
  using join_path_abs [of bs "''.''"] join_path_rel [of bs cs] by (auto simp: clean_step_def simp del: join_path.simps)

lemma save_file_inside:
  assumes "save_file w f = Inr rs" and "RootDir (conf w) = abs_path bs" and "comps_ok bs" and "r \<in> set rs"
  shows "\<exists>cs. comps_ok (bs @ cs) \<and> join_path [abs_path bs, r] = abs_path (bs @ cs)"
proof -
  from assms have "\<exists>p. rel (abs_path bs) p = Inr r \<and> \<not> escapes r"
    by (auto simp: save_file_def rel_to_root_def split: sum.splits if_splits)
  with assms(3) show ?thesis using rel_inside join_inside by blast
qed

lemma save_file_rel: "save_file w f = Inr rs \<Longrightarrow> \<exists>r \<in> set rs. rel (RootDir (conf w)) f = Inr r"
  by (auto simp: save_file_def rel_to_root_def split: sum.splits if_splits)

text \<open>C30. The files of a stage that are kept for later stages: every path returned, joined to the build root, stays
  below the root, and every file that a recorded path matches is covered by a returned path at or above it.\<close>

theorem filesToSave_confined:
  assumes "filesToSave w deps = Inr fs" and "RootDir (conf w) = abs_path bs" and "comps_ok bs"
  shows "(\<forall>f \<in> set fs. \<exists>cs. comps_ok cs \<and> join_path [RootDir (conf w), f] = abs_path (bs @ cs)) \<and>
    (\<forall>src \<in> set deps. \<forall>ms. Glob (files w) (join_path [RootDir (conf w), src]) = Inr ms \<longrightarrow>
       (\<forall>m \<in> set ms. \<exists>r. rel (RootDir (conf w)) m = Inr r \<and>
          (\<exists>f \<in> set fs. Sublist.prefix (split_on CHR ''/'' f) (split_on CHR ''/'' r))))"
proof -
  let ?root = "RootDir (conf w)" and ?s = "split_on CHR ''/''"
  let ?saved = "\<lambda>src. rbind (Glob (files w) (join_path [?root, src])) (\<lambda>srcs. rbind (rmap (save_file w) srcs) (\<lambda>fss. Inr (concat fss)))"
  from assms(1) obtain fss where fss: "rmap ?saved deps = Inr fss" and fs: "fs = deduplicatePaths (concat fss)"
    unfolding filesToSave_def by (simp only: rbind_Inr_iff sum.inject) blast
  have "\<exists>cs. comps_ok cs \<and> join_path [?root, f] = abs_path (bs @ cs)" if "f \<in> set fs" for f
  proof -
    from that fs obtain fs' where "fs' \<in> set fss" "f \<in> set fs'" using deduplicatePaths_subset by fastforce
    with rmap_Inr_elem2 [OF fss] obtain ms rss where "rmap (save_file w) ms = Inr rss" "f \<in> set (concat rss)" by fastforce
    then obtain m rs where "save_file w m = Inr rs" "f \<in> set rs" using rmap_Inr_elem2 by fastforce
    with assms(2, 3) show ?thesis using save_file_inside by fastforce
  qed
  moreover have "\<exists>r. rel ?root m = Inr r \<and> (\<exists>f \<in> set fs. Sublist.prefix (?s f) (?s r))"
    if "src \<in> set deps" "Glob (files w) (join_path [?root, src]) = Inr ms" "m \<in> set ms" for src ms m
  proof -
    from rmap_Inr_elem1 [OF fss that(1)] that(2) obtain rss where
      rss: "rmap (save_file w) ms = Inr rss" "set (concat rss) \<subseteq> set (concat fss)" by fastforce
    from rmap_Inr_elem1 [OF rss(1) that(3)] obtain rs where "save_file w m = Inr rs" "set rs \<subseteq> set (concat rss)" by fastforce
    with rss(2) obtain r where "r \<in> set (concat fss)" "rel ?root m = Inr r" using save_file_rel by blast
    then show ?thesis using deduplicatePaths_above fs by blast
  qed
  ultimately show ?thesis by blast
qed

theorem filesToSave_confined_witness:
  "filesToSave (demo_world ''/box'') [''/*'', ''/usr/sh''] = Inr [''usr'', ''bin''] \<and>
   (\<exists>cs. comps_ok cs \<and> join_path [''/box'', ''bin''] = abs_path ([''box''] @ cs))"
proof
  show f: "filesToSave (demo_world ''/box'') [''/*'', ''/usr/sh''] = Inr [''usr'', ''bin'']" by code_simp
  have "RootDir (conf (demo_world ''/box'')) = abs_path [''box'']" "comps_ok [''box'']" by code_simp+
  from filesToSave_confined [OF f this] show "\<exists>cs. comps_ok cs \<and> join_path [''/box'', ''bin''] = abs_path ([''box''] @ cs)"
    by (simp add: demo_world_def)
qed

end
