(* ===== verification/Stage_Build.thy ===== *)
theory Stage_Build
  imports Stage_Deps Composite_Cache
begin

text \<open>
  \<open>pkg/executor/build.go\<close>: the \<open>stageBuilder\<close> that optimises and runs the commands of one
  stage. The fields of \<open>stageBuilder\<close> are those of the code; the configuration, the
  build arguments and the world are its \<open>cst\<close>. A snapshot is the entries of its tar file, \<open>None\<close> for the empty path. The
  layers pushed to the cache while the stage is built (goroutines that only read the tar file, and whose errors are
  logged) are listed in \<open>pushed\<close>.
\<close>

subsection \<open>Media types and layers\<close>

definition OCIVendorPrefix :: string where "OCIVendorPrefix = ''vnd.oci''"
definition DockerVendorPrefix :: string where "DockerVendorPrefix = ''vnd.docker''"
definition OCIContentDescriptor :: string where "OCIContentDescriptor = ''application/vnd.oci.descriptor.v1+json''"
definition OCIImageIndex :: string where "OCIImageIndex = ''application/vnd.oci.image.index.v1+json''"
definition OCIManifestSchema1 :: string where "OCIManifestSchema1 = ''application/vnd.oci.image.manifest.v1+json''"
definition OCIConfigJSON :: string where "OCIConfigJSON = ''application/vnd.oci.image.config.v1+json''"
definition OCILayer :: string where "OCILayer = ''application/vnd.oci.image.layer.v1.tar+gzip''"
definition OCILayerZStd :: string where "OCILayerZStd = ''application/vnd.oci.image.layer.v1.tar+zstd''"
definition OCIRestrictedLayer :: string where "OCIRestrictedLayer = ''application/vnd.oci.image.layer.nondistributable.v1.tar+gzip''"
definition OCIUncompressedLayer :: string where "OCIUncompressedLayer = ''application/vnd.oci.image.layer.v1.tar''"
definition OCIUncompressedRestrictedLayer :: string where
  "OCIUncompressedRestrictedLayer = ''application/vnd.oci.image.layer.nondistributable.v1.tar''"
definition DockerManifestSchema1 :: string where "DockerManifestSchema1 = ''application/vnd.docker.distribution.manifest.v1+json''"
definition DockerManifestList :: string where "DockerManifestList = ''application/vnd.docker.distribution.manifest.list.v2+json''"
definition DockerConfigJSON :: string where "DockerConfigJSON = ''application/vnd.docker.container.image.v1+json''"
definition DockerForeignLayer :: string where "DockerForeignLayer = ''application/vnd.docker.image.rootfs.foreign.diff.tar.gzip''"
definition DockerUncompressedLayer :: string where "DockerUncompressedLayer = ''application/vnd.docker.image.rootfs.diff.tar''"

definition extractMediaTypeVendor :: "string \<Rightarrow> string" where
  "extractMediaTypeVendor mt = (if contains mt OCIVendorPrefix then OCIVendorPrefix else DockerVendorPrefix)"

definition convertMediaType :: "string \<Rightarrow> string" where
  "convertMediaType mt =
     (if mt = DockerManifestSchema1 \<or> mt = DockerManifestSchema2 then OCIManifestSchema1
      else if mt = DockerManifestList then OCIImageIndex
      else if mt = DockerLayer then OCILayer
      else if mt = DockerConfigJSON then OCIConfigJSON
      else if mt = DockerForeignLayer then OCIUncompressedRestrictedLayer
      else if mt = DockerUncompressedLayer then OCIUncompressedLayer
      else if mt = OCIImageIndex then DockerManifestList
      else if mt = OCIManifestSchema1 then DockerManifestSchema2
      else if mt = OCIConfigJSON then DockerConfigJSON
      else if mt = OCILayer \<or> mt = OCILayerZStd then DockerLayer
      else if mt = OCIRestrictedLayer then DockerForeignLayer
      else if mt = OCIUncompressedLayer then DockerUncompressedLayer
      else [])"

text \<open>The options of the tarball package for a layer, and the layer it makes of a tar stream: compression does not
  change the stream, and the media type is Docker's unless one is given.\<close>

datatype LayerOption = WithCompressedCaching | WithCompressionLevel int | WithCompression string | WithMediaType string

definition layer_from :: "tar_entry list res \<Rightarrow> LayerOption list \<Rightarrow> layer" where
  "layer_from ts os =
     \<lparr>layer_media = Inr (fold (\<lambda>x m. case x of WithMediaType t \<Rightarrow> t | _ \<Rightarrow> m) os DockerLayer), layer_tar = ts\<rparr>"

definition getLayerOptionFromOpts :: "KanikoOptions \<Rightarrow> LayerOption list" where
  "getLayerOptionFromOpts opts =
     (if CompressedCaching opts then [WithCompressedCaching] else [])
     @ (if CompressionLevel opts > 0 then [WithCompressionLevel (CompressionLevel opts)] else [])"

subsection \<open>The stage builder\<close>

record stageBuilder =
  cst :: cstate
  bnet :: net
  sb_stage :: KanikoStage
  sb_image :: image
  baseImageDigest :: string
  finalCacheKey :: string
  sb_opts :: KanikoOptions
  sb_context :: FileContext
  sb_cmds :: "DockerCommand list"
  crossStageDeps :: "(int, string list) gomap"
  digestToCacheKey :: "(string, string) gomap"
  snapshotter :: Snapshotter
  sb_hasher :: "filesys \<Rightarrow> hasher"
  shared_args :: BuildArgs
  pushed :: "(string \<times> tar_entry list option \<times> string) list"

text \<open>\<open>shared_args\<close> is what the pointer to the build arguments that \<open>DoBuild\<close> took before the build points to.\<close>

definition on_cs :: "(cstate, 'a) act \<Rightarrow> (stageBuilder, 'a) act" where
  "on_cs m s = (case m (cst s) of (r, c) \<Rightarrow> (r, s\<lparr>cst := c\<rparr>))"

definition on_bnet :: "(net, 'a) act \<Rightarrow> (stageBuilder, 'a) act" where
  "on_bnet m s = (case m (bnet s) of (r, n) \<Rightarrow> (r, s\<lparr>bnet := n\<rparr>))"

definition on_snap :: "(world \<Rightarrow> hasher \<Rightarrow> (Snapshotter, 'a) act) \<Rightarrow> (stageBuilder, 'a) act" where
  "on_snap m s =
     (let w = wld (cst s) in case m w (sb_hasher s (files w)) (snapshotter s) of (r, t) \<Rightarrow> (r, s\<lparr>snapshotter := t\<rparr>))"

fun get_commands :: "KanikoOptions \<Rightarrow> FileContext \<Rightarrow> Command list \<Rightarrow> DockerCommand list res" where
  "get_commands opts context [] = Inr []"
| "get_commands opts context (k # ks) =
     rbind (GetCommand k context (RunV2 opts) (CacheCopyLayers opts) (CacheRunLayers opts)) (\<lambda>c.
     rbind (get_commands opts context ks) (\<lambda>cs. Inr (case c of None \<Rightarrow> cs | Some d \<Rightarrow> d # cs)))"

text \<open>The digest of an image: the one it was loaded with, or the hash of its manifest.\<close>

definition img_Digest :: "registry \<Rightarrow> image \<Rightarrow> string res" where
  "img_Digest R img = (case known_digest img of Some d \<Rightarrow> Inr d | None \<Rightarrow> image_digest R img)"

definition newStageBuilder :: "executor \<Rightarrow> BuildArgs option \<Rightarrow> KanikoOptions \<Rightarrow> KanikoStage \<Rightarrow> (int, string list) gomap \<Rightarrow>
    (string, string) gomap \<Rightarrow> (string, string) gomap \<Rightarrow> FileContext \<Rightarrow> arrays \<Rightarrow> (site, stageBuilder) act" where
  "newStageBuilder E args_opt opts s deps dcm stageNameToIdx context h =
     sbind (sgets fst) (\<lambda>w.
     sbind (in_net (RetrieveSourceImage (ex_registry E) (lib (ex_host E)) w opts s)) (\<lambda>sourceImage.
     sbind (sreads (\<lambda>_. initConfig sourceImage opts)) (\<lambda>imageConfig.
     sbind (sreads (\<lambda>_. resolveOnBuild (ex_parser E) (stage s) (Config imageConfig) stageNameToIdx)) (\<lambda>(st, c).
     sthen (swrap ''failed to initialize ignore list'' (in_wld InitIgnoreList))
    (sbind (sreads (\<lambda>_. getHasher (ex_highway E) (ex_md5 E) (ex_time E) (SnapshotMode opts))) (\<lambda>hash.
     sbind (sreads (\<lambda>_. img_Digest (ex_registry E) sourceImage)) (\<lambda>digest.
     sbind (sreads (\<lambda>_. get_commands opts context (Commands st))) (\<lambda>cmds.
     sbind (sgets (\<lambda>x. x)) (\<lambda>(w, n).
       let a = AddMetaArgs (MetaArgs s) (case args_opt of Some a \<Rightarrow> a | None \<Rightarrow> NewBuildArgs (BuildArgs_opt opts))
       in sret \<lparr>cst = \<lparr>wld = w, cfg = c, args = a, arrs = h\<rparr>, bnet = n, sb_stage = s\<lparr>stage := st\<rparr>, sb_image = sourceImage,
                baseImageDigest = digest, finalCacheKey = [], sb_opts = opts, sb_context = context, sb_cmds = cmds,
                crossStageDeps = deps, digestToCacheKey = dcm, snapshotter = NewSnapshotter w NewLayeredMap (RootDir (conf w)),
                sb_hasher = hash, shared_args = a, pushed = []\<rparr>)))))))))"

subsection \<open>Cache keys\<close>

definition populateCompositeKey :: "executor \<Rightarrow> FileContext \<Rightarrow> filesys \<Rightarrow> DockerCommand \<Rightarrow> string list \<Rightarrow> CompositeCache \<Rightarrow>
    BuildArgs \<Rightarrow> string list \<Rightarrow> CompositeCache res" where
  "populateCompositeKey E context fs command used compositeKey a env =
     (let replacementEnvs = sort (ReplacementEnvs a env);
          k = (if IsArgsEnvsRequiredInCache command \<and> replacementEnvs \<noteq> []
               then AddKey replacementEnvs (AddKey [''|'' @ itoa (int (length replacementEnvs))] compositeKey)
               else compositeKey)
      in rfold (\<lambda>f. AddPath (ex_sha256 E) (ex_md5 E) fs f context) used (AddKey [cmd_String command] k))"

definition command_key :: "executor \<Rightarrow> DockerCommand \<Rightarrow> string list \<Rightarrow> CompositeCache \<Rightarrow> stageBuilder \<Rightarrow> CompositeCache res" where
  "command_key E command used key s =
     populateCompositeKey E (sb_context s) (files (wld (cst s))) command used key (args (cst s)) (env_of (cfg (cst s)))"

text \<open>The loop of \<open>optimize\<close> over the commands.\<close>

fun optimize_loop :: "executor \<Rightarrow> CompositeCache \<Rightarrow> bool \<Rightarrow> DockerCommand list \<Rightarrow> (stageBuilder, DockerCommand list) act" where
  "optimize_loop E key stopCache [] = sret []"
| "optimize_loop E key stopCache (command # rest) =
     sbind (swrap ''failed to get files used from context''
              (sreads (\<lambda>s. FilesUsedFromContext (ex_host E) command (cst s)))) (\<lambda>used.
     sbind (sreads (command_key E command used key)) (\<lambda>key.
       let ck = cc_Hash (ex_sha256 E) key
       in sthen (smodify (\<lambda>s. s\<lparr>finalCacheKey := ck\<rparr>))
         (sbind (if ShouldCacheOutput command \<and> \<not> stopCache
                 then sbind (sgets (\<lambda>s. (files (wld (cst s)), sb_opts s))) (\<lambda>(fs, opts).
                        sbind (stry (on_bnet (RetrieveLayer (ex_registry E) fs opts ck))) (\<lambda>r. sret (Some r)))
                 else sret None) (\<lambda>found. case found of
            Some (Inl _) \<Rightarrow> sbind (optimize_loop E key True rest) (\<lambda>cmds. sret (command # cmds))
          | Some (Inr img) \<Rightarrow>
              let cached = CacheCommand command (Some (img_layers img))
              in sbind (if MetadataOnly command then on_cs (ExecuteCommand (ex_host E) command) else sret command) (\<lambda>c.
                 sbind (optimize_loop E key stopCache rest) (\<lambda>cmds.
                   sret ((case cached of Some k \<Rightarrow> k | None \<Rightarrow> c) # cmds)))
          | None \<Rightarrow>
              sbind (if MetadataOnly command then on_cs (ExecuteCommand (ex_host E) command) else sret command) (\<lambda>c.
              sbind (optimize_loop E key stopCache rest) (\<lambda>cmds. sret (c # cmds)))))))"

text \<open>\<open>optimize\<close> works on a copy of the configuration, but the maps of the copy are those of the original; the build
  arguments are restored, by replacing them.\<close>

definition shares :: "'a option \<Rightarrow> 'a option \<Rightarrow> 'a option" where
  "shares orig copy = (case orig of None \<Rightarrow> None | Some _ \<Rightarrow> copy)"

definition restore_cfg :: "v1_Config \<Rightarrow> v1_Config \<Rightarrow> v1_Config" where
  "restore_cfg orig copy =
     orig\<lparr>Labels := shares (Labels orig) (Labels copy), ExposedPorts := shares (ExposedPorts orig) (ExposedPorts copy),
          Volumes := shares (Volumes orig) (Volumes copy)\<rparr>"

definition optimize :: "executor \<Rightarrow> CompositeCache \<Rightarrow> (stageBuilder, unit) act" where
  "optimize E compositeKey s =
     (if \<not> Cache (sb_opts s) then (Inr (), s)
      else case optimize_loop E compositeKey False (sb_cmds s) s of (r, t) \<Rightarrow>
        let t' = t\<lparr>cst := (cst t)\<lparr>cfg := restore_cfg (cfg (cst s)) (cfg (cst t)), args := args (cst s)\<rparr>, shared_args := args (cst t)\<rparr>
        in case r of Inl e \<Rightarrow> (Inl e, t') | Inr cmds \<Rightarrow> (Inr (), t'\<lparr>sb_cmds := cmds\<rparr>))"

subsection \<open>Layers of the image\<close>

definition convertLayerMediaType :: "layer \<Rightarrow> stageBuilder \<Rightarrow> layer res" where
  "convertLayerMediaType l s =
     rbind (layer_media l) (\<lambda>layerMediaType.
     rbind (img_media (sb_image s)) (\<lambda>imageMediaType.
       if extractMediaTypeVendor layerMediaType \<noteq> extractMediaTypeVendor imageMediaType then
         let zstd = extractMediaTypeVendor imageMediaType = OCIVendorPrefix \<and> Compression_opt (sb_opts s) = ZStd;
             targetMediaType = (if zstd then OCILayerZStd else convertMediaType layerMediaType);
             layerOpts = getLayerOptionFromOpts (sb_opts s) @ (if zstd then [WithCompression ''zstd''] else [])
                         @ [WithMediaType targetMediaType]
         in if targetMediaType \<noteq> [] then Inr (layer_from (layer_tar l) layerOpts)
            else Inl (Msg (''layer with media type '' @ layerMediaType @ '' cannot be converted to a media type that matches '' @ imageMediaType))
       else Inr l))"

definition saveLayerToImage :: "layer option \<Rightarrow> string \<Rightarrow> (stageBuilder, unit) act" where
  "saveLayerToImage lo createdBy =
     (case lo of
        None \<Rightarrow> sfail (Panic ''nil pointer dereference'')
      | Some l \<Rightarrow>
          sbind (sreads (convertLayerMediaType l)) (\<lambda>l.
            smodify (\<lambda>s. s\<lparr>sb_image := mutate_Append (sb_image s) l createdBy\<rparr>)))"

text \<open>A tar file without entries has the size of an empty one.\<close>

definition saveSnapshotToLayer :: "tar_entry list option \<Rightarrow> stageBuilder \<Rightarrow> layer option res" where
  "saveSnapshotToLayer snap s =
     (case snap of
        None \<Rightarrow> Inr None
      | Some es \<Rightarrow>
          if es = [] \<and> \<not> ForceBuildMetadata (sb_opts s) then Inr None
          else rbind (img_media (sb_image s)) (\<lambda>imageMediaType.
            let layerOpts = getLayerOptionFromOpts (sb_opts s) @
                  (if extractMediaTypeVendor imageMediaType = OCIVendorPrefix then
                     (if Compression_opt (sb_opts s) = ZStd then [WithCompression ''zstd'', WithMediaType OCILayerZStd]
                      else [WithMediaType OCILayer])
                   else [])
            in Inr (Some (layer_from (Inr es) layerOpts))))"

definition saveSnapshotToImage :: "string \<Rightarrow> tar_entry list option \<Rightarrow> (stageBuilder, unit) act" where
  "saveSnapshotToImage createdBy snap =
     sbind (sreads (saveSnapshotToLayer snap)) (\<lambda>l. case l of None \<Rightarrow> sret () | Some _ \<Rightarrow> saveLayerToImage l createdBy)"

definition takeSnapshot :: "string list option \<Rightarrow> bool \<Rightarrow> (stageBuilder, tar_entry list option) act" where
  "takeSnapshot fls shdDelete s =
     (case fls of
        Some fs \<Rightarrow>
          (if SingleSnapshot (sb_opts s) then sbind (on_snap TakeSnapshotFS) (\<lambda>es. sret (Some es)) s
           else on_snap (\<lambda>w h. TakeSnapshot w h (fs @ volumes w) shdDelete (ForceBuildMetadata (sb_opts s))) s)
      | None \<Rightarrow> sbind (on_snap TakeSnapshotFS) (\<lambda>es. sret (Some es)) s)"

definition shouldTakeSnapshot :: "stageBuilder \<Rightarrow> nat \<Rightarrow> bool \<Rightarrow> bool" where
  "shouldTakeSnapshot s index isMetadatCmd =
     (let isLastCommand = (Suc index = length (sb_cmds s))
      in if SingleSnapshot (sb_opts s) then isLastCommand
         else if Cache (sb_opts s) then True
         else \<not> isMetadatCmd)"

definition cached_layer :: "DockerCommand \<Rightarrow> layer option" where
  "cached_layer c = (case c of CachingRunCommand _ _ l _ \<Rightarrow> l | CachingCopyCommand _ _ _ l _ \<Rightarrow> l | _ \<Rightarrow> None)"

subsection \<open>Running the commands of a stage\<close>

definition initSnapshotWithTimings :: "(stageBuilder, unit) act" where
  "initSnapshotWithTimings = on_snap sn_Init"

text \<open>What happens after a command has run: nothing, its cached layer, or a snapshot that may be pushed to the
  cache.\<close>

definition save_command :: "executor \<Rightarrow> CompositeCache \<Rightarrow> DockerCommand \<Rightarrow> (stageBuilder, unit) act" where
  "save_command E key command =
     (if is_cached command
      then swrap ''failed to save layer'' (saveLayerToImage (cached_layer command) (cmd_String command))
      else
        sbind (swrap ''failed to take snapshot'' (takeSnapshot (FilesToSnapshot command) (ShouldDetectDeletedFiles command))) (\<lambda>snap.
        sthen (smodify (\<lambda>s. if Cache (sb_opts s) \<and> ShouldCacheOutput command \<and> \<not> NoPushCache (sb_opts s)
                            then s\<lparr>pushed := pushed s @ [(cc_Hash (ex_sha256 E) key, snap, cmd_String command)]\<rparr> else s))
              (swrap ''failed to save snapshot to image'' (saveSnapshotToImage (cmd_String command) snap))))"

definition build_command :: "executor \<Rightarrow> nat \<Rightarrow> DockerCommand \<Rightarrow> CompositeCache \<times> bool \<Rightarrow> (stageBuilder, CompositeCache \<times> bool) act" where
  "build_command E index command st =
     (case st of (key, initSnapshotTaken) \<Rightarrow>
       sbind (swrap ''failed to get files used from context''
                (sreads (\<lambda>s. FilesUsedFromContext (ex_host E) command (cst s)))) (\<lambda>used.
       sbind (sgets (\<lambda>s. Cache (sb_opts s))) (\<lambda>useCache.
       sbind (if useCache then sreads (command_key E command used key) else sret key) (\<lambda>key.
         let init = \<not> initSnapshotTaken \<and> \<not> is_cached command \<and> \<not> ProvidesFilesToSnapshot command
         in sthen (swhen init initSnapshotWithTimings)
           (sbind (swrap ''failed to execute command'' (on_cs (ExecuteCommand (ex_host E) command))) (\<lambda>command.
            sbind (sgets (\<lambda>s. shouldTakeSnapshot s index (MetadataOnly command) \<or> ForceBuildMetadata (sb_opts s))) (\<lambda>snap.
            sthen (swhen snap (save_command E key command))
                  (sret (key, initSnapshotTaken \<or> init)))))))))"

fun build_loop :: "executor \<Rightarrow> nat \<Rightarrow> DockerCommand list \<Rightarrow> CompositeCache \<times> bool \<Rightarrow> (stageBuilder, unit) act" where
  "build_loop E index [] st = sret ()"
| "build_loop E index (c # rest) st = sbind (build_command E index c st) (build_loop E (Suc index) rest)"

definition base_key :: "stageBuilder \<Rightarrow> CompositeCache" where
  "base_key s =
     NewCompositeCache [case gm_get (digestToCacheKey s) (baseImageDigest s) of Some k \<Rightarrow> k | None \<Rightarrow> baseImageDigest s]"

definition shouldUnpack :: "stageBuilder \<Rightarrow> bool" where
  "shouldUnpack s \<longleftrightarrow>
     (list_ex RequiresUnpackedFS (sb_cmds s) \<or>
      (case gm_get (crossStageDeps s) (int (Index (sb_stage s))) of None \<Rightarrow> False | Some ps \<Rightarrow> ps \<noteq> []))
     \<and> \<not> (Index (sb_stage s) = 0 \<and> InitialFSUnpacked (sb_opts s))"

definition unpack :: "(stageBuilder, unit) act" where
  "unpack s =
     on_cs (on_world (swrap ''failed to get filesystem from image''
       (Retry (ImageFSExtractRetry (sb_opts s)) (\<lambda>w.
          sthen (GetFSFromImage (RootDir (conf w)) (Some (layer_tars (sb_image s))) ExtractFile) (sret ()) w)))) s"

definition build :: "executor \<Rightarrow> (stageBuilder, unit) act" where
  "build E =
     sbind (sgets base_key) (\<lambda>compositeKey.
     sthen (swrap ''failed to optimize instructions'' (optimize E compositeKey))
    (sbind (sgets shouldUnpack) (\<lambda>u.
     sthen (swhen u unpack)
    (sbind (sgets (\<lambda>s. (SingleSnapshot (sb_opts s), sb_cmds s))) (\<lambda>(single, cmds).
     sthen (swhen single initSnapshotWithTimings)
           (build_loop E 0 cmds (compositeKey, single)))))))"

end
