(* ===== verification/Do_Build.thy ===== *)
theory Do_Build
  imports Stage_Build Command_Props
begin

text \<open>
  \<open>DoBuild\<close> of \<open>pkg/executor/build.go\<close>: parse the Dockerfile, resolve the stages, build them one after the other, and keep
  from each what later stages need before its file system is deleted. The state is the world and the network
  (\<open>site\<close>); the arrays of the slices, the build arguments and the map from image digests to cache keys go from stage
  to stage.
\<close>

subsection \<open>One stage\<close>

definition run_stage :: "executor \<Rightarrow> stageBuilder \<Rightarrow> (site, stageBuilder) act" where
  "run_stage E sb _ =
     (case build E sb of (r, t) \<Rightarrow> (rbind (wrap ''error building stage'' r) (\<lambda>_. Inr t), wld (cst t), bnet t))"

definition set_platform :: "executor \<Rightarrow> string \<Rightarrow> ConfigFile \<Rightarrow> ConfigFile res" where
  "set_platform E platform cf =
     (if platform = [] then Inr (cf\<lparr>OS := GOOS E, Architecture := GOARCH E\<rparr>)
      else rbind (at (split_on CHR ''/'' platform) 0) (\<lambda>os.
           rbind (at (split_on CHR ''/'' platform) 1) (\<lambda>arch. Inr (cf\<lparr>OS := os, Architecture := arch\<rparr>))))"

text \<open>The image of a stage that has been built.\<close>

definition stage_image :: "executor \<Rightarrow> KanikoOptions \<Rightarrow> KanikoStage \<Rightarrow> stageBuilder \<Rightarrow> image res" where
  "stage_image E opts s sb =
     rbind (mutate_Config (sb_image sb) (reviewConfig (stage s) (cfg (cst sb)))) (\<lambda>sourceImage.
     rbind (img_config sourceImage) (\<lambda>configFile.
     rbind (set_platform E (CustomPlatform opts) configFile) (mutate_ConfigFile sourceImage)))"

definition mutate_CreatedAt :: "image \<Rightarrow> int \<Rightarrow> image res" where
  "mutate_CreatedAt img created = rbind (img_config img) (\<lambda>cf. mutate_ConfigFile img (cf\<lparr>Created := created\<rparr>))"

definition finish :: "executor \<Rightarrow> KanikoOptions \<Rightarrow> image \<Rightarrow> (site, image) act" where
  "finish E opts img =
     sbind (sreads (\<lambda>_. mutate_CreatedAt img (now (ex_registry E)))) (\<lambda>img.
     sbind (if Reproducible opts then sreads (\<lambda>_. Canonical E img) else sret img) (\<lambda>img.
     sthen (swhen (Cleanup opts) (in_wld DeleteFilesystem)) (sret img)))"

text \<open>What is kept of a stage before its file system is deleted.\<close>

definition keep_stage :: "executor \<Rightarrow> KanikoStage \<Rightarrow> nat \<Rightarrow> string list \<Rightarrow> image \<Rightarrow> (world, unit) act" where
  "keep_stage E s index deps img =
     sthen (swhen (SaveStage s) (saveStageAsTarball E (itoa (int index)) img))
    (sbind (sreads (\<lambda>w. filesToSave w deps)) (\<lambda>saved.
     sbind (sgets (\<lambda>w. (join_path [KanikoDir (conf w), itoa (int index)], RootDir (conf w)))) (\<lambda>(dstDir, root).
     sthen (swrap ''to create workspace for stage'' (on_files (os_MkdirAll dstDir 420)))
    (sthen (swrap ''could not save file'' (sfold (\<lambda>p. CopyFileOrSymlink (copy_tree E) p dstDir root) saved))
           (swrap (''deleting file system after stage '' @ itoa (int index)) DeleteFilesystem)))))"

subsection \<open>The stages in order\<close>

text \<open>\<open>None\<close> is the nil image of a list of stages without a final one.\<close>

fun build_stages :: "executor \<Rightarrow> KanikoOptions \<Rightarrow> (string, string) gomap \<Rightarrow> (int, string list) gomap \<Rightarrow> FileContext \<Rightarrow>
    (string, string) gomap \<Rightarrow> BuildArgs option \<Rightarrow> arrays \<Rightarrow> nat \<Rightarrow> KanikoStage list \<Rightarrow> (site, image option) act" where
  "build_stages E opts names deps context dcm a h index [] = sret None"
| "build_stages E opts names deps context dcm a h index (s # ss) =
     sbind (newStageBuilder E a opts s deps dcm names context h) (\<lambda>sb.
     sbind (run_stage E sb) (\<lambda>sb.
     sbind (sreads (\<lambda>_. stage_image E opts s sb)) (\<lambda>img.
     sbind (sreads (\<lambda>_. img_Digest (ex_registry E) img)) (\<lambda>d.
       if Final s then sbind (finish E opts img) (\<lambda>i. sret (Some i))
       else
         sthen (in_wld (keep_stage E s index (case gm_get deps (int index) of None \<Rightarrow> [] | Some ps \<Rightarrow> ps) img))
           (build_stages E opts names deps context (gm_set dcm d (finalCacheKey sb))
              (Some (if Cache opts then shared_args sb else args (cst sb))) (arrs (cst sb)) (Suc index) ss)))))"

definition DoBuild :: "executor \<Rightarrow> KanikoOptions \<Rightarrow> arrays \<Rightarrow> (site, image option) act" where
  "DoBuild E opts h =
     sbind (sreads (\<lambda>(w, _). ParseStages (ex_parser E) (lib (ex_host E)) w opts)) (\<lambda>(stages, metaArgs).
     sbind (sreads (\<lambda>_. MakeKanikoStages (lib (ex_host E)) opts stages metaArgs)) (\<lambda>kanikoStages.
       case ResolveCrossStageInstructions kanikoStages of (ks, names) \<Rightarrow>
     sbind (sreads (\<lambda>(w, _). NewFileContextFromDockerfile (read_dockerignore E) (ignore_matches E) w
                      (DockerfilePath opts) (SrcContext opts))) (\<lambda>context.
     sthen (fetchExtraStages E ks opts)
    (sbind (sgets fst) (\<lambda>w.
     sbind (in_net (CalculateDependencies (ex_registry E) (ex_parser E) (lib (ex_host E)) w ks opts names)) (\<lambda>deps.
       build_stages E opts names deps context [] None h 0 ks))))))"

subsection \<open>The file system stays well formed\<close>

definition sb_ok :: "stageBuilder \<Rightarrow> bool" where
  "sb_ok s \<longleftrightarrow> cs_ok (cst s)"

definition site_ok :: "site \<Rightarrow> bool" where
  "site_ok s \<longleftrightarrow> world_ok (fst s)"

text \<open>An executor whose libraries leave a well-formed file system.\<close>

definition executor_ok :: "executor \<Rightarrow> bool" where
  "executor_ok E \<longleftrightarrow> host_ok (ex_host E) \<and> (\<forall>a b. keeps fs_ok (copy_tree E a b))"

lemma keeps_lifts [keeps_rules]:
  "keeps cs_ok m \<Longrightarrow> keeps sb_ok (on_cs m)" "keeps sb_ok (on_bnet n)" "keeps sb_ok (on_snap k)"
  "keeps world_ok w \<Longrightarrow> keeps site_ok (in_wld w)" "keeps site_ok (in_net n)"
  by (fastforce simp: keeps_def sb_ok_def site_ok_def on_cs_def on_bnet_def on_snap_def in_wld_def in_net_def Let_def
      split: prod.splits)+

lemma keeps_smodify: "(\<And>s. P (f s) = P s) \<Longrightarrow> keeps P (smodify f)"
  by (simp add: keeps_def smodify_def)

lemma keeps_smodify_sb [keeps_rules]:
  "keeps sb_ok (smodify (\<lambda>s. s\<lparr>finalCacheKey := f s\<rparr>))" "keeps sb_ok (smodify (\<lambda>s. s\<lparr>sb_image := g s\<rparr>))"
  "keeps sb_ok (smodify (\<lambda>s. if b s then s\<lparr>pushed := h s\<rparr> else s))"
  by (intro keeps_smodify, simp add: sb_ok_def)+

lemma keeps_optimize_loop: "executor_ok E \<Longrightarrow> keeps sb_ok (optimize_loop E key stop cmds)"
  by (induction cmds arbitrary: key stop)
    (auto intro!: keeps_rules keeps_ExecuteCommand simp: executor_ok_def)

lemma keeps_optimize:
  assumes "executor_ok E"
  shows "keeps sb_ok (optimize E key)"
proof (rule keeps_apply)
  fix s
  assume "sb_ok s"
  then have "sb_ok (snd (optimize_loop E key False (sb_cmds s) s))" by (rule keepsD [OF keeps_optimize_loop [OF assms]])
  with \<open>sb_ok s\<close> show "sb_ok (snd (optimize E key s))"
    by (auto simp: optimize_def sb_ok_def cs_ok_def Let_def split: prod.splits sum.splits)
qed

lemma keeps_takeSnapshot [keeps_rules]: "keeps sb_ok (takeSnapshot fls d)"
proof -
  have "sb_ok s \<Longrightarrow> sb_ok (snd (on_snap k s))" for s and k :: "world \<Rightarrow> hasher \<Rightarrow> (Snapshotter, tar_entry list option) act"
    by (rule keepsD [OF keeps_lifts(3)])
  moreover have "sb_ok s \<Longrightarrow> sb_ok (snd (sbind (on_snap TakeSnapshotFS) (\<lambda>es. sret (Some es)) s))" for s
    by (rule keepsD, intro keeps_rules)
  ultimately show ?thesis by (intro keeps_apply) (simp add: takeSnapshot_def split: option.split)
qed

lemma keeps_save_command: "keeps sb_ok (save_command E key command)"
  unfolding save_command_def saveLayerToImage_def saveSnapshotToImage_def by (intro keeps_rules)

lemma keeps_build_loop: "executor_ok E \<Longrightarrow> keeps sb_ok (build_loop E i cmds st)"
proof (induction cmds arbitrary: i st)
  case (Cons c cmds)
  then have "keeps cs_ok (ExecuteCommand (ex_host E) c)" by (intro keeps_ExecuteCommand) (simp add: executor_ok_def)
  with Cons show ?case
    unfolding build_loop.simps build_command_def initSnapshotWithTimings_def
    by (intro keeps_rules keeps_save_command) auto
qed simp

lemma keeps_GetFSFromImage [keeps_rules]: "keeps world_ok (GetFSFromImage root img ExtractFile)"
  unfolding GetFSFromImage_def by (intro keeps_rules)

lemma keeps_unpack: "keeps sb_ok unpack"
proof (rule keeps_apply)
  fix s :: stageBuilder
  let ?op = "\<lambda>w. sthen (GetFSFromImage (RootDir (conf w)) (Some (layer_tars (sb_image s))) ExtractFile) (sret ()) w"
  have "world_ok w \<Longrightarrow> world_ok (snd (sthen (GetFSFromImage r i ExtractFile) (sret ()) w))" for w r i
    by (rule keepsD, intro keeps_rules)
  then have "keeps world_ok ?op" by (intro keeps_apply)
  then have "keeps sb_ok (on_cs (on_world (swrap m (Retry k ?op))))" for m k by (intro keeps_rules keeps_Retry)
  then show "sb_ok s \<Longrightarrow> sb_ok (snd (unpack s))" unfolding unpack_def by (rule keepsD)
qed

lemma keeps_build: "executor_ok E \<Longrightarrow> keeps sb_ok (build E)"
  unfolding build_def initSnapshotWithTimings_def by (intro keeps_rules keeps_optimize keeps_build_loop keeps_unpack)

lemma keeps_new: "keeps site_ok (newStageBuilder E a opts s deps dcm names context h)"
  unfolding newStageBuilder_def by (intro keeps_rules)

lemma new_site: "newStageBuilder E a opts s deps dcm names context h st = (Inr sb, t) \<Longrightarrow> t = (wld (cst sb), bnet sb)"
  by (auto simp: newStageBuilder_def act_Inr Let_def)

lemma keeps_bind_post:
  "keeps P m \<Longrightarrow> (\<And>x s t. P s \<Longrightarrow> m s = (Inr x, t) \<Longrightarrow> P t \<Longrightarrow> P (snd (f x t))) \<Longrightarrow> keeps P (sbind m f)"
  by (fastforce simp: keeps_def sbind_def split: prod.splits sum.splits)

lemma keeps_CopyOwnership [keeps_rules]: "keeps world_ok (CopyOwnership src d root)"
proof -
  have "world_ok w \<Longrightarrow> world_ok (snd (sthen (chownTolerant p u g) (sret x) w))" for w p u g and x :: walk_ctl
    by (rule keepsD, intro keeps_rules)
  then show ?thesis
    unfolding CopyOwnership_def by (intro keeps_filepath_Walk keeps_apply) (simp add: Let_def split: sum.split del: join_path.simps)
qed

lemma keeps_CopyFileOrSymlink [keeps_rules]:
  "executor_ok E \<Longrightarrow> keeps world_ok (CopyFileOrSymlink (copy_tree E) p d r)"
  unfolding CopyFileOrSymlink_def by (intro keeps_rules) (simp_all add: executor_ok_def)

lemma keeps_keep_stage: "executor_ok E \<Longrightarrow> keeps world_ok (keep_stage E s i deps img)"
  unfolding keep_stage_def saveStageAsTarball_def by (intro keeps_rules)

lemma keeps_build_stages:
  assumes "executor_ok E"
  shows "keeps site_ok (build_stages E opts names deps context dcm a h i ss)"
proof (induction ss arbitrary: dcm a h i)
  case (Cons s ss)
  show ?case
    unfolding build_stages.simps
  proof (rule keeps_bind_post [OF keeps_new])
    fix sb st t
    assume new: "newStageBuilder E a opts s deps dcm names context h st = (Inr sb, t)" and "site_ok t"
    then have "sb_ok sb" using new_site [OF new] by (simp add: sb_ok_def cs_ok_def site_ok_def)
    then have "sb_ok (snd (build E sb))" by (rule keepsD [OF keeps_build [OF assms]])
    then have "keeps site_ok (run_stage E sb)"
      by (auto simp: keeps_def run_stage_def sb_ok_def cs_ok_def site_ok_def split: prod.splits)
    then show "site_ok (snd (sbind (run_stage E sb) (\<lambda>sb. sbind (sreads (\<lambda>_. stage_image E opts s sb)) (\<lambda>img.
        sbind (sreads (\<lambda>_. img_Digest (ex_registry E) img)) (\<lambda>d.
          if Final s then sbind (finish E opts img) (\<lambda>i. sret (Some i))
          else sthen (in_wld (keep_stage E s i (case gm_get deps (int i) of None \<Rightarrow> [] | Some ps \<Rightarrow> ps) img))
            (build_stages E opts names deps context (gm_set dcm d (finalCacheKey sb))
               (Some (if Cache opts then shared_args sb else args (cst sb))) (arrs (cst sb)) (Suc i) ss)))) t))"
      using \<open>site_ok t\<close> Cons.IH unfolding finish_def
      by (intro keepsD [where P = site_ok]) (intro keeps_rules keeps_keep_stage [OF assms])
  qed
qed simp

lemma keeps_fetch: "keeps site_ok (fetch_stages E opts i names ss)"
proof (induction ss arbitrary: i names)
  case (Cons s ss)
  then show ?case
    unfolding fetch_stages.simps fetch_extra_def saveStageAsTarball_def extractImageToDependencyDir_def
    by (intro keeps_rules)
qed simp


definition demo_dockerfile :: "Stage list" where
  "demo_dockerfile = [\<lparr>Name = ''base'', BaseName = ''scratch'', Commands = [inst ''WORKDIR /w'' (WorkdirInst ''/w'')]\<rparr>,
     \<lparr>Name = [], BaseName = ''scratch'', Commands = [inst ''ENV A=b'' (EnvInst [(''A'', ''b'')])]\<rparr>]"

definition demo_executor :: executor where
  "demo_executor = \<lparr>ex_host = plain_host, ex_registry = offline_registry,
     ex_parser = \<lparr>parse = (\<lambda>_. Inr (demo_dockerfile, [])), parse_nodes = (\<lambda>_. Inr []), parse_node = (\<lambda>_. Inl (Msg []))\<rparr>,
     ex_sha256 = (\<lambda>x. x), ex_md5 = (\<lambda>x. x), ex_highway = (\<lambda>x. x), ex_time = (\<lambda>_. []), read_dockerignore = (\<lambda>_. Inr []),
     ignore_matches = (\<lambda>_ _. Inr False), copy_tree = (\<lambda>_ _. sret ()), tarball_bytes = (\<lambda>_. Inr []), Canonical = Inr,
     GOOS = ''linux'', GOARCH = ''amd64''\<rparr>"

definition demo_site :: site where
  "demo_site = (let w = demo_world ''/'' in
     w\<lparr>conf := (conf w)\<lparr>MountInfoPath := ''/kaniko/mounts''\<rparr>,
       files := snd (os_WriteFile ''/kaniko/mounts'' [] 420 (snd (os_MkdirAll ''/kaniko'' 493
         (snd (os_WriteFile ''/Dockerfile'' [] 420 (files w))))))\<rparr>,
     \<lparr>requests = [], manifestCache = []\<rparr>)"

definition demo_opts :: KanikoOptions where
  "demo_opts = default_options\<lparr>DockerfilePath := ''/Dockerfile''\<rparr>"


end
