(* ===== verification/Warm_Cache.thy ===== *)
theory Warm_Cache
  imports Do_Build
begin

text \<open>
  \<open>pkg/cache/warm.go\<close>: filling the cache of base images. An image is written to temporary files in the cache directory, which
  are renamed when they are complete. The writer of tarballs and the names of temporary files are parameters.
\<close>

record WarmerOptions =
  warm_Cache :: CacheOptions
  warm_Registry :: RegistryOptions
  warm_Platform :: string
  warm_Images :: multiArg
  warm_Force :: bool
  warm_Dockerfile :: string
  warm_BuildArgs :: multiArg

record warm_libs =
  tarball_Write :: "reference \<Rightarrow> image \<Rightarrow> string res"
  RawManifest :: "image \<Rightarrow> string res"
  warm_random :: "filesys \<Rightarrow> string"

subsection \<open>Warming\<close>

text \<open>\<open>Warm\<close>: the digest of the image, and what it wrote to its two writers\<close>

definition Warm :: "registry \<Rightarrow> warm_libs \<Rightarrow> WarmerOptions \<Rightarrow> string \<Rightarrow> (site, string \<times> string \<times> string) act" where
  "Warm R L opts img =
     sbind (swrap (''Failed to verify image name: '' @ img) (sreads (\<lambda>_. parse_reference R img))) (\<lambda>cacheRef.
     sbind (swrap (''Failed to retrieve image: '' @ img) (in_net (RetrieveRemoteImage R img (warm_Registry opts) (warm_Platform opts)))) (\<lambda>i.
     sbind (swrap (''Failed to retrieve digest: '' @ img) (sreads (\<lambda>_. img_Digest R i))) (\<lambda>digest.
     sbind (sgets (\<lambda>s. \<not> warm_Force opts \<and>
              (case LocalSource R (files (fst s)) (warm_Cache opts) digest of Inr _ \<Rightarrow> True | Inl e \<Rightarrow> IsExpired e))) (\<lambda>cached.
       if cached then sfail (AlreadyCachedErr [])
       else
         sbind (swrap (''Failed to write '' @ img @ '' to tar buffer'') (sreads (\<lambda>_. tarball_Write L cacheRef i))) (\<lambda>tar.
         sbind (swrap (''Failed to retrieve manifest for '' @ img) (sreads (\<lambda>_. RawManifest L i))) (\<lambda>mfst.
           sret (digest, tar, mfst)))))))"

definition on_cache :: "(filesys, 'a) act \<Rightarrow> (site, 'a) act" where
  "on_cache m = in_wld (on_files m)"

definition publish :: "string \<Rightarrow> string \<Rightarrow> string \<Rightarrow> string \<times> string \<times> string \<Rightarrow> (site, unit) act" where
  "publish cacheDir f mtfsFile result =
     (case result of (digest, content, mfst) \<Rightarrow>
       let finalCachePath = join_path [cacheDir, digest]
       in sthen (on_cache (os_WriteFile f content 384))
         (sthen (on_cache (os_WriteFile mtfsFile mfst 384))
         (sthen (on_cache (os_Rename f finalCachePath))
                (swrap ''Failed to rename manifest file'' (on_cache (os_Rename mtfsFile (finalCachePath @ ''.json'')))))))"

definition warmToFile :: "registry \<Rightarrow> warm_libs \<Rightarrow> WarmerOptions \<Rightarrow> string \<Rightarrow> string \<Rightarrow> (site, unit) act" where
  "warmToFile R L opts cacheDir img =
     sbind (on_cache (os_CreateTemp (warm_random L) cacheDir ''warmingImage.'')) (\<lambda>f.
       deferred (on_cache (os_Remove f))
        (sbind (on_cache (os_CreateTemp (warm_random L) cacheDir ''warmingManifest.'')) (\<lambda>mtfsFile.
           deferred (on_cache (os_Remove mtfsFile))
            (sbind (stry (Warm R L opts img)) (\<lambda>r. case r of
                Inl e \<Rightarrow> if IsAlreadyCached e then sret () else sfail e
              | Inr result \<Rightarrow> publish cacheDir f mtfsFile result)))))"

definition warm_ParseDockerfile :: "parser \<Rightarrow> libs \<Rightarrow> filesys \<Rightarrow> WarmerOptions \<Rightarrow> string list res" where
  "warm_ParseDockerfile prs l fs opts =
     (let path = warm_Dockerfile opts;
          text = (if has_prefix path ''http://'' \<or> has_prefix path ''https://'' then rbind (http_Get l path) (\<lambda>r. Inr (body r))
                  else wrap (''reading dockerfile at path '' @ path) (os_ReadFile fs path))
      in rbind text (\<lambda>d.
         rbind (wrap ''parsing dockerfile'' (Parse prs d)) (\<lambda>(stages, _).
           rmap (\<lambda>s. wrap (''resolving base name '' @ BaseName s) (ResolveEnvironmentReplacement l (BaseName s) (warm_BuildArgs opts) False)) stages)))"

fun warm_all :: "registry \<Rightarrow> warm_libs \<Rightarrow> WarmerOptions \<Rightarrow> string list \<Rightarrow> (site, nat) act" where
  "warm_all R L opts [] = sret 0"
| "warm_all R L opts (img # imgs) =
     sbind (stry (warmToFile R L opts (CacheDir (warm_Cache opts)) img)) (\<lambda>r.
     sbind (warm_all R L opts imgs) (\<lambda>errs. sret (if is_ok r then errs else Suc errs)))"

definition WarmCache :: "parser \<Rightarrow> libs \<Rightarrow> registry \<Rightarrow> warm_libs \<Rightarrow> WarmerOptions \<Rightarrow> (site, unit) act" where
  "WarmCache prs l R L opts =
     sbind (if warm_Dockerfile opts \<noteq> []
            then swrap ''failed to parse Dockerfile'' (sreads (\<lambda>s. warm_ParseDockerfile prs l (files (fst s)) opts)) else sret []) (\<lambda>dockerfileImages.
       let images = warm_Images opts @ dockerfileImages
       in sbind (warm_all R L opts images) (\<lambda>errs.
            if length images = errs then sfail (Msg ''Failed to warm any of the given images'') else sret ()))"

subsection \<open>The warmer's command\<close>

text \<open>\<open>cmd/warmer/cmd/root.go\<close>: the cache directory is made if it is missing, and every error ends with exit code 1.\<close>

definition validateDockerfilePath :: "string \<Rightarrow> filesys \<Rightarrow> WarmerOptions \<Rightarrow> WarmerOptions res" where
  "validateDockerfilePath wd fs opts =
     (let p = warm_Dockerfile opts
      in if has_prefix p ''http://'' \<or> has_prefix p ''https://'' then Inr opts
         else if FilepathExists fs (if is_abs p then p else wd @ ''/'' @ p)
         then Inr (opts\<lparr>warm_Dockerfile := (if is_abs p then clean p else join_path [wd, p])\<rparr>)
         else Inl (Msg ''please provide a valid path to a Dockerfile within the build context with --dockerfile''))"

definition warmer_flags :: "string option \<Rightarrow> WarmerOptions \<Rightarrow> WarmerOptions" where
  "warmer_flags registry_map opts =
     (let set = (\<lambda>v r. r\<lparr>RegistryMaps := snd (multiKeyMultiValueArg_Set v (RegistryMaps r))\<rparr>);
          r = (case registry_map of None \<Rightarrow> warm_Registry opts | Some v \<Rightarrow> set v (warm_Registry opts))
      in opts\<lparr>warm_Registry := fold (\<lambda>target. set (''index.docker.io='' @ target)) (RegistryMirrors r) r\<rparr>)"

definition warmer_PreRun :: "string option \<Rightarrow> string \<Rightarrow> filesys \<Rightarrow> WarmerOptions \<Rightarrow> WarmerOptions res" where
  "warmer_PreRun registry_map wd fs opts =
     (let opts = warmer_flags registry_map opts
      in if warm_Images opts = [] \<and> warm_Dockerfile opts = []
         then Inl (Msg ''You must select at least one image to cache or a dockerfilepath to parse'')
         else if warm_Dockerfile opts \<noteq> [] then wrap ''error validating dockerfile path'' (validateDockerfilePath wd fs opts)
         else Inr opts)"

definition warmer_Run :: "parser \<Rightarrow> libs \<Rightarrow> registry \<Rightarrow> warm_libs \<Rightarrow> WarmerOptions \<Rightarrow> site \<Rightarrow> nat \<times> site" where
  "warmer_Run prs l R L opts s =
     (let d = CacheDir (warm_Cache opts);
          steps = sthen (sbind (sgets (\<lambda>s. os_Stat (files (fst s)) d)) (\<lambda>st. case st of
                      Inl e \<Rightarrow> swhen (is_not_exist e) (swrap ''Failed to create cache directory'' (on_cache (os_MkdirAll d 493)))
                    | Inr _ \<Rightarrow> sret ()))
                  (swrap ''Failed warming cache'' (WarmCache prs l R L opts))
      in case steps s of (Inr _, t) \<Rightarrow> (0, t) | (Inl _, t) \<Rightarrow> (1, t))"

subsection \<open>A warm-up that fails leaves no trace\<close>

definition world_is :: "world \<Rightarrow> site \<Rightarrow> bool" where
  "world_is w s \<longleftrightarrow> fst s = w"

lemma Warm_keeps_world: "keeps (world_is w) (Warm R L opts img)"
proof -
  have "keeps (world_is w) (in_net m)" for m :: "(net, image) act" by (auto simp: keeps_def world_is_def in_net_def split: prod.splits)
  then show ?thesis unfolding Warm_def by (intro keeps_rules)
qed

text \<open>The file system while an image is warmed: with the two temporary files\<close>

definition temp_file :: inode where "temp_file = new_inode (FReg []) (umask 384)"

definition with_image :: "warm_libs \<Rightarrow> string list \<Rightarrow> filesys \<Rightarrow> filesys" where
  "with_image L cs fs = add_entry (cs @ [''warmingImage.'' @ warm_random L fs]) temp_file fs"

definition with_manifest :: "warm_libs \<Rightarrow> string list \<Rightarrow> filesys \<Rightarrow> filesys" where
  "with_manifest L cs fs = add_entry (cs @ [''warmingManifest.'' @ warm_random L fs]) temp_file fs"


text \<open>An entry that is too old is not refreshed: the warmer takes it for present, the executor does not use it.\<close>

lemma expired_not_refreshed:
  assumes "\<not> warm_Force opts" and "parse_reference R img = Inr r"
    and "RetrieveRemoteImage R img (warm_Registry opts) (warm_Platform opts) m = (Inr i, m')" and "img_Digest R i = Inr d"
    and "LocalSource R (files w) (warm_Cache opts) d = Inl (ExpiredErr t)"
  shows "Warm R L opts img (w, m) = (Inl (AlreadyCachedErr []), w, m')"
  using assms by (simp add: Warm_def sbind_def swrap_def sreads_def sgets_def in_net_def sfail_def IsExpired_def)

definition demo_warm_libs :: warm_libs where
  "demo_warm_libs = \<lparr>tarball_Write = (\<lambda>_ _. Inr ''tar''), RawManifest = (\<lambda>_. Inr ''json''), warm_random = (\<lambda>_. ''42'')\<rparr>"

definition demo_warmer :: WarmerOptions where
  "demo_warmer = \<lparr>warm_Cache = \<lparr>CacheDir = ''/box'', CacheTTL = 1\<rparr>, warm_Registry = no_registry_options, warm_Platform = [],
     warm_Images = [''alpine''], warm_Force = False, warm_Dockerfile = [], warm_BuildArgs = []\<rparr>"


end
