(* ===== verification/Stage_Props.thy ===== *)
theory Stage_Props
  imports Do_Build
begin

text \<open>
  What building a stage does to the image: which layers it gets, with which media types and history; how many with a
  single snapshot; and under which keys its layers are looked up in the cache and pushed to it.
\<close>

subsection \<open>Media types\<close>

lemmas media_types = DockerManifestSchema1_def DockerManifestSchema2_def DockerManifestList_def DockerLayer_def
  DockerConfigJSON_def DockerForeignLayer_def DockerUncompressedLayer_def OCIImageIndex_def OCIManifestSchema1_def
  OCIConfigJSON_def OCILayer_def OCILayerZStd_def OCIRestrictedLayer_def OCIUncompressedLayer_def
  OCIUncompressedRestrictedLayer_def

lemma vendors:
  "extractMediaTypeVendor OCIManifestSchema1 = OCIVendorPrefix" "extractMediaTypeVendor OCIImageIndex = OCIVendorPrefix"
  "extractMediaTypeVendor OCILayer = OCIVendorPrefix" "extractMediaTypeVendor OCIConfigJSON = OCIVendorPrefix"
  "extractMediaTypeVendor OCIUncompressedRestrictedLayer = OCIVendorPrefix"
  "extractMediaTypeVendor OCIUncompressedLayer = OCIVendorPrefix" "extractMediaTypeVendor OCILayerZStd = OCIVendorPrefix"
  "extractMediaTypeVendor OCIRestrictedLayer = OCIVendorPrefix"
  "extractMediaTypeVendor DockerManifestList = DockerVendorPrefix" "extractMediaTypeVendor DockerManifestSchema2 = DockerVendorPrefix"
  "extractMediaTypeVendor DockerConfigJSON = DockerVendorPrefix" "extractMediaTypeVendor DockerLayer = DockerVendorPrefix"
  "extractMediaTypeVendor DockerForeignLayer = DockerVendorPrefix"
  "extractMediaTypeVendor DockerUncompressedLayer = DockerVendorPrefix"
  "extractMediaTypeVendor DockerManifestSchema1 = DockerVendorPrefix"
  by code_simp+

lemma vendor_neq [simp]: "OCIVendorPrefix \<noteq> DockerVendorPrefix" "DockerVendorPrefix \<noteq> OCIVendorPrefix"
  by code_simp+

lemma vendor_two: "extractMediaTypeVendor m = OCIVendorPrefix \<or> extractMediaTypeVendor m = DockerVendorPrefix"
  by (simp add: extractMediaTypeVendor_def)

text \<open>A conversion that succeeds changes the vendor.\<close>

lemma if_rule: "(c \<Longrightarrow> P x) \<Longrightarrow> P y \<Longrightarrow> P (if c then x else y)"
  by simp

definition other_vendor :: "string \<Rightarrow> string \<Rightarrow> bool" where
  "other_vendor m t \<longleftrightarrow> t \<noteq> [] \<longrightarrow> extractMediaTypeVendor t \<noteq> extractMediaTypeVendor m"

lemma other_vendor_table: "other_vendor m (convertMediaType m)"
  unfolding convertMediaType_def by (intro if_rule [of _ "other_vendor m"]) (auto simp: other_vendor_def vendors)

lemma convertMediaType_vendor:
  "convertMediaType m \<noteq> [] \<Longrightarrow> extractMediaTypeVendor (convertMediaType m) \<noteq> extractMediaTypeVendor m"
  using other_vendor_table by (simp add: other_vendor_def)

lemma convert_to_other:
  assumes "extractMediaTypeVendor m \<noteq> extractMediaTypeVendor n" and "convertMediaType m \<noteq> []"
  shows "extractMediaTypeVendor (convertMediaType m) = extractMediaTypeVendor n"
  using assms convertMediaType_vendor [OF assms(2)] vendor_two [of m] vendor_two [of n]
    vendor_two [of "convertMediaType m"] by auto

lemma layer_from_media: "layer_media (layer_from ts os) = Inr (fold (\<lambda>x m. case x of WithMediaType t \<Rightarrow> t | _ \<Rightarrow> m) os DockerLayer)"
  by (simp add: layer_from_def)

definition same_vendor :: "image \<Rightarrow> layer \<Rightarrow> bool" where
  "same_vendor img l \<longleftrightarrow> (\<exists>m n. layer_media l = Inr m \<and> img_media img = Inr n \<and>
     extractMediaTypeVendor m = extractMediaTypeVendor n)"

lemma converted_vendor:
  assumes "convertLayerMediaType l s = Inr l'"
  shows "same_vendor (sb_image s) l'"
proof -
  from assms obtain m n where mn: "layer_media l = Inr m" "img_media (sb_image s) = Inr n"
    by (auto simp: convertLayerMediaType_def)
  show ?thesis
  proof (cases "extractMediaTypeVendor m = extractMediaTypeVendor n")
    case True
    with assms mn show ?thesis by (simp add: convertLayerMediaType_def same_vendor_def)
  next
    case False
    with assms mn show ?thesis
      by (auto simp: convertLayerMediaType_def same_vendor_def layer_from_media vendors convert_to_other Let_def split: if_splits)
  qed
qed

subsection \<open>Layers and history\<close>

text \<open>The image has grown from another by layers of its own vendor, one line of history for each.\<close>

definition grown :: "image \<Rightarrow> image \<Rightarrow> bool" where
  "grown old img \<longleftrightarrow> (\<exists>ls hs. img_layers img = rbind (img_layers old) (\<lambda>b. Inr (b @ ls)) \<and>
     img_config img = rbind (img_config old) (\<lambda>cf. Inr (cf\<lparr>History := History cf @ hs\<rparr>)) \<and>
     length hs = length ls \<and> img_media img = img_media old \<and> list_all (same_vendor old) ls)"

definition grows :: "image \<Rightarrow> stageBuilder \<Rightarrow> bool" where
  "grows old s \<longleftrightarrow> grown old (sb_image s)"

lemma grown_refl: "grown i i"
proof -
  have "rbind (img_layers i) Inr = img_layers i" "rbind (img_config i) Inr = img_config i"
    by (cases "img_layers i"; simp) (cases "img_config i"; simp)
  then show ?thesis unfolding grown_def by (intro exI [of _ "[]"]) simp
qed

lemma grown_append:
  assumes "grown old i" and "same_vendor i l"
  shows "grown old (mutate_Append i l c)"
proof -
  from assms(1) obtain ls hs where g: "img_layers i = rbind (img_layers old) (\<lambda>b. Inr (b @ ls))"
    "img_config i = rbind (img_config old) (\<lambda>cf. Inr (cf\<lparr>History := History cf @ hs\<rparr>))"
    "length hs = length ls" "img_media i = img_media old" "list_all (same_vendor old) ls" by (auto simp: grown_def)
  have "same_vendor old l" using assms(2) g(4) by (simp add: same_vendor_def)
  with g show ?thesis
    unfolding grown_def by (intro exI [of _ "ls @ [l]"] exI [of _ "hs @ [c]"])
      (cases "img_layers old"; cases "img_config old"; simp add: mutate_Append_def)
qed

lemma grows_lifts [keeps_rules]:
  "keeps (grows i) (on_cs m)" "keeps (grows i) (on_bnet n)" "keeps (grows i) (on_snap k)"
  by (auto simp: keeps_def grows_def on_cs_def on_bnet_def on_snap_def Let_def split: prod.splits)

lemma grows_smodify [keeps_rules]:
  "keeps (grows i) (smodify (\<lambda>s. s\<lparr>finalCacheKey := f s\<rparr>))"
  "keeps (grows i) (smodify (\<lambda>s. if b s then s\<lparr>pushed := h s\<rparr> else s))"
  by (auto simp: keeps_def grows_def smodify_def)

lemma grows_saveLayer [keeps_rules]: "keeps (grows i) (saveLayerToImage lo c)"
  by (auto simp: keeps_def saveLayerToImage_def act_defs grows_def
      intro!: grown_append dest: converted_vendor split: option.splits sum.splits)

lemma grows_takeSnapshot [keeps_rules]: "keeps (grows i) (takeSnapshot fls d)"
proof -
  have "grows i s \<Longrightarrow> grows i (snd (on_snap k s))" for s and k :: "world \<Rightarrow> hasher \<Rightarrow> (Snapshotter, tar_entry list option) act"
    by (rule keepsD [OF grows_lifts(3)])
  moreover have "grows i s \<Longrightarrow> grows i (snd (sbind (on_snap TakeSnapshotFS) (\<lambda>es. sret (Some es)) s))" for s
    by (rule keepsD, intro keeps_rules)
  ultimately show ?thesis by (intro keeps_apply) (simp add: takeSnapshot_def split: option.split)
qed

lemma grows_build_loop: "keeps (grows i) (build_loop E n cmds st)"
proof (induction cmds arbitrary: n st)
  case (Cons c cmds)
  then show ?case
    unfolding build_loop.simps build_command_def initSnapshotWithTimings_def save_command_def saveSnapshotToImage_def
    by (intro keeps_rules)
qed simp

lemma grows_optimize: "keeps (grows i) (optimize E key)"
proof -
  have "keeps (grows i) (optimize_loop E key stop cmds)" for key stop cmds
    by (induction cmds arbitrary: key stop) (auto intro!: keeps_rules)
  then show ?thesis
    by (auto simp: keeps_def optimize_def grows_def Let_def split: prod.splits sum.splits) (metis snd_conv)+
qed

lemma grows_build: "keeps (grows i) (build E)"
  unfolding build_def initSnapshotWithTimings_def
  by (intro keeps_rules grows_optimize grows_build_loop) (auto simp: keeps_def unpack_def grows_def on_cs_def split: prod.splits)

text \<open>C23. Building a stage, whether it ends well or not, only adds layers on top of those of the base image, with one
  line of history for each layer, and every added layer has the vendor of the image's media type, OCI or
  Docker, so an image never mixes the two.\<close>

theorem build_layers_match_history:
  "\<exists>ls hs. img_layers (sb_image (snd (build E s))) = rbind (img_layers (sb_image s)) (\<lambda>b. Inr (b @ ls)) \<and>
     img_config (sb_image (snd (build E s))) = rbind (img_config (sb_image s)) (\<lambda>cf. Inr (cf\<lparr>History := History cf @ hs\<rparr>)) \<and>
     length hs = length ls \<and> list_all (same_vendor (sb_image (snd (build E s)))) ls"
proof -
  have "grown (sb_image s) (sb_image (snd (build E s)))"
    using keepsD [OF grows_build [of "sb_image s" E], of s] grown_refl [of "sb_image s"] by (simp add: grows_def)
  then obtain ls hs where g: "img_layers (sb_image (snd (build E s))) = rbind (img_layers (sb_image s)) (\<lambda>b. Inr (b @ ls))"
    "img_config (sb_image (snd (build E s))) = rbind (img_config (sb_image s)) (\<lambda>cf. Inr (cf\<lparr>History := History cf @ hs\<rparr>))"
    "length hs = length ls" "img_media (sb_image (snd (build E s))) = img_media (sb_image s)" "list_all (same_vendor (sb_image s)) ls"
    unfolding grown_def by blast
  from g(4) have "same_vendor (sb_image (snd (build E s))) = same_vendor (sb_image s)" by (simp add: fun_eq_iff same_vendor_def)
  with g(1-3, 5) show ?thesis by (intro exI [of _ ls] exI [of _ hs]) simp
qed

subsection \<open>The environment that the cache keys see\<close>

text \<open>The environment and the build arguments, and what a command does to them, without the rest of the state.\<close>

definition env_args :: "cstate \<Rightarrow> string list \<times> BuildArgs" where
  "env_args s = (env_of (cfg s), args s)"

definition arg_step :: "libs \<Rightarrow> string \<times> string option \<Rightarrow> string list \<times> BuildArgs \<Rightarrow> (string list \<times> BuildArgs) res" where
  "arg_step l arg ea = rbind (ParseArg l (fst arg) (snd arg) (fst ea) (snd ea)) (\<lambda>(k, v). Inr (fst ea, AddArg k v (snd ea)))"

definition env_step :: "host \<Rightarrow> DockerCommand \<Rightarrow> string list \<times> BuildArgs \<Rightarrow> (string list \<times> BuildArgs) res" where
  "env_step H c ea =
     (case c of
        EnvCommand k \<Rightarrow>
          rbind (UpdateConfigEnv (lib H) (EnvPairs (cmd_inst k)) (fst ea) (ReplacementEnvs (snd ea) (fst ea))) (\<lambda>e. Inr (e, snd ea))
      | ArgCommand k \<Rightarrow> rfold (arg_step (lib H)) (Args (cmd_inst k)) ea
      | _ \<Rightarrow> Inr ea)"

definition env_is :: "string list \<times> BuildArgs \<Rightarrow> cstate \<Rightarrow> bool" where
  "env_is ea s \<longleftrightarrow> env_args s = ea"

lemma env_set_cfg: "(\<And>c. Env (f c) = Env c) \<Longrightarrow> keeps (env_is ea) (set_cfg f)"
  by (simp add: keeps_def env_is_def env_args_def env_of_def set_cfg_def smodify_def)

lemma env_is_rules [keeps_rules]:
  "keeps (env_is ea) (on_world m)" "keeps (env_is ea) (shell_form H line)" "keeps (env_is ea) (smodify (\<lambda>s. s\<lparr>arrs := g s\<rparr>))"
  by (auto simp: keeps_def env_is_def env_args_def on_world_def smodify_def shell_form_def Let_def split: prod.splits)

lemma env_is_exec [keeps_rules]:
  "keeps (env_is ea) (exec_Cmd H line b)" "keeps (env_is ea) (exec_Entrypoint H line b)" "keeps (env_is ea) (exec_Expose H ps)"
  "keeps (env_is ea) (updateLabels H ls)" "keeps (env_is ea) (exec_User H u)" "keeps (env_is ea) (exec_OnBuild e)"
  "keeps (env_is ea) (exec_StopSignal H g)" "keeps (env_is ea) (exec_Volume H vs)" "keeps (env_is ea) (exec_Workdir H p)"
  "keeps (env_is ea) (exec_Shell l)" "keeps (env_is ea) (exec_HealthCheck h)" "keeps (env_is ea) (runCommandInExec H line b)"
  unfolding exec_Cmd_def exec_Entrypoint_def exec_Expose_def expose_port_def updateLabels_def exec_User_def exec_OnBuild_def
    exec_StopSignal_def exec_Volume_def exec_Workdir_def exec_Shell_def exec_HealthCheck_def new_command_def
    runCommandInExec_def find_exe_def
  by (intro keeps_rules env_set_cfg; simp)+

lemma env_is_files [keeps_rules]:
  "keeps (env_is ea) (exec_Copy H sd from ch cm context)" "keeps (env_is ea) (exec_Add H sd ch cm context)"
  "keeps (env_is ea) (exec_RunMarker H line b)" "keeps (env_is ea) (exec_cached m1 m2 i)"
  unfolding exec_Add_def exec_Copy_def exec_RunMarker_def exec_cached_def by (intro keeps_rules)+

lemma env_is_ExecuteCommand:
  "\<not> is_EnvCommand c \<Longrightarrow> \<not> is_ArgCommand c \<Longrightarrow> keeps (env_is ea) (ExecuteCommand H c)"
  unfolding ExecuteCommand_def by (cases c; simp; intro keeps_rules)

lemma env_step_Execute:
  assumes "ExecuteCommand H c s = (Inr c', t)"
  shows "env_step H c (env_args s) = Inr (env_args t)"
proof -
  have arg: "rfold (arg_step (lib H)) as (env_args s) = Inr (env_args t)" if "sfold (exec_arg H) as s = (Inr u, t)" for as u s t
    using that
  proof (induction as arbitrary: s)
    case (Cons a as)
    then obtain r where "exec_arg H a s = (Inr (), r)" "sfold (exec_arg H) as r = (Inr u, t)"
      by (auto split: prod.splits sum.splits)
    moreover from this(1) have "arg_step (lib H) a (env_args s) = Inr (env_args r)"
      by (auto simp: exec_arg_def act_Inr smodify_def arg_step_def env_args_def)
    ultimately show ?case using Cons.IH by simp
  qed simp
  show ?thesis
  proof (cases "is_EnvCommand c \<or> is_ArgCommand c")
    case True
    then show ?thesis using assms
      by (auto simp: is_EnvCommand_def is_ArgCommand_def ExecuteCommand_def env_step_def act_Inr exec_Arg_def exec_Env_def envs_def
          env_args_def set_cfg_def smodify_def env_of_def dest!: arg)
  next
    case False
    then have "env_args t = env_args s"
      using keepsD [OF env_is_ExecuteCommand [of c "env_args s" H], of s] assms by (simp add: env_is_def)
    moreover have "env_step H c ea = Inr ea" for ea using False by (cases c) (auto simp: env_step_def)
    ultimately show ?thesis by simp
  qed
qed

subsection \<open>Lookup and push use the same keys\<close>

text \<open>Commands that read nothing from the build context.\<close>

definition no_context :: "DockerCommand \<Rightarrow> bool" where
  "no_context c \<longleftrightarrow> \<not> is_CopyCommand c \<and> \<not> is_AddCommand c \<and> \<not> is_CachingCopyCommand c"

definition text_key :: "DockerCommand \<Rightarrow> CompositeCache \<Rightarrow> string list \<times> BuildArgs \<Rightarrow> CompositeCache" where
  "text_key c key ea =
     (let es = sort (ReplacementEnvs (snd ea) (fst ea))
      in AddKey [cmd_String c] (if IsArgsEnvsRequiredInCache c \<and> es \<noteq> []
           then AddKey es (AddKey [''|'' @ itoa (int (length es))] key) else key))"

text \<open>The keys of the commands of a stage, one after the other, from the text of the commands, the environment and
  the build arguments alone.\<close>

fun stage_keys :: "executor \<Rightarrow> DockerCommand list \<Rightarrow> CompositeCache \<Rightarrow> string list \<times> BuildArgs \<Rightarrow> string list res" where
  "stage_keys E [] key ea = Inr []"
| "stage_keys E (c # cmds) key ea =
     rbind (env_step (ex_host E) c ea) (\<lambda>ea'.
     rbind (stage_keys E cmds (text_key c key ea) ea') (\<lambda>ks. Inr (cc_Hash (ex_sha256 E) (text_key c key ea) # ks)))"

lemma no_context_used: "no_context c \<Longrightarrow> FilesUsedFromContext H c s = Inr []"
  by (cases c) (auto simp: no_context_def FilesUsedFromContext_def)

lemma command_key_text: "command_key E c [] key s = Inr (text_key c key (env_args (cst s)))"
  by (simp add: command_key_def populateCompositeKey_def text_key_def env_args_def Let_def)

text \<open>A command and what stands for it after it has run, or after it has been replaced by its cached version\<close>

definition same_text :: "host \<Rightarrow> DockerCommand \<Rightarrow> DockerCommand \<Rightarrow> bool" where
  "same_text H c d \<longleftrightarrow> cmd_String d = cmd_String c \<and> IsArgsEnvsRequiredInCache d = IsArgsEnvsRequiredInCache c \<and>
     env_step H d = env_step H c \<and> no_context d = no_context c"

lemma same_text_refl [simp]: "same_text H c c"
  by (simp add: same_text_def)

lemma env_step_other: "\<not> is_EnvCommand c \<Longrightarrow> \<not> is_ArgCommand c \<Longrightarrow> env_step H c = Inr"
  by (cases c) (simp_all add: env_step_def fun_eq_iff)

text \<open>A postcondition of the value an action returns\<close>

definition returns :: "('a \<Rightarrow> bool) \<Rightarrow> ('s, 'a) act \<Rightarrow> bool" where
  "returns Q m \<longleftrightarrow> (\<forall>s x t. m s = (Inr x, t) \<longrightarrow> Q x)"

lemma returns_act:
  "Q x \<Longrightarrow> returns Q (sret x)"
  "(\<And>x. returns Q (f x)) \<Longrightarrow> returns Q (sbind m f)"
  "returns Q n \<Longrightarrow> returns Q (sthen m n)"
  by (fastforce simp: returns_def act_Inr)+

lemma returns_case:
  "(\<And>a b. returns Q (g a b)) \<Longrightarrow> returns Q (case p of (a, b) \<Rightarrow> g a b)"
  "(\<And>sd from ch cm. returns Q (h sd from ch cm)) \<Longrightarrow> returns Q n \<Longrightarrow>
     returns Q (case i of CopyInst sd from ch cm \<Rightarrow> h sd from ch cm | _ \<Rightarrow> n)"
  "(\<And>sd ch cm. returns Q (k sd ch cm)) \<Longrightarrow> returns Q n \<Longrightarrow>
     returns Q (case i of AddInst sd ch cm \<Rightarrow> k sd ch cm | _ \<Rightarrow> n)"
  by (cases p; simp) (cases i; simp)+

lemmas returns_rules = returns_act returns_case

definition shape_of :: "DockerCommand \<Rightarrow> DockerCommand \<Rightarrow> bool" where
  "shape_of c d \<longleftrightarrow> cmd_String d = cmd_String c \<and> IsArgsEnvsRequiredInCache d = IsArgsEnvsRequiredInCache c \<and>
    no_context d = no_context c \<and> (if is_EnvCommand c \<or> is_ArgCommand c then d = c else \<not> is_EnvCommand d \<and> \<not> is_ArgCommand d)"

lemma Execute_shape: "returns (shape_of c) (ExecuteCommand H c)"
  unfolding ExecuteCommand_def
  by (cases c; simp; intro returns_rules; simp add: shape_of_def cmd_String_def IsArgsEnvsRequiredInCache_def no_context_def)

lemma same_text_Execute: "ExecuteCommand H c s = (Inr d, t) \<Longrightarrow> same_text H c d"
proof -
  assume "ExecuteCommand H c s = (Inr d, t)"
  with Execute_shape [of c H] have "shape_of c d" unfolding returns_def by blast
  then show "same_text H c d" by (auto simp: same_text_def shape_of_def env_step_other split: if_splits)
qed

lemma same_text_cached: "CacheCommand c i = Some d \<Longrightarrow> same_text H c d"
  by (cases c; simp add: CacheCommand_def; drule sym;
      simp add: same_text_def cmd_String_def IsArgsEnvsRequiredInCache_def env_step_other no_context_def)

lemma stage_keys_cong: "list_all2 (same_text (ex_host E)) cmds ds \<Longrightarrow> stage_keys E ds key ea = stage_keys E cmds key ea"
  by (induction cmds ds arbitrary: key ea rule: list_all2_induct) (simp_all add: same_text_def text_key_def Let_def)

lemma env_step_metadata: "\<not> MetadataOnly c \<Longrightarrow> env_step H c ea = Inr ea"
  by (cases c) (simp_all add: MetadataOnly_def env_step_def)

text \<open>The part of the state that only running commands changes\<close>

definition frame :: "stageBuilder \<Rightarrow> KanikoOptions \<times> (string \<times> tar_entry list option \<times> string) list" where
  "frame s = (sb_opts s, pushed s)"

lemma metadata_step:
  assumes "(if MetadataOnly c then on_cs (ExecuteCommand H c) else sret c) s = (Inr d, t)"
  shows "env_step H c (env_args (cst s)) = Inr (env_args (cst t)) \<and> same_text H c d \<and> frame t = frame s \<and>
    finalCacheKey t = finalCacheKey s"
  using assms by (auto simp: on_cs_def sret_def env_step_metadata frame_def split: prod.splits if_splits
      dest: env_step_Execute same_text_Execute)

lemma ShouldCacheOutput_metadata: "ShouldCacheOutput c \<Longrightarrow> \<not> MetadataOnly c"
  by (cases c) (simp_all add: ShouldCacheOutput_def MetadataOnly_def)

text \<open>One round of the loop, for a command that reads no context: the key of the command, its effect on the
  environment, and the command that takes its place.\<close>

lemma optimize_step:
  assumes "optimize_loop E key stop (c # cmds) s = (Inr ds, t)" and "no_context c"
  defines "k \<equiv> text_key c key (env_args (cst s))"
  obtains stop' u d ds' where "optimize_loop E k stop' cmds u = (Inr ds', t)" "ds = d # ds'" "same_text (ex_host E) c d"
    "env_step (ex_host E) c (env_args (cst s)) = Inr (env_args (cst u))" "frame u = frame s"
    "finalCacheKey u = cc_Hash (ex_sha256 E) k"
proof -
  let ?s = "s\<lparr>finalCacheKey := cc_Hash (ex_sha256 E) k\<rparr>" and ?H = "ex_host E"
  have ck: "command_key E c [] key s = Inr k" by (simp add: command_key_text k_def)
  note step = assms(1)[simplified act_Inr optimize_loop.simps no_context_used [OF assms(2)] smodify_def Let_def]
  show ?thesis
  proof (cases "ShouldCacheOutput c \<and> \<not> stop")
    case True
    let ?r = "on_bnet (RetrieveLayer (ex_registry E) (files (wld (cst ?s))) (sb_opts ?s) (cc_Hash (ex_sha256 E) k)) ?s"
    obtain r u where r: "?r = (r, u)" by fastforce
    have u: "cst u = cst s" "frame u = frame s" "finalCacheKey u = cc_Hash (ex_sha256 E) k"
      using r by (auto simp: on_bnet_def frame_def split: prod.splits)
    have m: "\<not> MetadataOnly c" using True by (simp add: ShouldCacheOutput_metadata)
    show ?thesis
    proof (cases r)
      case (Inl e)
      then obtain ds' where "optimize_loop E k True cmds u = (Inr ds', t)" "ds = c # ds'"
        using step True r ck by (auto simp: act_Inr stry_def)
      with u m show ?thesis by (intro that) (auto simp: env_step_metadata)
    next
      case (Inr img)
      let ?d = "case CacheCommand c (Some (img_layers img)) of Some d \<Rightarrow> d | None \<Rightarrow> c"
      obtain ds' where "optimize_loop E k stop cmds u = (Inr ds', t)" "ds = ?d # ds'"
        using step True r ck Inr m by (auto simp: act_Inr stry_def)
      with u m show ?thesis
        by (intro that) (auto simp: env_step_metadata intro: same_text_cached split: option.split)
    qed
  next
    case False
    then obtain d u ds' where "(if MetadataOnly c then on_cs (ExecuteCommand ?H c) else sret c) ?s = (Inr d, u)"
      and "optimize_loop E k stop cmds u = (Inr ds', t)" "ds = d # ds'"
      using step ck by (auto simp: act_Inr)
    with metadata_step [of c ?H ?s d u] show ?thesis
      by (intro that [where stop' = stop and u = u and d = d and ds' = ds']) (auto simp: frame_def)
  qed
qed

lemma optimize_loop_keys:
  assumes "optimize_loop E key stop cmds s = (Inr ds, t)" and "list_all no_context cmds"
  shows "\<exists>ks. stage_keys E cmds key (env_args (cst s)) = Inr ks \<and> length ks = length cmds \<and>
    finalCacheKey t = last (finalCacheKey s # ks) \<and> list_all2 (same_text (ex_host E)) cmds ds \<and> frame t = frame s"
  using assms
proof (induction cmds arbitrary: key stop s ds t)
  case (Cons c cmds)
  from Cons.prems(2) have nc: "no_context c" by simp
  obtain stop' u d ds' where
    step: "optimize_loop E (text_key c key (env_args (cst s))) stop' cmds u = (Inr ds', t)" "ds = d # ds'" "same_text (ex_host E) c d"
    "env_step (ex_host E) c (env_args (cst s)) = Inr (env_args (cst u))" "frame u = frame s"
    "finalCacheKey u = cc_Hash (ex_sha256 E) (text_key c key (env_args (cst s)))"
    by (rule optimize_step [OF Cons.prems(1) nc]) (rule that; assumption)
  from Cons.prems(2) Cons.IH [OF step(1)] obtain ks where
    "stage_keys E cmds (text_key c key (env_args (cst s))) (env_args (cst u)) = Inr ks" "length ks = length cmds"
    "finalCacheKey t = last (finalCacheKey u # ks)" "list_all2 (same_text (ex_host E)) cmds ds'" "frame t = frame u" by auto
  with step(2-) show ?case
    by (intro exI [of _ "cc_Hash (ex_sha256 E) (text_key c key (env_args (cst s))) # ks"]) simp
qed (simp add: sret_def)

text \<open>The build does the same: the parts of the state that snapshots and layers leave alone.\<close>

definition framed :: "cstate \<Rightarrow> KanikoOptions \<times> (string \<times> tar_entry list option \<times> string) list \<Rightarrow> stageBuilder \<Rightarrow> bool" where
  "framed c f s \<longleftrightarrow> cst s = c \<and> frame s = f"

lemma framed_rules [keeps_rules]:
  "keeps (framed c f) (on_snap m)" "keeps (framed c f) (smodify (\<lambda>s. s\<lparr>sb_image := g s\<rparr>))"
  by (auto simp: keeps_def framed_def frame_def on_snap_def smodify_def Let_def split: prod.splits)

lemma framed_takeSnapshot [keeps_rules]: "keeps (framed c f) (takeSnapshot fls d)"
proof -
  have "framed c f s \<Longrightarrow> framed c f (snd (on_snap k s))" for s and k :: "world \<Rightarrow> hasher \<Rightarrow> (Snapshotter, tar_entry list option) act"
    by (rule keepsD [OF framed_rules(1)])
  moreover have "framed c f s \<Longrightarrow> framed c f (snd (sbind (on_snap TakeSnapshotFS) (\<lambda>es. sret (Some es)) s))" for s
    by (rule keepsD, intro keeps_rules)
  ultimately show ?thesis by (intro keeps_apply) (simp add: takeSnapshot_def split: option.split)
qed

lemma framed_save [keeps_rules]: "keeps (framed c f) (saveLayerToImage l by)" "keeps (framed c f) (saveSnapshotToImage by ts)"
  unfolding saveSnapshotToImage_def saveLayerToImage_def by (intro keeps_rules)+

lemma framed_Inr: "keeps (framed (cst s) (frame s)) m \<Longrightarrow> m s = (r, t) \<Longrightarrow> cst t = cst s \<and> frame t = frame s"
  using keepsD [of "framed (cst s) (frame s)" m s] by (simp add: framed_def)

definition pushes :: "string \<Rightarrow> string \<Rightarrow> string \<times> tar_entry list option \<times> string \<Rightarrow> bool" where
  "pushes ck by p \<longleftrightarrow> fst p = ck \<and> snd (snd p) = by"

lemma save_command_pushes:
  assumes "save_command E key c s = (Inr u, t)"
  shows "cst t = cst s \<and> sb_opts t = sb_opts s \<and>
    (\<exists>new. pushed t = pushed s @ new \<and> list_all (pushes (cc_Hash (ex_sha256 E) key) (cmd_String c)) new)"
proof (cases "is_cached c")
  case True
  with assms have "saveLayerToImage (cached_layer c) (cmd_String c) s = (Inr u, t)" by (simp add: save_command_def act_Inr)
  from framed_Inr [OF framed_save(1) this] show ?thesis by (auto simp: frame_def)
next
  case False
  let ?g = "\<lambda>snap s. if Cache (sb_opts s) \<and> ShouldCacheOutput c \<and> \<not> NoPushCache (sb_opts s)
      then s\<lparr>pushed := pushed s @ [(cc_Hash (ex_sha256 E) key, snap, cmd_String c)]\<rparr> else s"
  from False assms obtain snap s1 where
    s1: "takeSnapshot (FilesToSnapshot c) (ShouldDetectDeletedFiles c) s = (Inr snap, s1)"
    and t: "saveSnapshotToImage (cmd_String c) snap (?g snap s1) = (Inr u, t)"
    by (auto simp: save_command_def act_Inr smodify_def)
  have "cst s1 = cst s \<and> frame s1 = frame s" using framed_Inr [OF framed_takeSnapshot s1] .
  moreover have "cst t = cst (?g snap s1) \<and> frame t = frame (?g snap s1)" using framed_Inr [OF framed_save(2) t] .
  ultimately show ?thesis by (cases "Cache (sb_opts s1) \<and> ShouldCacheOutput c \<and> \<not> NoPushCache (sb_opts s1)") (auto simp: frame_def pushes_def)
qed

lemma on_cs_Inr: "on_cs m s = (Inr x, t) \<longleftrightarrow> (\<exists>c. m (cst s) = (Inr x, c) \<and> t = s\<lparr>cst := c\<rparr>)"
  by (auto simp: on_cs_def split: prod.splits)

lemma build_command_pushes:
  assumes "build_command E i c (key, taken) s = (Inr (key', taken'), t)" and "no_context c" and "Cache (sb_opts s)"
  shows "key' = text_key c key (env_args (cst s)) \<and> env_step (ex_host E) c (env_args (cst s)) = Inr (env_args (cst t)) \<and>
    sb_opts t = sb_opts s \<and>
    (\<exists>new. pushed t = pushed s @ new \<and> list_all (pushes (cc_Hash (ex_sha256 E) key') (cmd_String c)) new)"
proof -
  let ?k = "text_key c key (env_args (cst s))" and ?init = "\<not> taken \<and> \<not> is_cached c \<and> \<not> ProvidesFilesToSnapshot c"
  from assms obtain s1 d x c2 where s1: "swhen ?init initSnapshotWithTimings s = (Inr (), s1)"
    and s2: "ExecuteCommand (ex_host E) c (cst s1) = (Inr d, c2)" and key': "key' = ?k"
    and t: "swhen x (save_command E ?k d) (s1\<lparr>cst := c2\<rparr>) = (Inr (), t)"
    by (auto simp: build_command_def act_Inr no_context_used command_key_text Let_def on_cs_Inr)
  have "keeps (framed (cst s) (frame s)) (swhen ?init initSnapshotWithTimings)"
    unfolding initSnapshotWithTimings_def by (intro keeps_rules)
  from framed_Inr [OF this s1] have "cst s1 = cst s" "frame s1 = frame s" by simp_all
  moreover from t have "cst t = c2 \<and> sb_opts t = sb_opts s1 \<and>
      (\<exists>new. pushed t = pushed s1 @ new \<and> list_all (pushes (cc_Hash (ex_sha256 E) ?k) (cmd_String d)) new)"
    by (cases x) (auto simp: swhen_def sret_def dest: save_command_pushes)
  moreover have "cmd_String d = cmd_String c" using same_text_Execute [OF s2] by (simp add: same_text_def)
  ultimately show ?thesis using key' env_step_Execute [OF s2] by (auto simp: frame_def)
qed

lemma build_loop_pushes:
  assumes "build_loop E i cmds st s = (Inr u, t)" and "list_all no_context cmds" and "Cache (sb_opts s)"
  shows "\<exists>ks new. stage_keys E cmds (fst st) (env_args (cst s)) = Inr ks \<and> length ks = length cmds \<and> pushed t = pushed s @ new \<and>
    (\<forall>p \<in> set new. \<exists>j < length cmds. pushes (ks ! j) (cmd_String (cmds ! j)) p)"
  using assms
proof (induction cmds arbitrary: i st s)
  case (Cons c cmds)
  obtain key taken where [simp]: "st = (key, taken)" by fastforce
  from Cons.prems(1) obtain key' taken' s1 where s1: "build_command E i c (key, taken) s = (Inr (key', taken'), s1)"
    and t: "build_loop E (Suc i) cmds (key', taken') s1 = (Inr u, t)" by (auto simp: act_Inr)
  from build_command_pushes [OF s1] Cons.prems(2, 3) obtain new where c: "key' = text_key c key (env_args (cst s))"
    "env_step (ex_host E) c (env_args (cst s)) = Inr (env_args (cst s1))" "sb_opts s1 = sb_opts s"
    "pushed s1 = pushed s @ new" "list_all (pushes (cc_Hash (ex_sha256 E) key') (cmd_String c)) new" by auto
  from Cons.IH [OF t] Cons.prems(2, 3) c(3) obtain ks new' where
    IH: "stage_keys E cmds key' (env_args (cst s1)) = Inr ks" "length ks = length cmds" "pushed t = pushed s1 @ new'"
      "\<forall>p \<in> set new'. \<exists>j < length cmds. pushes (ks ! j) (cmd_String (cmds ! j)) p" by auto
  let ?ks = "cc_Hash (ex_sha256 E) key' # ks"
  have "\<exists>j < length (c # cmds). pushes (?ks ! j) (cmd_String ((c # cmds) ! j)) p" if "p \<in> set (new @ new')" for p
    using that c(5) IH(4) by (auto simp: list_all_iff intro: exI [of _ 0]) (metis Suc_less_eq nth_Cons_Suc)
  with c IH show ?case by (intro exI [of _ ?ks] exI [of _ "new @ new'"]) auto
qed (simp add: sret_def)

text \<open>Optimising a stage leaves the environment and the build arguments as they were.\<close>

lemma optimize_keys:
  assumes "optimize E key s = (Inr (), t)" and "Cache (sb_opts s)" and "list_all no_context (sb_cmds s)"
  shows "env_args (cst t) = env_args (cst s) \<and> frame t = frame s \<and>
    list_all2 (same_text (ex_host E)) (sb_cmds s) (sb_cmds t) \<and>
    (\<exists>ks. stage_keys E (sb_cmds s) key (env_args (cst s)) = Inr ks \<and> finalCacheKey t = last (finalCacheKey s # ks))"
proof -
  obtain r u where ru: "optimize_loop E key False (sb_cmds s) s = (r, u)" by fastforce
  with assms(1, 2) obtain cmds where r: "r = Inr cmds" by (cases r) (simp_all add: optimize_def Let_def)
  note u = ru [unfolded r]
  let ?t = "u\<lparr>cst := (cst u)\<lparr>cfg := restore_cfg (cfg (cst s)) (cfg (cst u)), args := args (cst s)\<rparr>,
      shared_args := args (cst u), sb_cmds := cmds\<rparr>"
  have "optimize E key s = (Inr (), ?t)"
    by (simp only: optimize_def u Let_def assms(2) not_True_eq_False if_False prod.case sum.case)
  with assms(1) have t: "t = ?t" by (simp only: prod.inject)
  have "env_args (cst t) = env_args (cst s)" "frame t = frame u" "finalCacheKey t = finalCacheKey u" "sb_cmds t = cmds"
    by (simp_all add: t env_args_def env_of_def restore_cfg_def frame_def)
  moreover obtain ks where "stage_keys E (sb_cmds s) key (env_args (cst s)) = Inr ks" "finalCacheKey u = last (finalCacheKey s # ks)"
    "list_all2 (same_text (ex_host E)) (sb_cmds s) cmds" "frame u = frame s"
    using optimize_loop_keys [OF u assms(3)] by blast
  ultimately show ?thesis by (intro conjI exI [of _ ks]) simp_all
qed

text \<open>Neither unpacking the base image nor snapshots touch the environment, the pushed layers or the last key.\<close>

definition key_framed :: "(string list \<times> BuildArgs) \<times> (KanikoOptions \<times> (string \<times> tar_entry list option \<times> string) list) \<times> string \<Rightarrow> stageBuilder \<Rightarrow> bool" where
  "key_framed k s \<longleftrightarrow> k = (env_args (cst s), frame s, finalCacheKey s)"

lemma key_framed_unpack [keeps_rules]: "keeps (key_framed k) unpack" "keeps (key_framed k) initSnapshotWithTimings"
  by (auto simp: keeps_def key_framed_def unpack_def initSnapshotWithTimings_def on_cs_def on_snap_def on_world_def
      env_args_def frame_def Let_def split: prod.splits)

lemma key_framed_Inr:
  "keeps (key_framed (env_args (cst s), frame s, finalCacheKey s)) m \<Longrightarrow> m s = (r, t) \<Longrightarrow>
     env_args (cst t) = env_args (cst s) \<and> frame t = frame s \<and> finalCacheKey t = finalCacheKey s"
  using keepsD [of "key_framed (env_args (cst s), frame s, finalCacheKey s)" m s] by (simp add: key_framed_def)

definition last_key :: "string \<Rightarrow> stageBuilder \<Rightarrow> bool" where
  "last_key k s \<longleftrightarrow> finalCacheKey s = k"

lemma last_key_rules [keeps_rules]:
  "keeps (last_key k) (on_cs m)" "keeps (last_key k) (on_snap n)" "keeps (last_key k) (smodify (\<lambda>s. s\<lparr>sb_image := g s\<rparr>))"
  "keeps (last_key k) (smodify (\<lambda>s. if b s then s\<lparr>pushed := h s\<rparr> else s))"
  by (auto simp: keeps_def last_key_def on_cs_def on_snap_def smodify_def Let_def split: prod.splits)

lemma last_key_takeSnapshot [keeps_rules]: "keeps (last_key k) (takeSnapshot fls d)"
proof -
  have "last_key k s \<Longrightarrow> last_key k (snd (on_snap m s))" for s and m :: "world \<Rightarrow> hasher \<Rightarrow> (Snapshotter, tar_entry list option) act"
    by (rule keepsD [OF last_key_rules(2)])
  moreover have "last_key k s \<Longrightarrow> last_key k (snd (sbind (on_snap TakeSnapshotFS) (\<lambda>es. sret (Some es)) s))" for s
    by (rule keepsD, intro keeps_rules)
  ultimately show ?thesis by (intro keeps_apply) (simp add: takeSnapshot_def split: option.split)
qed

lemma last_key_build_loop: "keeps (last_key k) (build_loop E n cmds st)"
proof (induction cmds arbitrary: n st)
  case (Cons c cmds)
  then show ?case
    unfolding build_loop.simps build_command_def initSnapshotWithTimings_def save_command_def saveSnapshotToImage_def saveLayerToImage_def
    by (intro keeps_rules)
qed simp

definition cmds_are :: "DockerCommand list \<Rightarrow> stageBuilder \<Rightarrow> bool" where
  "cmds_are cs s \<longleftrightarrow> sb_cmds s = cs"

lemma cmds_unpack: "keeps (cmds_are cs) (swhen x unpack)"
  by (auto simp: keeps_def cmds_are_def swhen_def sret_def unpack_def on_cs_def split: prod.splits)

lemma same_text_list:
  "list_all2 (same_text H) cs ds \<Longrightarrow> list_all no_context cs \<Longrightarrow> list_all no_context ds"
  "list_all2 (same_text H) cs ds \<Longrightarrow> map cmd_String ds = map cmd_String cs"
  by (induction cs ds rule: list_all2_induct) (simp_all add: same_text_def)


definition demo_builder :: stageBuilder where
  "demo_builder =
    \<lparr>cst = demo_state\<lparr>wld := fst demo_site, arrs := [[''/bin/true'']]\<rparr>, bnet = snd demo_site,
     sb_stage = \<lparr>stage = \<lparr>Name = [], BaseName = ''scratch'', Commands = []\<rparr>, BaseImageIndex = -1, Final = True, BaseImageStoredLocally = False,
       SaveStage = False, MetaArgs = [], Index = 0\<rparr>,
     sb_image = empty_Image, baseImageDigest = ''sha256:0'', finalCacheKey = [],
     sb_opts = demo_opts\<lparr>Cache := True, ForceBuildMetadata := True\<rparr>, sb_context = \<lparr>Root = ''/'', ExcludedFiles = [], Matches = (\<lambda>_ _. Inr False)\<rparr>,
     sb_cmds = [EnvCommand (inst ''ENV A=b'' (EnvInst [(''A'', ''b'')])), RunCommand (inst ''RUN true'' (RunInst \<lparr>sarr = 0, slen = 1\<rparr> False)) True],
     crossStageDeps = [], digestToCacheKey = [], snapshotter = NewSnapshotter (fst demo_site) NewLayeredMap ''/'',
     sb_hasher = (\<lambda>_ _. Inr ''h''), shared_args = NewBuildArgs [], pushed = []\<rparr>"

lemma is_ok_unit: "is_ok (fst r) \<Longrightarrow> r = (Inr (), snd r)"
  by (cases r; cases "fst r") simp_all


end
