(* ===== verification/Push.thy ===== *)
theory Push
  imports Stage_Props
begin

text \<open>
  \<open>pkg/executor/push.go\<close>: checking that the destinations may be pushed to, writing the digest files, the OCI layout
  and the tarball of an image, pushing it to its destinations and pushing layers to the cache. The registry client, the
  credential helpers, the HTTP client and the writers of layouts and tarballs are libraries, the fields of \<open>pusher\<close>.
  What a registry or a web server answers may depend on what was sent before, so it is a function of the \<open>outbox\<close>,
  the list of the requests made with their answers.
\<close>

subsection \<open>What leaves the program\<close>

record outbox =
  writes :: "(reference \<times> image \<times> unit res) list"
  permission_checks :: "(reference \<times> unit res) list"
  puts :: "(string \<times> string) list"

record pusher =
  check_push :: "outbox \<Rightarrow> reference \<Rightarrow> unit res"
  remote_write :: "outbox \<Rightarrow> reference \<Rightarrow> image \<Rightarrow> unit res"
  http_put :: "outbox \<Rightarrow> string \<Rightarrow> string \<Rightarrow> unit res"
  resolve_auth :: "string \<Rightarrow> unit res"
  ref_String :: "reference \<Rightarrow> string"
  error_text :: "err \<Rightarrow> string"
  layout_write :: "string \<Rightarrow> (filesys, unit) act"
  append_image :: "string \<Rightarrow> image \<Rightarrow> (filesys, unit) act"
  multi_write :: "string \<Rightarrow> (reference, image) gomap \<Rightarrow> (filesys, unit) act"
  push_getenv :: "string \<Rightarrow> string"
  program_version :: string

type_synonym push_site = "world \<times> outbox"

definition on_disk :: "(filesys, 'a) act \<Rightarrow> (push_site, 'a) act" where
  "on_disk m s = (case m (files (fst s)) of (r, fs) \<Rightarrow> (r, (fst s)\<lparr>files := fs\<rparr>, snd s))"

definition send_check :: "pusher \<Rightarrow> reference \<Rightarrow> (push_site, unit) act" where
  "send_check P r s =
     (let a = check_push P (snd s) r in (a, fst s, (snd s)\<lparr>permission_checks := permission_checks (snd s) @ [(r, a)]\<rparr>))"

definition send_image :: "pusher \<Rightarrow> reference \<Rightarrow> image \<Rightarrow> (push_site, unit) act" where
  "send_image P r i s = (let a = remote_write P (snd s) r i in (a, fst s, (snd s)\<lparr>writes := writes (snd s) @ [(r, i, a)]\<rparr>))"

definition send_put :: "pusher \<Rightarrow> string \<Rightarrow> string \<Rightarrow> (push_site, unit) act" where
  "send_put P url data s = (http_put P (snd s) url data, fst s, (snd s)\<lparr>puts := puts (snd s) @ [(url, data)]\<rparr>)"

definition UpstreamClientUaKey :: string where "UpstreamClientUaKey = ''UPSTREAM_CLIENT_TYPE''"
definition DummyDestinations :: "string list" where "DummyDestinations = [''docker.io/unset-repo/unset-image-name'']"

definition errTagImmutable :: "string list" where
  "errTagImmutable = [''The repository has enabled tag immutability'', ''cannot be overwritten because the repository is immutable'']"

text \<open>The value of the \<open>User-Agent\<close> header of every request of a push\<close>

definition user_agent :: "pusher \<Rightarrow> string" where
  "user_agent P =
     (let upstream = push_getenv P UpstreamClientUaKey
      in join '','' ((''kaniko/'' @ program_version P) # (if upstream \<noteq> [] then [upstream] else [])))"

subsection \<open>Push permissions\<close>

definition push_targets :: "KanikoOptions \<Rightarrow> string list" where
  "push_targets opts =
     (if SkipPushPermissionCheck opts then []
      else if NoPush opts \<and> NoPushCache opts then []
      else if NoPush opts \<and> \<not> NoPushCache opts then (if isOCILayout (CacheRepo opts) then [] else [CacheRepo opts])
      else Destinations opts)"

definition context_String :: "reference \<Rightarrow> string" where
  "context_String r = ref_registry r @ ''/'' @ ref_repository r"

text \<open>A registry that is to be reached over plain HTTP\<close>

definition insecure_ref :: "registry \<Rightarrow> KanikoOptions \<Rightarrow> reference \<Rightarrow> reference res" where
  "insecure_ref R opts r =
     (if Insecure (Registry opts) \<or> multiArg_Contains (InsecureRegistries (Registry opts)) (ref_registry r)
      then rbind (wrap ''getting new insecure registry'' (valid_registry R (ref_registry r))) (\<lambda>_. Inr (setNewRegistry r (ref_registry r)))
      else Inr r)"

fun check_targets :: "pusher \<Rightarrow> registry \<Rightarrow> KanikoOptions \<Rightarrow> (string, bool) gomap \<Rightarrow> string list \<Rightarrow> (push_site, unit) act" where
  "check_targets P R opts checked [] = sret ()"
| "check_targets P R opts checked (destination # rest) =
     sbind (swrap ''getting tag for destination'' (sreads (\<lambda>_. new_tag R destination))) (\<lambda>destRef.
       if gm_get checked (context_String destRef) = Some True then check_targets P R opts checked rest
       else
         sbind (sreads (\<lambda>_. insecure_ref R opts destRef)) (\<lambda>ref.
         sthen (swrap (''making transport for registry '' @ ref_registry destRef)
                  (sreads (\<lambda>_. make_transport R (Registry opts) (ref_registry destRef))))
        (sthen (swrap (''checking push permission for '' @ ref_String P ref) (send_check P ref))
               (check_targets P R opts (gm_set checked (context_String ref) True) rest))))"

definition CheckPushPermissions :: "pusher \<Rightarrow> registry \<Rightarrow> KanikoOptions \<Rightarrow> (push_site, unit) act" where
  "CheckPushPermissions P R opts = check_targets P R opts [] (push_targets opts)"

subsection \<open>Files written next to a push\<close>

definition writeDigestFile :: "pusher \<Rightarrow> string \<Rightarrow> string \<Rightarrow> (push_site, unit) act" where
  "writeDigestFile P path content =
     (if has_prefix path ''https://'' then send_put P path content
      else
        let parentDir = dir path
        in sbind (sgets (\<lambda>s. os_Stat (files (fst s)) parentDir)) (\<lambda>st.
           sthen (swhen (case st of Inl e \<Rightarrow> is_not_exist e | Inr _ \<Rightarrow> False) (on_disk (os_MkdirAll parentDir 448)))
                 (on_disk (os_WriteFile path content 420))))"

text \<open>One line of the file of image names\<close>

definition name_line :: "KanikoOptions \<Rightarrow> string \<Rightarrow> reference \<Rightarrow> string" where
  "name_line opts digest destRef =
     (let tag = (if ImageNameTagDigestFile opts \<noteq> [] \<and> ref_ident destRef \<noteq> [] then '':'' @ ref_ident destRef else [])
      in context_String destRef @ tag @ ''@'' @ digest @ [CHR 0x0A])"

definition image_output :: "pusher \<Rightarrow> string \<Rightarrow> reference \<Rightarrow> string" where
  "image_output P digest r =
     ''{'' @ json_string ''name'' @ '':'' @ json_string (ref_String P r) @ '','' @ json_string ''digest'' @ '':'' @ json_string digest
     @ ''}'' @ [CHR 0x0A]"

text \<open>The file is created before the digest is asked for.\<close>

definition writeImageOutputs :: "pusher \<Rightarrow> registry \<Rightarrow> image \<Rightarrow> reference list \<Rightarrow> (push_site, unit) act" where
  "writeImageOutputs P R img destRefs =
     (let dir = push_getenv P ''BUILDER_OUTPUT''; path = join_path [dir, ''images'']
      in if dir = [] then sret ()
         else sthen (on_disk (os_Create path []))
               (sbind (sreads (\<lambda>_. img_Digest R img)) (\<lambda>d.
                  on_disk (os_Create path (concat (map (image_output P d) destRefs))))))"

subsection \<open>Pushing an image\<close>

definition push_attempt :: "pusher \<Rightarrow> registry \<Rightarrow> KanikoOptions \<Rightarrow> image \<Rightarrow> reference \<Rightarrow> (push_site, unit) act" where
  "push_attempt P R opts img ref =
     sbind (sreads (\<lambda>_. img_Digest R img)) (\<lambda>dig.
     sbind (stry (send_image P ref img)) (\<lambda>r. case r of
         Inr _ \<Rightarrow> sret ()
       | Inl e \<Rightarrow>
           if \<not> PushIgnoreImmutableTagErrors (Registry opts) then sfail e
           else if list_ex (\<lambda>candidate. contains (error_text P e) candidate) errTagImmutable then sret ()
           else sfail e))"

definition push_to :: "pusher \<Rightarrow> registry \<Rightarrow> KanikoOptions \<Rightarrow> image \<Rightarrow> reference \<Rightarrow> (push_site, unit) act" where
  "push_to P R opts img destRef =
     sbind (sreads (\<lambda>_. insecure_ref R opts destRef)) (\<lambda>ref.
     sthen (swrap ''resolving pushAuth'' (sreads (\<lambda>_. resolve_auth P (ref_registry ref))))
    (sthen (swrap (''making transport for registry '' @ ref_registry destRef)
              (sreads (\<lambda>_. make_transport R (Registry opts) (ref_registry destRef))))
           (swrap (''failed to push to destination '' @ ref_String P ref)
              (Retry (PushRetry (Registry opts)) (push_attempt P R opts img ref)))))"

definition setDummyDestinations :: "KanikoOptions \<Rightarrow> KanikoOptions" where
  "setDummyDestinations opts = opts\<lparr>Destinations := DummyDestinations\<rparr>"

text \<open>\<open>DoPush\<close> up to the point where it decides about pushing: the digest files, the layout and the tarball. The result is
  the options, whose destinations it may have set, and the references of the destinations.\<close>

definition prepare_push :: "pusher \<Rightarrow> registry \<Rightarrow> image \<Rightarrow> KanikoOptions \<Rightarrow> (push_site, KanikoOptions \<times> reference list) act" where
  "prepare_push P R img opts =
     sbind (if DigestFile opts \<noteq> [] \<or> ImageNameDigestFile opts \<noteq> [] \<or> ImageNameTagDigestFile opts \<noteq> []
            then swrap ''error fetching digest'' (sreads (\<lambda>_. img_Digest R img)) else sret []) (\<lambda>digest.
     sthen (swhen (DigestFile opts \<noteq> []) (swrap ''writing digest to file failed'' (writeDigestFile P (DigestFile opts) digest)))
    (sthen (swhen (OCILayoutPath opts \<noteq> [])
              (sthen (swrap ''writing empty layout'' (on_disk (layout_write P (OCILayoutPath opts))))
                     (swrap ''appending image'' (on_disk (append_image P (OCILayoutPath opts) img)))))
      (let opts = (if NoPush opts \<and> Destinations opts = [] \<and> TarPath opts \<noteq> [] then setDummyDestinations opts else opts)
       in sbind (swrap ''getting tag for destination'' (sreads (\<lambda>_. rmap (new_tag R) (Destinations opts)))) (\<lambda>destRefs.
          let names = (if ImageNameDigestFile opts \<noteq> [] \<or> ImageNameTagDigestFile opts \<noteq> []
                       then concat (map (name_line opts digest) destRefs) else [])
          in sthen (swhen (ImageNameDigestFile opts \<noteq> [])
                     (swrap ''writing image name with digest to file failed'' (writeDigestFile P (ImageNameDigestFile opts) names)))
            (sthen (swhen (ImageNameTagDigestFile opts \<noteq> [])
                     (swrap ''writing image name with image tag and digest to file failed'' (writeDigestFile P (ImageNameTagDigestFile opts) names)))
            (sthen (swhen (TarPath opts \<noteq> [])
                     (swrap ''writing tarball to file failed''
                       (on_disk (multi_write P (TarPath opts) (fold (\<lambda>d m. gm_set m d img) destRefs [])))))
                   (sret (opts, destRefs))))))))"

definition DoPush :: "pusher \<Rightarrow> registry \<Rightarrow> image \<Rightarrow> KanikoOptions \<Rightarrow> (push_site, unit) act" where
  "DoPush P R img opts =
     (if \<not> NoPush opts \<and> Destinations opts = [] then sfail (Msg ''must provide at least one destination to push'')
      else sbind (prepare_push P R img opts) (\<lambda>(opts, destRefs).
        if NoPush opts then sret ()
        else sthen (sfold (push_to P R opts img) destRefs) (writeImageOutputs P R img destRefs)))"

subsection \<open>Pushing a layer to the cache\<close>

definition cache_layer_options :: "KanikoOptions \<Rightarrow> LayerOption list" where
  "cache_layer_options opts =
     (if CompressedCaching opts then [WithCompressedCaching] else [])
     @ (if CompressionLevel opts > 0 then [WithCompressionLevel (CompressionLevel opts)] else [])
     @ (case Compression_opt opts of ZStd \<Rightarrow> [WithCompression ''zstd'', WithMediaType OCILayerZStd] | _ \<Rightarrow> [])"

definition cache_options :: "KanikoOptions \<Rightarrow> string \<Rightarrow> KanikoOptions" where
  "cache_options opts cache =
     (let cacheOpts = opts\<lparr>TarPath := [], NoPush := NoPushCache opts, Destinations := [cache]\<rparr>
      in if isOCILayout cache then cacheOpts\<lparr>OCILayoutPath := trim_prefix cache ''oci:'', NoPush := True\<rparr> else cacheOpts)"

text \<open>The tar file of the layer is given by its entries, or the error of opening it.\<close>

definition pushLayerToCache :: "pusher \<Rightarrow> registry \<Rightarrow> KanikoOptions \<Rightarrow> string \<Rightarrow> tar_entry list res \<Rightarrow> string \<Rightarrow> (push_site, unit) act" where
  "pushLayerToCache P R opts cacheKey tar_file createdBy =
     sbind (sreads (\<lambda>_. tar_file)) (\<lambda>es.
       let layer = layer_from (Inr es) (cache_layer_options opts)
       in sbind (swrap ''getting cache destination'' (sreads (\<lambda>_. Destination R opts cacheKey))) (\<lambda>cache.
          sbind (swrap ''setting empty image created time'' (sreads (\<lambda>_. mutate_CreatedAt empty_Image (now R)))) (\<lambda>empty.
            DoPush P R (mutate_Append empty layer createdBy) (cache_options opts cache))))"

subsection \<open>Every destination gets the image\<close>

definition accepted :: "pusher \<Rightarrow> KanikoOptions \<Rightarrow> unit res \<Rightarrow> bool" where
  "accepted P opts a =
     (case a of
        Inr _ \<Rightarrow> True
      | Inl e \<Rightarrow> PushIgnoreImmutableTagErrors (Registry opts) \<and> list_ex (\<lambda>c. contains (error_text P e) c) errTagImmutable)"

text \<open>The requests that push an image to one reference: attempts that failed, at most as many as there are retries, and
  one that was accepted\<close>

definition delivers :: "pusher \<Rightarrow> KanikoOptions \<Rightarrow> image \<Rightarrow> reference \<Rightarrow> (reference \<times> image \<times> unit res) list \<Rightarrow> bool" where
  "delivers P opts img ref ws \<longleftrightarrow>
     ws \<noteq> [] \<and> length ws \<le> Suc (PushRetry (Registry opts)) \<and> list_all (\<lambda>w. fst w = ref \<and> fst (snd w) = img) ws \<and>
     list_all (\<lambda>w. \<not> accepted P opts (snd (snd w))) (butlast ws) \<and> accepted P opts (snd (snd (last ws)))"

definition writes_are :: "(reference \<times> image \<times> unit res) list \<Rightarrow> push_site \<Rightarrow> bool" where
  "writes_are ws s \<longleftrightarrow> writes (snd s) = ws"

lemma writes_disk [keeps_rules]: "keeps (writes_are ws) (on_disk m)" "keeps (writes_are ws) (send_put P url d)"
  by (auto simp: keeps_def writes_are_def on_disk_def send_put_def split: prod.splits)

lemma writes_files [keeps_rules]:
  "keeps (writes_are ws) (writeDigestFile P path c)" "keeps (writes_are ws) (writeImageOutputs P R img rs)"
  unfolding writeDigestFile_def writeImageOutputs_def Let_def by (intro keeps_rules)+

lemma writes_Inr: "keeps (writes_are (writes (snd s))) m \<Longrightarrow> m s = (r, t) \<Longrightarrow> writes (snd t) = writes (snd s)"
  using keepsD [of "writes_are (writes (snd s))" m s] by (simp add: writes_are_def)

lemma push_attempt_eq:
  assumes "img_Digest R img = Inr d"
  shows "push_attempt P R opts img ref s =
    (let a = remote_write P (snd s) ref img in
     (if accepted P opts a then Inr () else a, fst s, (snd s)\<lparr>writes := writes (snd s) @ [(ref, img, a)]\<rparr>))"
  using assms
  by (simp add: push_attempt_def act_defs send_image_def Let_def accepted_def stry_def split: sum.split)

lemma Retry_delivers:
  assumes "img_Digest R img = Inr d" and "Retry n (push_attempt P R opts img ref) s = (Inr (), t)"
  shows "\<exists>ws. writes (snd t) = writes (snd s) @ ws \<and> ws \<noteq> [] \<and> length ws \<le> Suc n \<and>
    list_all (\<lambda>w. fst w = ref \<and> fst (snd w) = img) ws \<and>
    list_all (\<lambda>w. \<not> accepted P opts (snd (snd w))) (butlast ws) \<and> accepted P opts (snd (snd (last ws)))"
  using assms(2)
proof (induction n arbitrary: s)
  case 0
  then show ?case
    by (intro exI [of _ "[(ref, img, remote_write P (snd s) ref img)]"])
      (auto simp: push_attempt_eq [OF assms(1)] Let_def accepted_def split: if_splits sum.splits)
next
  case (Suc n)
  let ?a = "remote_write P (snd s) ref img"
  let ?s = "(fst s, (snd s)\<lparr>writes := writes (snd s) @ [(ref, img, ?a)]\<rparr>)"
  show ?case
  proof (cases "accepted P opts ?a")
    case True
    with Suc.prems show ?thesis
      by (intro exI [of _ "[(ref, img, ?a)]"]) (auto simp: push_attempt_eq [OF assms(1)] Let_def)
  next
    case False
    then obtain e where "?a = Inl e" by (cases ?a) (auto simp: accepted_def)
    with False Suc.prems have "Retry n (push_attempt P R opts img ref) ?s = (Inr (), t)"
      by (simp add: push_attempt_eq [OF assms(1), of P opts ref s] Let_def)
    from Suc.IH [OF this] obtain ws where "writes (snd t) = writes (snd s) @ (ref, img, ?a) # ws" "ws \<noteq> []" "length ws \<le> Suc n"
      "list_all (\<lambda>w. fst w = ref \<and> fst (snd w) = img) ws" "list_all (\<lambda>w. \<not> accepted P opts (snd (snd w))) (butlast ws)"
      "accepted P opts (snd (snd (last ws)))" by auto
    with False show ?thesis by (intro exI [of _ "(ref, img, ?a) # ws"]) simp
  qed
qed

lemma push_to_delivers:
  assumes "push_to P R opts img r s = (Inr u, t)"
  shows "\<exists>ref ws. insecure_ref R opts r = Inr ref \<and> writes (snd t) = writes (snd s) @ ws \<and> delivers P opts img ref ws"
proof -
  from assms obtain ref where ref: "insecure_ref R opts r = Inr ref"
    and ry: "Retry (PushRetry (Registry opts)) (push_attempt P R opts img ref) s = (Inr (), t)"
    by (auto simp: push_to_def act_Inr)
  have "\<exists>d. img_Digest R img = Inr d"
  proof (rule ccontr)
    assume "\<not> ?thesis"
    then obtain e where "img_Digest R img = Inl e" by (cases "img_Digest R img") auto
    then have f: "push_attempt P R opts img ref s' = (Inl e, s')" for s' by (simp add: push_attempt_def act_defs)
    have "fst (Retry n (push_attempt P R opts img ref) s) = Inl e" for n by (induction n) (simp_all add: f)
    with ry show False by (metis Inl_Inr_False fst_conv)
  qed
  with Retry_delivers [OF _ ry] ref show ?thesis unfolding delivers_def by blast
qed

lemma push_all_delivers:
  assumes "sfold (push_to P R opts img) rs s = (Inr u, t)"
  shows "\<exists>bs. writes (snd t) = writes (snd s) @ concat bs \<and>
    list_all2 (\<lambda>r b. \<exists>ref. insecure_ref R opts r = Inr ref \<and> delivers P opts img ref b) rs bs"
  using assms
proof (induction rs arbitrary: s)
  case Nil
  then show ?case by (intro exI [of _ "[]"]) (simp add: sret_def)
next
  case (Cons r rs)
  then obtain s' where s': "push_to P R opts img r s = (Inr (), s')" "sfold (push_to P R opts img) rs s' = (Inr u, t)"
    by (auto split: prod.splits sum.splits)
  from push_to_delivers [OF s'(1)] Cons.IH [OF s'(2)] obtain ref ws bs where
    "insecure_ref R opts r = Inr ref" "delivers P opts img ref ws" "writes (snd s') = writes (snd s) @ ws"
    "writes (snd t) = writes (snd s') @ concat bs"
    "list_all2 (\<lambda>r b. \<exists>ref. insecure_ref R opts r = Inr ref \<and> delivers P opts img ref b) rs bs" by blast
  then show ?case by (intro exI [of _ "ws # bs"]) auto
qed

text \<open>The files written first do not touch the registries; when the image is to be pushed, the references are those of
  the destinations.\<close>

lemma writes_prepare [keeps_rules]: "keeps (writes_are ws) (prepare_push P R img opts)"
  unfolding prepare_push_def Let_def by (intro keeps_rules)

lemma prepare_result:
  "prepare_push P R img opts s = (Inr (opts', rs), t) \<Longrightarrow> NoPush opts' = NoPush opts \<and>
     (\<not> NoPush opts \<longrightarrow> opts' = opts \<and> rmap (new_tag R) (Destinations opts) = Inr rs)"
proof -
  let ?o = "if NoPush opts \<and> Destinations opts = [] \<and> TarPath opts \<noteq> [] then setDummyDestinations opts else opts"
  assume "prepare_push P R img opts s = (Inr (opts', rs), t)"
  then have "opts' = ?o \<and> rmap (new_tag R) (Destinations ?o) = Inr rs"
    unfolding prepare_push_def Let_def act_Inr prod.inject sum.inject by blast
  then show ?thesis by (auto simp: setDummyDestinations_def split: if_splits)
qed

lemma DoPush_pushed:
  assumes "DoPush P R img opts s = (Inr (), t)" and "\<not> NoPush opts"
  obtains rs s1 s2 where "rmap (new_tag R) (Destinations opts) = Inr rs" "rs \<noteq> []" "writes (snd s1) = writes (snd s)"
    "sfold (push_to P R opts img) rs s1 = (Inr (), s2)" "writes (snd t) = writes (snd s2)"
proof -
  from assms obtain opts' rs s1 where s1: "prepare_push P R img opts s = (Inr (opts', rs), s1)" and ne: "Destinations opts \<noteq> []"
    and t: "(if NoPush opts' then sret () else sthen (sfold (push_to P R opts' img) rs) (writeImageOutputs P R img rs)) s1 = (Inr (), t)"
    by (auto simp: DoPush_def act_Inr split: if_splits)
  note o1 = prepare_result [OF s1]
  with assms(2) t obtain s2 where s2: "sfold (push_to P R opts img) rs s1 = (Inr (), s2)" "writeImageOutputs P R img rs s2 = (Inr (), t)"
    by (auto simp: act_Inr)
  moreover from o1 assms(2) ne rmap_Inr_length [of "new_tag R" "Destinations opts" rs] have "rs \<noteq> []" by auto
  ultimately show ?thesis using o1 assms(2) writes_Inr [OF writes_prepare s1] writes_Inr [OF writes_files(2) s2(2)] that by blast
qed

lemma DoPush_not_pushed:
  assumes "DoPush P R img opts s = (r, t)" and "NoPush opts"
  shows "writes (snd t) = writes (snd s)"
proof -
  obtain r1 s1 where s1: "prepare_push P R img opts s = (r1, s1)" by (metis surj_pair)
  with assms have "t = s1" by (cases r1) (auto simp: DoPush_def act_defs dest: prepare_result split: if_splits)
  with writes_Inr [OF writes_prepare s1] show ?thesis by simp
qed

text \<open>The requests by which an image gets to all destinations\<close>

definition carried :: "pusher \<Rightarrow> registry \<Rightarrow> KanikoOptions \<Rightarrow> image \<Rightarrow> (reference \<times> image \<times> unit res) list \<Rightarrow> bool" where
  "carried P R opts img ws \<longleftrightarrow>
     (if NoPush opts then ws = []
      else \<exists>rs bs. rmap (new_tag R) (Destinations opts) = Inr rs \<and> rs \<noteq> [] \<and> ws = concat bs \<and>
        list_all2 (\<lambda>r b. \<exists>ref. insecure_ref R opts r = Inr ref \<and> delivers P opts img ref b) rs bs)"

lemma DoPush_carries:
  assumes "DoPush P R img opts s = (Inr (), t)"
  shows "\<exists>ws. writes (snd t) = writes (snd s) @ ws \<and> carried P R opts img ws"
proof (cases "NoPush opts")
  case False
  obtain rs s1 s2 where "rmap (new_tag R) (Destinations opts) = Inr rs" "rs \<noteq> []" "writes (snd s1) = writes (snd s)"
    "sfold (push_to P R opts img) rs s1 = (Inr (), s2)" "writes (snd t) = writes (snd s2)"
    by (rule DoPush_pushed [OF assms False])
  with push_all_delivers [of P R opts img rs s1 "()" s2] False show ?thesis by (auto simp: carried_def)
qed (simp add: carried_def DoPush_not_pushed [OF assms])

text \<open>C24. A push that reports success has delivered the image: for each destination, in their order, there are the requests
  that carry this image to it, at most one more than the retries, of which exactly the last was accepted, and no other
  image was written anywhere; with \<open>--no-push\<close> nothing is written to a registry.\<close>

theorem DoPush_delivers:
  assumes "DoPush P R img opts s = (Inr (), t)"
  shows "if NoPush opts then writes (snd t) = writes (snd s)
    else \<exists>rs bs. rmap (new_tag R) (Destinations opts) = Inr rs \<and> rs \<noteq> [] \<and> writes (snd t) = writes (snd s) @ concat bs \<and>
      list_all2 (\<lambda>r b. \<exists>ref. insecure_ref R opts r = Inr ref \<and> delivers P opts img ref b) rs bs"
  using DoPush_carries [OF assms] by (auto simp: carried_def split: if_splits)

subsection \<open>Permissions\<close>

lemma insecure_context: "insecure_ref R opts r = Inr ref \<Longrightarrow> context_String ref = context_String r \<and> ref_registry ref = ref_registry r"
  by (auto simp: insecure_ref_def context_String_def setNewRegistry_def split: if_splits)

lemma check_targets_ok:
  assumes "check_targets P R opts checked ds s = (Inr (), t)"
  shows "\<exists>new. permission_checks (snd t) = permission_checks (snd s) @ new \<and> list_all (\<lambda>c. snd c = Inr ()) new \<and>
    distinct (map (\<lambda>c. context_String (fst c)) new) \<and> list_all (\<lambda>c. gm_get checked (context_String (fst c)) \<noteq> Some True) new \<and>
    list_all (\<lambda>d. \<exists>r. new_tag R d = Inr r \<and>
      (gm_get checked (context_String r) = Some True \<or> context_String r \<in> set (map (\<lambda>c. context_String (fst c)) new))) ds"
  using assms
proof (induction ds arbitrary: checked s)
  case Nil
  then show ?case by (intro exI [of _ "[]"]) (simp add: sret_def)
next
  case (Cons d ds)
  then obtain r where r: "new_tag R d = Inr r"
    and step: "(if gm_get checked (context_String r) = Some True then check_targets P R opts checked ds
       else sbind (sreads (\<lambda>_. insecure_ref R opts r)) (\<lambda>ref.
         sthen (swrap (''making transport for registry '' @ ref_registry r) (sreads (\<lambda>_. make_transport R (Registry opts) (ref_registry r))))
        (sthen (swrap (''checking push permission for '' @ ref_String P ref) (send_check P ref))
               (check_targets P R opts (gm_set checked (context_String ref) True) ds)))) s = (Inr (), t)"
    by (auto simp: act_Inr)
  show ?case
  proof (cases "gm_get checked (context_String r) = Some True")
    case True
    with step have "check_targets P R opts checked ds s = (Inr (), t)" by simp
    from Cons.IH [OF this] True r show ?thesis by auto
  next
    case False
    with step obtain ref s1 where ref: "insecure_ref R opts r = Inr ref" and s1: "send_check P ref s = (Inr (), s1)"
      and t: "check_targets P R opts (gm_set checked (context_String ref) True) ds s1 = (Inr (), t)"
      by (auto simp: act_Inr)
    have c: "context_String ref = context_String r" using insecure_context [OF ref] by simp
    from s1 have "permission_checks (snd s1) = permission_checks (snd s) @ [(ref, Inr ())]" by (auto simp: send_check_def Let_def)
    with Cons.IH [OF t] obtain new where "permission_checks (snd t) = permission_checks (snd s) @ (ref, Inr ()) # new"
      and new: "list_all (\<lambda>c. snd c = Inr ()) new" "distinct (map (\<lambda>c. context_String (fst c)) new)"
        "list_all (\<lambda>x. gm_get (gm_set checked (context_String r) True) (context_String (fst x)) \<noteq> Some True) new"
        "list_all (\<lambda>d. \<exists>q. new_tag R d = Inr q \<and> (gm_get (gm_set checked (context_String r) True) (context_String q) = Some True \<or>
           context_String q \<in> set (map (\<lambda>c. context_String (fst c)) new))) ds" by (auto simp: c)
    with False r show ?thesis
      by (intro exI [of _ "(ref, Inr ()) # new"], auto simp: c list_all_iff split: if_splits) blast
  qed
qed


subsection \<open>A layer that was pushed to the cache is found there\<close>

lemma delivers_last:
  assumes "delivers P opts img ref ws" and "\<not> PushIgnoreImmutableTagErrors (Registry opts)"
  shows "last ws = (ref, img, Inr ())"
proof -
  from assms(1) have "last ws \<in> set ws" "accepted P opts (snd (snd (last ws)))" "list_all (\<lambda>w. fst w = ref \<and> fst (snd w) = img) ws"
    by (auto simp: delivers_def)
  with assms(2) show ?thesis by (cases "last ws") (auto simp: list_all_iff accepted_def split: sum.splits)
qed

text \<open>What is written last under a reference is what the registry serves.\<close>

definition serves :: "registry \<Rightarrow> outbox \<Rightarrow> bool" where
  "serves R b \<longleftrightarrow> (\<forall>ws r i reqs. writes b = ws @ [(r, i, Inr ())] \<longrightarrow> remote_image R reqs r = Inr i)"

text \<open>C25. What one build pushes to the layer cache the next one finds there: once \<open>pushLayerToCache\<close> has pushed the layer of
  a command under a key to a registry that serves what was written to it last, \<open>RetrieveLayer\<close> with the same options
  and key returns an image whose only layer has the same files, with the command in its history, and which has not
  expired.\<close>

theorem cache_push_then_retrieve:
  assumes "pushLayerToCache P R opts ck (Inr es) createdBy s = (Inr (), t)"
    and "Destination R opts ck = Inr cache" and "\<not> isOCILayout cache" and "\<not> NoPushCache opts"
    and "\<not> PushIgnoreImmutableTagErrors (Registry opts)" and "0 \<le> CacheTTL (CacheOpts opts)" and "serves R (snd t)"
  shows "\<exists>img cf. fst (RetrieveLayer R fs opts ck n) = Inr img \<and> layer_tars img = Inr [Inr es] \<and>
    img_config img = Inr cf \<and> History cf = [createdBy]"
proof -
  let ?e = "empty_Image\<lparr>img_config := Inr \<lparr>Config = empty_config, OS = [], Architecture = [], Created = now R, History = []\<rparr>, known_digest := None\<rparr>"
  let ?img = "mutate_Append ?e (layer_from (Inr es) (cache_layer_options opts)) createdBy" and ?o = "cache_options opts cache"
  have o: "Registry ?o = Registry opts" "Destinations ?o = [cache]" "\<not> NoPush ?o"
    using assms(3, 4) by (simp_all add: cache_options_def Let_def)
  have e: "mutate_CreatedAt empty_Image (now R) = Inr ?e"
    by (simp add: mutate_CreatedAt_def mutate_ConfigFile_def empty_Image_def)
  from assms(1, 2) e have "DoPush P R ?img ?o s = (Inr (), t)" by (simp add: pushLayerToCache_def act_Inr)
  then obtain rs s1 s2 where rs: "rmap (new_tag R) (Destinations ?o) = Inr rs" and s2: "sfold (push_to P R ?o ?img) rs s1 = (Inr (), s2)"
    and t: "writes (snd t) = writes (snd s2)" by (rule DoPush_pushed [OF _ o(3)])
  from rs o(2) obtain r where r: "new_tag R cache = Inr r" "rs = [r]" by auto
  with s2 have p: "push_to P R ?o ?img r s1 = (Inr (), s2)" by (auto split: prod.splits sum.splits)
  then have tr: "make_transport R (Registry opts) (ref_registry r) = Inr ()" by (auto simp: push_to_def act_Inr o)
  from push_to_delivers [OF p] obtain ref ws where ref: "insecure_ref R ?o r = Inr ref" and ws: "writes (snd s2) = writes (snd s1) @ ws"
    "delivers P ?o ?img ref ws" by auto
  from ws(2) have "ws \<noteq> []" by (simp add: delivers_def)
  with delivers_last [OF ws(2)] assms(5) have "ws = butlast ws @ [(ref, ?img, Inr ())]" by (metis append_butlast_last_id o(1))
  with ws(1) t assms(7) have served: "remote_image R reqs ref = Inr ?img" for reqs unfolding serves_def by (metis append_assoc)
  have reg: "(if Insecure (Registry opts) \<or> multiArg_Contains (InsecureRegistries (Registry opts)) (ref_registry r)
      then sbind (sreads (\<lambda>_. valid_registry R (ref_registry r))) (\<lambda>_. sret (setNewRegistry r (ref_registry r))) else sret r) n = (Inr ref, n)"
    using ref by (auto simp: insecure_ref_def o act_defs split: if_splits)
  have oci: "\<not> isOCILayout (CacheRepo opts)"
    using assms(2, 3) by (auto simp: Destination_def isOCILayout_def has_prefix_def split: if_splits)
  have "verifyImage R ?img (CacheTTL (CacheOpts opts)) cache = Inr ()"
    using assms(6) by (simp add: verifyImage_def mutate_Append_def empty_Image_def)
  with oci have "fst (RetrieveLayer R fs opts ck n) = Inr ?img"
    using assms(2) r tr served
    by (simp add: RetrieveLayer_def registry_RetrieveLayer_def sbind_def swrap_def sreads_def reg fetch_def sret_def del: split_paired_All)
  then show ?thesis by (auto simp: mutate_Append_def layer_tars_def empty_Image_def layer_from_def)
qed

subsection \<open>Examples\<close>

definition demo_pusher :: pusher where
  "demo_pusher = \<lparr>check_push = (\<lambda>_ _. Inr ()), remote_write = (\<lambda>b _ _. if writes b = [] then Inl (Msg ''502'') else Inr ()),
     http_put = (\<lambda>_ _ _. Inr ()), resolve_auth = (\<lambda>_. Inr ()), ref_String = context_String, error_text = (\<lambda>_. []),
     layout_write = (\<lambda>_. sret ()), append_image = (\<lambda>_ _. sret ()), multi_write = (\<lambda>_ _. sret ()),
     push_getenv = (\<lambda>_. []), program_version = ''v1''\<rparr>"

definition demo_outbox :: outbox where
  "demo_outbox = \<lparr>writes = [], permission_checks = [], puts = []\<rparr>"

definition push_options :: KanikoOptions where
  "push_options = default_options\<lparr>Destinations := [''a:1'', ''a:2''], Registry := no_registry_options\<lparr>PushRetry := 1\<rparr>\<rparr>"

theorem DoPush_delivers_witness:
  "let r = DoPush demo_pusher offline_registry empty_Image push_options (demo_world ''/'', demo_outbox)
   in is_ok (fst r) \<and> length (writes (snd (snd r))) = 3 \<and>
      (\<exists>bs. writes (snd (snd r)) = concat bs \<and> length bs = 2)"
proof -
  let ?r = "DoPush demo_pusher offline_registry empty_Image push_options (demo_world ''/'', demo_outbox)"
  have ok: "is_ok (fst ?r)" "length (writes (snd (snd ?r))) = 3" by code_simp+
  have "\<not> NoPush push_options" "length (Destinations push_options) = 2" by (simp_all add: push_options_def default_options_def)
  with DoPush_delivers [OF is_ok_unit [OF ok(1)]] obtain rs bs where
    "rmap (new_tag offline_registry) (Destinations push_options) = Inr rs" "writes (snd (snd ?r)) = concat bs"
    "length bs = length rs" "length (Destinations push_options) = 2"
    by (auto simp: demo_outbox_def dest: list_all2_lengthD)
  with ok rmap_Inr_length [of "new_tag offline_registry" "Destinations push_options" rs] show ?thesis by (auto simp: Let_def)
qed


text \<open>A registry that serves one image, the one pushed below\<close>

definition cached_demo :: image where
  "cached_demo = mutate_Append (empty_Image\<lparr>img_config := Inr \<lparr>Config = empty_config, OS = [], Architecture = [], Created = 0, History = []\<rparr>\<rparr>)
     (layer_from (Inr []) [WithCompressedCaching]) ''RUN true''"

definition serving_registry :: registry where
  "serving_registry = offline_registry\<lparr>remote_image := (\<lambda>_ _. Inr cached_demo)\<rparr>"

theorem cache_push_then_retrieve_witness:
  "let r = pushLayerToCache demo_pusher serving_registry push_options ''k'' (Inr []) ''RUN true'' (demo_world ''/'', demo_outbox)
   in is_ok (fst r) \<and> (\<exists>img. fst (RetrieveLayer serving_registry demo_fs push_options ''k'' \<lparr>requests = [], manifestCache = []\<rparr>) = Inr img \<and>
        layer_tars img = Inr [Inr []])"
proof -
  let ?r = "pushLayerToCache demo_pusher serving_registry push_options ''k'' (Inr []) ''RUN true'' (demo_world ''/'', demo_outbox)"
  have ok: "is_ok (fst ?r)" by code_simp
  have w: "list_all (\<lambda>w. fst (snd w) = cached_demo) (writes (snd (snd ?r)))" by code_simp
  have "serves serving_registry (snd (snd ?r))" using w by (auto simp: serves_def serving_registry_def list_all_iff)
  moreover have "Destination serving_registry push_options ''k'' = Inr ''docker.io/library/alpine/cache:k''" by code_simp
  moreover have "\<not> isOCILayout ''docker.io/library/alpine/cache:k''" "\<not> NoPushCache push_options"
    "\<not> PushIgnoreImmutableTagErrors (Registry push_options)" "0 \<le> CacheTTL (CacheOpts push_options)" by code_simp+
  ultimately show ?thesis
    using cache_push_then_retrieve [OF is_ok_unit [OF ok]] ok unfolding Let_def by blast
qed

end
