(* ===== verification/Sandbox_Setup.thy ===== *)
theory Sandbox_Setup
  imports Sandbox_Proc Snapshot "HOL-Library.Word"
begin

unbundle bit_operations_syntax

text \<open>
  The sandbox part of \<open>cmd/executor/cmd/root.go\<close>: preparing \<open>/kaniko/sandbox\<close> before a build, mounting the kernel's file
  systems into it, and emptying it afterwards. What is mounted is not part of the file system of the model; the system calls
  that mount and unmount are listed in the state, and whether they succeed is a parameter, as is what happens to the copy of
  the program that is started in a user namespace.
\<close>

subsection \<open>State\<close>

record box =
  sbx :: sandbox
  KernelFSBindMounted :: bool
  binds :: "(string \<times> string) list"
  unmounts :: "string list"
  activeSandboxPath :: string
  teardown_done :: bool

record SysProcIDMap =
  ContainerID :: int
  HostID :: int
  MapSize :: int

record sandboxReExecStrategy =
  strategy_name :: string
  cloneflags :: "64 word"
  nsEnvValue :: string
  fullIDMap :: bool

text \<open>How an attempt to run the program again in a user namespace ends: it cannot be started, it ends with an exit
  code, or waiting for it fails.\<close>

datatype reexec = StartFailed err | Exited nat | WaitFailed err

record kernel =
  bind_mount :: "string \<Rightarrow> string \<Rightarrow> unit res"
  hostRand :: "string res"
  env_userns :: string
  uid :: int
  gid :: int
  try_reexec :: "sandboxReExecStrategy \<Rightarrow> SysProcIDMap list \<times> SysProcIDMap list \<times> bool \<Rightarrow> reexec"

definition on_sandbox :: "(sandbox, 'a) act \<Rightarrow> (box, 'a) act" where
  "on_sandbox m b = (case m (sbx b) of (r, s) \<Rightarrow> (r, b\<lparr>sbx := s\<rparr>))"

definition in_box :: "(world, 'a) act \<Rightarrow> (box, 'a) act" where
  "in_box m = on_sandbox (\<lambda>s. case m (sworld s) of (r, w) \<Rightarrow> (r, s\<lparr>sworld := w\<rparr>))"

definition box_files :: "box \<Rightarrow> filesys" where
  "box_files b = files (sworld (sbx b))"

definition DefaultKanikoPath :: string where "DefaultKanikoPath = ''/kaniko''"
definition DefaultSandboxPath :: string where "DefaultSandboxPath = ''/kaniko/sandbox''"

subsection \<open>Capabilities and user namespaces\<close>

definition hex_val :: "char \<Rightarrow> nat option" where
  "hex_val c =
     (let n = of_char c :: nat
      in if 48 \<le> n \<and> n \<le> 57 then Some (n - 48) else if 97 \<le> n \<and> n \<le> 102 then Some (n - 87)
         else if 65 \<le> n \<and> n \<le> 70 then Some (n - 55) else None)"

fun hex_digits :: "nat \<Rightarrow> string \<Rightarrow> nat option" where
  "hex_digits acc [] = Some acc"
| "hex_digits acc (c # cs) = (case hex_val c of None \<Rightarrow> None | Some d \<Rightarrow> hex_digits (acc * 16 + d) cs)"

text \<open>\<open>strconv.ParseUint(s, 16, 64)\<close>\<close>

definition parse_hex64 :: "string \<Rightarrow> 64 word res" where
  "parse_hex64 s =
     (case (if s = [] then None else hex_digits 0 s) of
        None \<Rightarrow> Inl (Msg ''invalid syntax'')
      | Some n \<Rightarrow> if n < 2 ^ 64 then Inr (of_nat n) else Inl (Msg ''value out of range''))"

definition capSysAdminBit :: nat where "capSysAdminBit = 21"

definition capStatusHasSysAdmin :: "filesys \<Rightarrow> string \<Rightarrow> bool" where
  "capStatusHasSysAdmin fs field =
     (case os_ReadFile fs ''/proc/self/status'' of
        Inl _ \<Rightarrow> False
      | Inr text \<Rightarrow>
          let pre = field @ '':''
          in case find (\<lambda>line. has_prefix line pre) (split_on (CHR 0x0A) text) of
               None \<Rightarrow> False
             | Some line \<Rightarrow>
                 (case parse_hex64 (trim_space (trim_prefix line pre)) of
                    Inl _ \<Rightarrow> False | Inr val \<Rightarrow> val AND push_bit capSysAdminBit 1 \<noteq> 0))"

definition hasCapSysAdmin :: "filesys \<Rightarrow> bool" where
  "hasCapSysAdmin fs = (capStatusHasSysAdmin fs ''CapEff'' \<or> capStatusHasSysAdmin fs ''CapPrm'')"

definition sandboxStandardIDMapSize :: int where "sandboxStandardIDMapSize = 65536"

definition sandboxUserNamespaceIDMaps :: "int \<Rightarrow> int \<Rightarrow> SysProcIDMap list \<times> SysProcIDMap list \<times> bool" where
  "sandboxUserNamespaceIDMaps callerUID callerGID =
     (if callerUID = 0 \<and> callerGID = 0 then
        let m = [\<lparr>ContainerID = 0, HostID = 0, MapSize = sandboxStandardIDMapSize\<rparr>] in (m, m, True)
      else ([\<lparr>ContainerID = 0, HostID = callerUID, MapSize = 1\<rparr>], [\<lparr>ContainerID = 0, HostID = callerGID, MapSize = 1\<rparr>], False))"

definition CLONE_NEWUSER :: "64 word" where "CLONE_NEWUSER = 0x10000000"
definition CLONE_NEWNS :: "64 word" where "CLONE_NEWNS = 0x00020000"
definition sandboxUserNSFull :: string where "sandboxUserNSFull = ''1''"
definition sandboxUserNSOnly :: string where "sandboxUserNSOnly = ''userns''"

definition strategies :: "sandboxReExecStrategy list" where
  "strategies =
     [\<lparr>strategy_name = ''user+mount namespace, full uid map'', cloneflags = CLONE_NEWUSER OR CLONE_NEWNS,
       nsEnvValue = sandboxUserNSFull, fullIDMap = True\<rparr>,
      \<lparr>strategy_name = ''user namespace only, full uid map'', cloneflags = CLONE_NEWUSER,
       nsEnvValue = sandboxUserNSOnly, fullIDMap = True\<rparr>,
      \<lparr>strategy_name = ''user+mount namespace, single uid map'', cloneflags = CLONE_NEWUSER OR CLONE_NEWNS,
       nsEnvValue = sandboxUserNSFull, fullIDMap = False\<rparr>,
      \<lparr>strategy_name = ''user namespace only, single uid map'', cloneflags = CLONE_NEWUSER,
       nsEnvValue = sandboxUserNSOnly, fullIDMap = False\<rparr>]"

definition strategy_maps :: "kernel \<Rightarrow> sandboxReExecStrategy \<Rightarrow> SysProcIDMap list \<times> SysProcIDMap list \<times> bool" where
  "strategy_maps K s =
     (if fullIDMap s then sandboxUserNamespaceIDMaps (uid K) (gid K)
      else ([\<lparr>ContainerID = 0, HostID = uid K, MapSize = 1\<rparr>], [\<lparr>ContainerID = 0, HostID = gid K, MapSize = 1\<rparr>], False))"

text \<open>\<open>Some\<close> is the exit code of a child that ran: the program then ends with it. \<open>None\<close> goes on with the next strategy.\<close>

definition tryReExecInUserNamespace :: "kernel \<Rightarrow> sandboxReExecStrategy \<Rightarrow> nat option" where
  "tryReExecInUserNamespace K s = (case try_reexec K s (strategy_maps K s) of Exited code \<Rightarrow> Some code | _ \<Rightarrow> None)"

fun first_exit :: "kernel \<Rightarrow> sandboxReExecStrategy list \<Rightarrow> nat option" where
  "first_exit K [] = None"
| "first_exit K (s # ss) = (case tryReExecInUserNamespace K s of Some code \<Rightarrow> Some code | None \<Rightarrow> first_exit K ss)"

definition reExecInUserNamespace :: "kernel \<Rightarrow> nat option" where
  "reExecInUserNamespace K = first_exit K strategies"

subsection \<open>Mount points\<close>

definition octal :: "char \<Rightarrow> bool" where
  "octal c \<longleftrightarrow> CHR ''0'' = c \<or> c \<in> set ''1234567''"

definition octal_byte :: "char \<Rightarrow> 8 word" where
  "octal_byte c = of_nat (of_char c) - 48"

fun unescape_loop :: "string \<Rightarrow> string" where
  "unescape_loop (c # c1 # c2 # c3 # s) =
     (if c = CHR 0x5C \<and> octal c1 \<and> octal c2 \<and> octal c3
      then char_of (unat (push_bit 6 (octal_byte c1) OR push_bit 3 (octal_byte c2) OR octal_byte c3)) # unescape_loop s
      else c # unescape_loop (c1 # c2 # c3 # s))"
| "unescape_loop s = s"

definition unescapeMountField :: "string \<Rightarrow> string" where
  "unescapeMountField s = (if \<not> contains s [CHR 0x5C] then s else unescape_loop s)"

definition sandbox_mount_points :: "string \<Rightarrow> string \<Rightarrow> string list" where
  "sandbox_mount_points sandboxPath text =
     filter (\<lambda>mp. mp = sandboxPath \<or> has_prefix mp (sandboxPath @ ''/''))
       (map (\<lambda>fs. unescapeMountField (fs ! 4))
         (filter (\<lambda>fs. 5 \<le> length fs) (map (split_on CHR '' '') (split_on (CHR 0x0A) text))))"

definition unmountSandboxMounts :: "string \<Rightarrow> (box, unit) act" where
  "unmountSandboxMounts sandboxPath b =
     (let p = MountInfoPath (conf (sworld (sbx b))); mountInfo = (if p = [] then ''/proc/self/mountinfo'' else p)
      in case os_ReadFile (box_files b) mountInfo of
           Inl e \<Rightarrow> (if is_not_exist e then Inr () else Inl e, b)
         | Inr text \<Rightarrow> (Inr (), b\<lparr>unmounts := unmounts b @ rev (sandbox_mount_points sandboxPath text)\<rparr>))"

subsection \<open>Emptying the sandbox\<close>

definition os_ReadDir :: "filesys \<Rightarrow> string \<Rightarrow> string list res" where
  "os_ReadDir fs p = rbind (os_Stat fs p) (\<lambda>n. if is_dir n then Inr (readDirNames fs p) else Inl (Sys ENOTDIR))"

fun remove_entries :: "string \<Rightarrow> string list \<Rightarrow> err option \<Rightarrow> (filesys, unit) act" where
  "remove_entries sandboxPath [] firstErr = (case firstErr of None \<Rightarrow> sret () | Some e \<Rightarrow> sfail e)"
| "remove_entries sandboxPath (x # xs) firstErr =
     sbind (stry (os_RemoveAll (join_path [sandboxPath, x]))) (\<lambda>r.
       remove_entries sandboxPath xs (case (firstErr, r) of (None, Inl e) \<Rightarrow> Some e | _ \<Rightarrow> firstErr))"

definition wipeSandboxContents :: "string \<Rightarrow> (box, unit) act" where
  "wipeSandboxContents sandboxPath =
     sthen (signore (unmountSandboxMounts sandboxPath))
    (sbind (sgets (\<lambda>b. os_ReadDir (box_files b) sandboxPath)) (\<lambda>entries. case entries of
         Inl e \<Rightarrow> if is_not_exist e then sret () else sfail (Wrap ''reading sandbox directory'' e)
       | Inr names \<Rightarrow> in_box (on_files (remove_entries sandboxPath names None))))"

definition teardownSandboxIfActive :: "(box, unit) act" where
  "teardownSandboxIfActive b =
     (if activeSandboxPath b = [] \<or> teardown_done b then (Inr (), b)
      else signore (wipeSandboxContents (activeSandboxPath b)) (b\<lparr>teardown_done := True\<rparr>))"

subsection \<open>The kernel's file systems and the runtime files\<close>

definition sandboxKernelMounts :: "(string \<times> string \<times> nat) list" where
  "sandboxKernelMounts = [(''/proc'', ''proc'', 365), (''/sys'', ''sys'', 365), (''/dev'', ''dev'', 493)]"

text \<open>Whether the mount was made; the target is ignored in any case.\<close>

definition mount_one :: "kernel \<Rightarrow> string \<Rightarrow> string \<times> string \<times> nat \<Rightarrow> (box, bool) act" where
  "mount_one K sandboxPath mt =
     (case mt of (source, tgt, mode) \<Rightarrow>
       let target = join_path [sandboxPath, tgt]
       in sthen (in_box (smodify (AddToDefaultIgnoreList (entry target False))))
         (sbind (sgets (\<lambda>b. os_Stat (box_files b) source)) (\<lambda>st.
            if \<not> is_ok st then sret False
            else sbind (stry (in_box (on_files (os_MkdirAll target mode)))) (\<lambda>mk.
              if \<not> is_ok mk \<or> \<not> is_ok (bind_mount K source target) then sret False
              else sthen (smodify (\<lambda>b. b\<lparr>binds := binds b @ [(source, target)]\<rparr>)) (sret True)))))"

definition mountSandboxKernelFilesystems :: "kernel \<Rightarrow> string \<Rightarrow> (box, unit) act" where
  "mountSandboxKernelFilesystems K sandboxPath =
     sthen (smodify (\<lambda>b. b\<lparr>KernelFSBindMounted := False, sbx := (sbx b)\<lparr>SandboxProcSelfStub := False\<rparr>\<rparr>))
    (sbind (smap (mount_one K sandboxPath) sandboxKernelMounts) (\<lambda>ms.
     sthen (smodify (\<lambda>b. b\<lparr>KernelFSBindMounted := list_all (\<lambda>m. m) ms\<rparr>))
       (let mountedTargets = map_of (zip (map (fst \<circ> snd) sandboxKernelMounts) ms);
            need = (\<lambda>t. mountedTargets t \<noteq> Some True)
        in swhen (need ''proc'' \<or> need ''sys'' \<or> need ''dev'')
             (signore (on_sandbox (SetupSandboxStubKernelFilesystems (hostRand K) sandboxPath (need ''proc'') (need ''sys'') (need ''dev'')))))))"

definition copySandboxRuntimeFile :: "string \<Rightarrow> string \<Rightarrow> (world, unit) act" where
  "copySandboxRuntimeFile path sandboxPath =
     sbind (sreads (\<lambda>w. os_ReadFile (files w) path)) (\<lambda>contents.
       let dest = join_path [sandboxPath, trim_prefix (clean path) ''/'']
       in sthen (on_files (os_MkdirAll (dir dest) 493)) (on_files (os_WriteFile dest contents 420)))"

definition setup_runtime_file :: "string \<Rightarrow> string \<Rightarrow> (world, unit) act" where
  "setup_runtime_file sandboxPath path =
     sthen (smodify (AddToDefaultIgnoreList (entry path False))) (signore (copySandboxRuntimeFile path sandboxPath))"

definition setupSandboxRuntimeFiles :: "string \<Rightarrow> (world, unit) act" where
  "setupSandboxRuntimeFiles sandboxPath = sfold (setup_runtime_file sandboxPath) [''/etc/resolv.conf'', ''/etc/hosts'', ''/etc/hostname'']"

subsection \<open>Setting up the sandbox\<close>

text \<open>\<open>Some code\<close>: the program ended with the exit code of its copy in the user namespace.\<close>

definition enter_userns :: "kernel \<Rightarrow> filesys \<Rightarrow> nat option" where
  "enter_userns K fs = (if env_userns K = [] \<and> \<not> hasCapSysAdmin fs then reExecInUserNamespace K else None)"

definition ensure_sandbox_dir :: "string \<Rightarrow> (world, unit) act" where
  "ensure_sandbox_dir sandboxPath =
     sbind (sgets (\<lambda>w. os_Lstat (files w) sandboxPath)) (\<lambda>st. case st of
         Inr info \<Rightarrow>
           if is_symlink info then sfail (Msg (''sandbox path '' @ sandboxPath @ '' must not be a symlink''))
           else if \<not> is_dir info then sfail (Msg (''sandbox path '' @ sandboxPath @ '' exists and is not a directory''))
           else sret ()
       | Inl e \<Rightarrow>
           if is_not_exist e then swrap ''creating sandbox directory'' (on_files (os_MkdirAll sandboxPath 493))
           else sfail (Wrap ''checking sandbox directory'' e))"

definition setupSandbox :: "kernel \<Rightarrow> (box, nat option) act" where
  "setupSandbox K =
     (let sandboxPath = clean DefaultSandboxPath
      in if sandboxPath = ''/'' \<or> sandboxPath = ''.'' then sfail (Msg (''refusing to use unsafe sandbox path '' @ sandboxPath))
         else if \<not> has_prefix sandboxPath (clean DefaultKanikoPath @ ''/'')
         then sfail (Msg (''sandbox path '' @ sandboxPath @ '' must be under '' @ DefaultKanikoPath))
         else sbind (sgets box_files) (\<lambda>fs.
           if (case os_Lstat fs DefaultKanikoPath of Inr info \<Rightarrow> is_symlink info | Inl _ \<Rightarrow> False)
           then sfail (Msg (''kaniko directory '' @ DefaultKanikoPath @ '' must not be a symlink when sandbox mode is enabled''))
           else case enter_userns K fs of
             Some code \<Rightarrow> sret (Some code)
           | None \<Rightarrow>
               sthen (in_box (ensure_sandbox_dir sandboxPath))
              (sthen (swrap ''resetting sandbox'' (wipeSandboxContents sandboxPath))
              (sthen (in_box (smodify (\<lambda>w. w\<lparr>conf := (conf w)\<lparr>RootDir := sandboxPath\<rparr>\<rparr>)))
              (sthen (mountSandboxKernelFilesystems K sandboxPath)
              (sthen (in_box (setupSandboxRuntimeFiles sandboxPath))
              (sthen (smodify (\<lambda>b. b\<lparr>activeSandboxPath := sandboxPath\<rparr>)) (sret None))))))))"

subsection \<open>Mount points are read back as the kernel wrote them\<close>

text \<open>The kernel writes spaces, tabs, newlines and backslashes of a mount point as octal escapes.\<close>

definition mangle_char :: "char \<Rightarrow> string" where
  "mangle_char c =
     (if c = CHR '' '' then CHR 0x5C # ''040'' else if c = CHR 0x09 then CHR 0x5C # ''011''
      else if c = CHR 0x0A then CHR 0x5C # ''012'' else if c = CHR 0x5C then CHR 0x5C # ''134'' else [c])"

definition mangle :: "string \<Rightarrow> string" where
  "mangle s = concat (map mangle_char s)"

lemma unescape_other: "c \<noteq> CHR 0x5C \<Longrightarrow> unescape_loop (c # s) = c # unescape_loop s"
  by (cases "c # s" rule: unescape_loop.cases) auto

lemma octal_values:
  "char_of (unat (push_bit 6 (octal_byte CHR ''0'') OR push_bit 3 (octal_byte CHR ''4'') OR octal_byte CHR ''0'')) = CHR '' ''"
  "char_of (unat (push_bit 6 (octal_byte CHR ''0'') OR push_bit 3 (octal_byte CHR ''1'') OR octal_byte CHR ''1'')) = CHR 0x09"
  "char_of (unat (push_bit 6 (octal_byte CHR ''0'') OR push_bit 3 (octal_byte CHR ''1'') OR octal_byte CHR ''2'')) = CHR 0x0A"
  "char_of (unat (push_bit 6 (octal_byte CHR ''1'') OR push_bit 3 (octal_byte CHR ''3'') OR octal_byte CHR ''4'')) = CHR 0x5C"
  by code_simp+

lemma unescape_mangle_char: "unescape_loop (mangle_char c @ s) = c # unescape_loop s"
  by (simp add: mangle_char_def unescape_other octal_values octal_def)

lemma unescape_mangle: "unescapeMountField (mangle s) = s"
proof -
  have "unescape_loop (mangle s) = s" unfolding mangle_def by (induction s) (simp_all add: unescape_mangle_char)
  moreover have "mangle s = s" if "\<not> contains (mangle s) [CHR 0x5C]"
    using that unfolding mangle_def by (induction s) (auto simp: mangle_char_def split: if_splits)
  ultimately show ?thesis by (auto simp: unescapeMountField_def)
qed

text \<open>A line of \<open>/proc/self/mountinfo\<close>: four fields, the mount point, and more fields\<close>

type_synonym mount_line = "string list \<times> string \<times> string list"

definition mount_line_text :: "mount_line \<Rightarrow> string" where
  "mount_line_text l = (case l of (pre, mp, post) \<Rightarrow> join '' '' (pre @ [mangle mp] @ post))"

definition mount_line_ok :: "mount_line \<Rightarrow> bool" where
  "mount_line_ok l = (case l of (pre, mp, post) \<Rightarrow>
     length pre = 4 \<and> list_all (\<lambda>f. CHR '' '' \<notin> set f \<and> CHR 0x0A \<notin> set f) (pre @ post))"

lemma mangle_clean: "CHR '' '' \<notin> set (mangle s)" "CHR 0x0A \<notin> set (mangle s)"
  unfolding mangle_def by (auto simp: mangle_char_def split: if_splits)

lemma mount_line_fields: "mount_line_ok (pre, mp, post) \<Longrightarrow> split_on CHR '' '' (mount_line_text (pre, mp, post)) = pre @ [mangle mp] @ post"
  unfolding mount_line_text_def by (auto simp: mount_line_ok_def list_all_iff mangle_clean intro!: split_on_join)

lemma not_in_join: "(\<And>w. w \<in> set ws \<Longrightarrow> c \<notin> set w) \<Longrightarrow> c \<notin> set sep \<Longrightarrow> c \<notin> set (join sep ws)"
  by (induction sep ws rule: join.induct) auto

lemma mount_line_no_newline: "mount_line_ok l \<Longrightarrow> CHR 0x0A \<notin> set (mount_line_text l)"
  unfolding mount_line_text_def
  by (cases l) (auto simp: mount_line_ok_def list_all_iff mangle_clean simp del: join.simps dest!: not_in_join [THEN notE, rotated 2])

lemma split_lines:
  "list_all (\<lambda>l. c \<notin> set l) ls \<Longrightarrow> split_on c (concat (map (\<lambda>l. l @ [c]) ls)) = ls @ [[]]"
  by (induction ls) (simp_all add: split_on_append_sep)

lemma mount_points_listed:
  assumes "list_all mount_line_ok ls"
  shows "sandbox_mount_points p (concat (map (\<lambda>l. mount_line_text l @ [CHR 0x0A]) ls)) =
    filter (\<lambda>mp. mp = p \<or> has_prefix mp (p @ ''/'')) (map (fst \<circ> snd) ls)"
proof -
  have "split_on (CHR 0x0A) (concat (map (\<lambda>l. mount_line_text l @ [CHR 0x0A]) ls)) = map mount_line_text ls @ [[]]"
    using split_lines [of "CHR 0x0A" "map mount_line_text ls"] assms
    by (auto simp: list_all_iff comp_def mount_line_no_newline)
  moreover have "map (\<lambda>fs. unescapeMountField (fs ! 4)) (filter (\<lambda>fs. 5 \<le> length fs) (map (split_on CHR '' '') (map mount_line_text ls)))
      = map (fst \<circ> snd) ls"
    using assms
  proof (induction ls)
    case (Cons l ls)
    obtain pre mp post where [simp]: "l = (pre, mp, post)" by (cases l)
    with Cons.prems have ok: "mount_line_ok (pre, mp, post)" by simp
    then have "length pre = 4" by (simp add: mount_line_ok_def)
    with Cons mount_line_fields [OF ok] show ?case by (simp add: nth_append unescape_mangle)
  qed simp
  ultimately show ?thesis by (simp add: sandbox_mount_points_def)
qed

text \<open>C28. Before the sandbox is emptied, exactly the file systems mounted at or below it are unmounted, whatever characters
  their mount points have, and in the reverse of the order in which the kernel lists them, so children before their
  parents; mounts elsewhere stay.\<close>

theorem unmount_exactly_below:
  assumes "list_all mount_line_ok ls" and "MountInfoPath (conf (sworld (sbx b))) = p" and "p \<noteq> []"
    and "os_ReadFile (box_files b) p = Inr (concat (map (\<lambda>l. mount_line_text l @ [CHR 0x0A]) ls))"
  shows "unmountSandboxMounts sandboxPath b =
    (Inr (), b\<lparr>unmounts := unmounts b @ rev (filter (\<lambda>mp. mp = sandboxPath \<or> has_prefix mp (sandboxPath @ ''/'')) (map (fst \<circ> snd) ls))\<rparr>)"
  using assms(2-4) by (simp add: unmountSandboxMounts_def mount_points_listed [OF assms(1)])

subsection \<open>Emptying the sandbox\<close>

lemma remove_entry:
  assumes "fs_ok fs" and "lookup fs (cs @ [x]) = Some n"
  shows "os_RemoveAll (join_path [abs_path cs, x]) fs = (Inr (), remove_tree (cs @ [x]) fs)"
proof -
  have wf: "fs_wf fs" using assms(1) by (simp add: fs_ok_def)
  have "locate fs False (abs_path (cs @ [x])) = Inr (cs @ [x])" using locate_existing [OF wf assms(2)] by simp
  then show ?thesis using fs_wf_entry(1) [OF wf assms(2)] assms(2) by (simp add: os_RemoveAll_def join_path_comp del: join_path.simps)
qed

lemma remove_entries_all:
  assumes "fs_ok fs" and "distinct xs" and "\<And>x. x \<in> set xs \<Longrightarrow> lookup fs (cs @ [x]) \<noteq> None"
  shows "\<exists>fs'. remove_entries (abs_path cs) xs None fs = (Inr (), fs') \<and>
    (\<forall>p. lookup fs' p = (if \<exists>x \<in> set xs. prefix (cs @ [x]) p then None else lookup fs p))"
  using assms
proof (induction xs arbitrary: fs)
  case (Cons x xs)
  let ?fs = "remove_tree (cs @ [x]) fs"
  from Cons.prems(3) [of x] obtain n where "lookup fs (cs @ [x]) = Some n" by auto
  from remove_entry [OF Cons.prems(1) this] have r: "remove_entries (abs_path cs) (x # xs) None fs = remove_entries (abs_path cs) xs None ?fs"
    by (simp add: act_defs stry_def del: join_path.simps)
  have "lookup ?fs (cs @ [y]) \<noteq> None" if "y \<in> set xs" for y
    using that Cons.prems(2, 3) by (auto simp: lookup_remove_tree)
  from Cons.IH [OF fs_ok_remove_tree [OF Cons.prems(1)] _ this] Cons.prems(2) obtain fs' where
    "remove_entries (abs_path cs) xs None ?fs = (Inr (), fs')"
    "\<forall>p. lookup fs' p = (if \<exists>y \<in> set xs. prefix (cs @ [y]) p then None else lookup ?fs p)" by auto
  with r show ?case by (auto simp: lookup_remove_tree)
qed (simp add: sret_def)

lemma dir_names:
  assumes "fs_ok fs" and "lookup fs cs = Some n" and "is_dir n"
  shows "\<exists>xs. os_ReadDir fs (abs_path cs) = Inr xs \<and> distinct xs \<and> (\<forall>x. x \<in> set xs \<longleftrightarrow> lookup fs (cs @ [x]) \<noteq> None)"
proof -
  have wf: "fs_wf fs" using assms(1) by (simp add: fs_ok_def)
  have nl: "link_target (lookup fs cs) = None" using assms(2, 3) by (simp add: link_target_def is_dir_def)
  have loc: "locate fs True (abs_path cs) = Inr cs" using locate_existing [OF wf assms(2)] nl by simp
  let ?xs = "sort (map last (children fs cs))"
  have "os_ReadDir fs (abs_path cs) = Inr ?xs"
    using assms(2, 3) loc by (simp add: os_ReadDir_def os_Stat_def stat_gen_def readDirNames_def)
  moreover have "inj_on last (set (children fs cs))"
    using children_iff [OF wf] by (auto intro!: inj_onI) (metis append_butlast_last_id)
  then have "distinct ?xs" using fs_wfD(1) [OF wf] by (simp add: distinct_map children_def gm_wf_keys)
  moreover have "x \<in> set ?xs \<longleftrightarrow> lookup fs (cs @ [x]) \<noteq> None" for x
  proof
    assume "x \<in> set ?xs"
    then obtain q where "q \<in> set (children fs cs)" "x = last q" by auto
    with children_iff [OF wf, of q cs] have "q = cs @ [x]" "lookup fs q \<noteq> None" by (metis append_butlast_last_id)+
    then show "lookup fs (cs @ [x]) \<noteq> None" by simp
  next
    assume "lookup fs (cs @ [x]) \<noteq> None"
    then have "cs @ [x] \<in> set (children fs cs)" using children_iff [OF wf, of "cs @ [x]" cs] by simp
    then show "x \<in> set ?xs" by force
  qed
  ultimately show ?thesis by blast
qed

lemma below_child:
  assumes "fs_wf fs" and "strict_prefix cs p" and "lookup fs p \<noteq> None"
  shows "\<exists>x. prefix (cs @ [x]) p \<and> lookup fs (cs @ [x]) \<noteq> None"
proof -
  from assms(2) obtain x ys where p: "p = cs @ x # ys" by (rule strict_prefixE')
  obtain n where n: "lookup fs p = Some n" using assms(3) by auto
  have "lookup fs (cs @ [x]) \<noteq> None"
  proof (cases "ys = []")
    case False
    then have "strict_prefix (cs @ [x]) p" by (auto simp: p strict_prefix_def)
    from existing_parent_dir(1) [OF assms(1) n this] show ?thesis by (auto simp: is_dir_node_def split: option.splits)
  qed (use n p in simp)
  then show ?thesis by (auto simp: p)
qed


text \<open>The teardown wipes at most once.\<close>

lemma teardown_once: "teardownSandboxIfActive (snd (teardownSandboxIfActive b)) = (Inr (), snd (teardownSandboxIfActive b))"
proof -
  have "keeps teardown_done (wipeSandboxContents p)" for p
    unfolding wipeSandboxContents_def
    by (intro keeps_rules) (auto simp: keeps_def unmountSandboxMounts_def in_box_def on_sandbox_def Let_def split: prod.splits sum.splits)
  from keepsD [OF keeps_ignore [OF this]] show ?thesis by (auto simp: teardownSandboxIfActive_def)
qed

subsection \<open>Examples\<close>

definition demo_mounts :: "mount_line list" where
  "demo_mounts = [([''22'', ''1'', ''0:20'', ''/''], ''/proc'', [''rw'']), ([''23'', ''1'', ''0:21'', ''/''], ''/kaniko/sandbox/proc'', [''rw'']),
     ([''24'', ''23'', ''0:22'', ''/''], ''/kaniko/sandbox/proc/a b'', [''rw''])]"

definition demo_box :: box where
  "demo_box = (let w = demo_world ''/'';
      fs = snd (os_Symlink ''/proc'' ''/kaniko/sandbox/link'' (snd (os_MkdirAll ''/kaniko/sandbox/etc'' 493
             (snd (os_WriteFile ''/mounts'' (concat (map (\<lambda>l. mount_line_text l @ [CHR 0x0A]) demo_mounts)) 420 (files w))))))
    in \<lparr>sbx = \<lparr>sworld = w\<lparr>files := fs, conf := (conf w)\<lparr>MountInfoPath := ''/mounts''\<rparr>\<rparr>, SandboxProcSelfStub = False\<rparr>,
        KernelFSBindMounted = False, binds = [], unmounts = [], activeSandboxPath = ''/kaniko/sandbox'', teardown_done = False\<rparr>)"

theorem unmount_exactly_below_witness:
  "unmounts (snd (unmountSandboxMounts ''/kaniko/sandbox'' demo_box)) = [''/kaniko/sandbox/proc/a b'', ''/kaniko/sandbox/proc'']"
proof -
  have "list_all mount_line_ok demo_mounts" by code_simp
  moreover have "MountInfoPath (conf (sworld (sbx demo_box))) = ''/mounts''" "unmounts demo_box = []" by (simp_all add: demo_box_def Let_def)
  moreover have "os_ReadFile (box_files demo_box) ''/mounts'' = Inr (concat (map (\<lambda>l. mount_line_text l @ [CHR 0x0A]) demo_mounts))"
    by code_simp
  ultimately show ?thesis using unmount_exactly_below [of demo_mounts demo_box "''/mounts''" "''/kaniko/sandbox''"]
    by (simp add: demo_mounts_def has_prefix_def)
qed


end
