(* ===== verification/Container_Runtime.thy ===== *)
theory Container_Runtime
  imports Command_Util
begin

text \<open>
  \<open>pkg/util/proc/proc.go\<close>: whether, and under which container runtime, the program runs. It looks for the name of a
  runtime in files of \<open>/proc\<close> and for files that runtimes leave behind, on the file system and the environment variable
  \<open>container\<close>.
\<close>

datatype ContainerRuntime = RuntimeDocker | RuntimeRkt | RuntimeNspawn | RuntimeLXC | RuntimeLXCLibvirt | RuntimeOpenVZ
  | RuntimeKubernetes | RuntimeGarden | RuntimePodman | RuntimeGVisor | RuntimeFirejail | RuntimeWSL | RuntimeNotFound

fun runtime_String :: "ContainerRuntime \<Rightarrow> string" where
  "runtime_String RuntimeDocker = ''docker''"
| "runtime_String RuntimeRkt = ''rkt''"
| "runtime_String RuntimeNspawn = ''systemd-nspawn''"
| "runtime_String RuntimeLXC = ''lxc''"
| "runtime_String RuntimeLXCLibvirt = ''lxc-libvirt''"
| "runtime_String RuntimeOpenVZ = ''openvz''"
| "runtime_String RuntimeKubernetes = ''kube''"
| "runtime_String RuntimeGarden = ''garden''"
| "runtime_String RuntimePodman = ''podman''"
| "runtime_String RuntimeGVisor = ''gvisor''"
| "runtime_String RuntimeFirejail = ''firejail''"
| "runtime_String RuntimeWSL = ''wsl''"
| "runtime_String RuntimeNotFound = ''not-found''"

definition ContainerRuntimes :: "ContainerRuntime list" where
  "ContainerRuntimes = [RuntimeDocker, RuntimeRkt, RuntimeNspawn, RuntimeLXC, RuntimeLXCLibvirt, RuntimeOpenVZ, RuntimeKubernetes,
     RuntimeGarden, RuntimePodman, RuntimeGVisor, RuntimeFirejail, RuntimeWSL]"

definition osFileExists :: "filesys \<Rightarrow> string \<Rightarrow> bool" where
  "osFileExists fs file = (case os_Stat fs file of Inl e \<Rightarrow> \<not> is_not_exist e | Inr _ \<Rightarrow> True)"

text \<open>A file that cannot be read counts as empty.\<close>

definition readFileString :: "filesys \<Rightarrow> string \<Rightarrow> string" where
  "readFileString fs file =
     (if \<not> osFileExists fs file then [] else case os_ReadFile fs file of Inl _ \<Rightarrow> [] | Inr b \<Rightarrow> trim_space b)"

definition getContainerRuntime :: "string \<Rightarrow> ContainerRuntime" where
  "getContainerRuntime input =
     (if trim_space input = [] then RuntimeNotFound
      else case find (\<lambda>r. contains input (runtime_String r)) ContainerRuntimes of Some r \<Rightarrow> r | None \<Rightarrow> RuntimeNotFound)"

definition detectContainerFiles :: "filesys \<Rightarrow> ContainerRuntime" where
  "detectContainerFiles fs =
     (case find (\<lambda>(r, location). osFileExists fs location)
             [(RuntimePodman, ''/run/.containerenv''), (RuntimeDocker, ''/.dockerenv''),
              (RuntimeKubernetes, ''/var/run/secrets/kubernetes.io/serviceaccount'')] of
        Some (r, _) \<Rightarrow> r | None \<Rightarrow> RuntimeNotFound)"

text \<open>The regular expression \<open>^[^ ]+ / overlay\<close>: the first field, which is not empty, is followed by the rest.\<close>

definition overlay_root :: "string \<Rightarrow> bool" where
  "overlay_root mounts =
     (let field = takeWhile (\<lambda>c. c \<noteq> CHR '' '') mounts
      in field \<noteq> [] \<and> has_prefix (drop (length field) mounts) '' / overlay'')"

definition cgroup_file :: "int \<Rightarrow> int \<Rightarrow> string" where
  "cgroup_file tgid pid =
     (if pid > 0 then
        (if tgid > 0 then ''/proc/'' @ itoa tgid @ ''/task/'' @ itoa pid @ ''/cgroup'' else ''/proc/'' @ itoa pid @ ''/cgroup'')
      else ''/proc/self/cgroup'')"

definition found_or :: "ContainerRuntime \<Rightarrow> ContainerRuntime \<Rightarrow> ContainerRuntime" where
  "found_or r other = (if r \<noteq> RuntimeNotFound then r else other)"

definition GetContainerRuntime :: "filesys \<Rightarrow> (string \<Rightarrow> string) \<Rightarrow> int \<Rightarrow> int \<Rightarrow> ContainerRuntime" where
  "GetContainerRuntime fs getenv tgid pid =
     found_or (getContainerRuntime (readFileString fs (cgroup_file tgid pid)))
    (if osFileExists fs ''/proc/vz'' \<and> \<not> osFileExists fs ''/proc/bc'' then RuntimeOpenVZ
     else if osFileExists fs ''/__runsc_containers__'' then RuntimeGVisor
     else found_or (getContainerRuntime (readFileString fs ''/proc/1/cmdline''))
    (if has_prefix (readFileString fs ''/proc/version_signature'') ''Microsoft'' then RuntimeWSL
     else found_or (getContainerRuntime (getenv ''container''))
    (found_or (getContainerRuntime (readFileString fs ''/run/systemd/container''))
    (found_or (detectContainerFiles fs)
    (if overlay_root (readFileString fs ''/proc/mounts'') then RuntimeKubernetes else RuntimeNotFound)))))"

text \<open>The names are tried in order and by substring, so a name that contains an earlier one is never reported.\<close>

lemma contains_trans: "contains s t \<Longrightarrow> contains t u \<Longrightarrow> contains s u"
  unfolding contains_iff by (metis append_assoc)

lemma lxc_first: "getContainerRuntime input \<noteq> RuntimeLXCLibvirt"
proof -
  have "contains ''lxc-libvirt'' ''lxc''" by code_simp
  then have "contains input ''lxc-libvirt'' \<Longrightarrow> contains input ''lxc''" using contains_trans by blast
  then show ?thesis by (auto simp: getContainerRuntime_def ContainerRuntimes_def)
qed

lemma lxc_libvirt_never_reported: "GetContainerRuntime fs getenv tgid pid \<noteq> RuntimeLXCLibvirt"
  by (simp add: GetContainerRuntime_def found_or_def lxc_first detectContainerFiles_def)

end
