(* ===== verification/Build_Context.thy ===== *)
theory Build_Context
  imports Command_Props
begin

text \<open>
  \<open>pkg/buildcontext\<close>: where the build context comes from. The prefix of the context names its kind; contexts in buckets, on
  web servers and in archives are downloaded and unpacked below the directory of kaniko, a git repository is cloned there.
  Cloud clients, HTTP and git are libraries, the fields of \<open>context_libs\<close>.
\<close>

subsection \<open>Kinds of context\<close>

record BuildOptions =
  GitBranch :: string
  GitSingleBranch :: bool
  GitRecurseSubmodules :: bool
  GitInsecureSkipTLS :: bool

datatype BuildContext = GCS string | S3 string | Dir string | Git string BuildOptions | AzureBlob string | HTTPSTar string | Tar string

text \<open>The text up to and including the first separator, and the text after it: the first two parts of
  \<open>strings.SplitAfter\<close> when the separator occurs once.\<close>

fun cut_after :: "string \<Rightarrow> string \<Rightarrow> (string \<times> string) option" where
  "cut_after sep [] = None"
| "cut_after sep (x # xs) =
     (if has_prefix (x # xs) sep then Some (sep, drop (length sep) (x # xs))
      else map_option (\<lambda>(a, b). (x # a, b)) (cut_after sep xs))"

text \<open>The second part ends with the next separator, if there is one.\<close>

definition second_part :: "string \<Rightarrow> string \<Rightarrow> string" where
  "second_part sep s = (case cut_after sep s of None \<Rightarrow> s | Some (a, _) \<Rightarrow> a)"

definition azure_suffixes :: "string list" where
  "azure_suffixes = [''.blob.core.windows.net/'', ''.blob.core.chinacloudapi.cn/'', ''.blob.core.cloudapi.de/'', ''.blob.core.usgovcloudapi.net/'']"

text \<open>The regular expression \<open>https://(.+?)suffix(.+)\<close>, anywhere in the text; a dot matches everything but a newline.\<close>

definition azure_match :: "string \<Rightarrow> string \<Rightarrow> bool" where
  "azure_match suf s =
     list_ex (\<lambda>t. has_prefix t ''https://'' \<and>
       (let u = drop 8 t in list_ex (\<lambda>i. CHR 0x0A \<notin> set (take i u) \<and> has_prefix (drop i u) suf \<and>
          (case drop (i + length suf) u of [] \<Rightarrow> False | c # _ \<Rightarrow> c \<noteq> CHR 0x0A)) [1..<length u])) (suffixes s)"

definition ValidAzureBlobStorageHost :: "string \<Rightarrow> bool" where
  "ValidAzureBlobStorageHost context = list_ex (\<lambda>suf. azure_match suf context) azure_suffixes"

definition GetBuildContext :: "string \<Rightarrow> BuildOptions \<Rightarrow> BuildContext res" where
  "GetBuildContext srcContext opts =
     (let unknown = Inl (Msg ''unknown build context prefix provided, please use one of the following: gs://, dir://, tar://, s3://, git://, https://'')
      in case cut_after ''://'' srcContext of
           None \<Rightarrow> unknown
         | Some (pre, rest) \<Rightarrow>
             let context = second_part ''://'' rest
             in if pre = ''gs://'' then Inr (GCS srcContext)
                else if pre = ''s3://'' then Inr (S3 srcContext)
                else if pre = ''dir://'' then Inr (Dir context)
                else if pre = ''git://'' then Inr (Git context opts)
                else if pre = ''https://'' then Inr (if ValidAzureBlobStorageHost srcContext then AzureBlob srcContext else HTTPSTar srcContext)
                else if pre = ''tar://'' then Inr (Tar context)
                else unknown)"

subsection \<open>Git\<close>

record git_auth =
  auth_Username :: string
  auth_Password :: string

record CloneOptions =
  clone_URL :: string
  clone_Auth :: "git_auth option"
  ReferenceName :: string
  clone_SingleBranch :: bool
  clone_Submodules :: bool
  clone_InsecureSkipTLS :: bool

record context_libs =
  ctx_getenv :: "string \<Rightarrow> string"
  url_Parse :: "string \<Rightarrow> (string \<times> string) res"
  gcs_read :: "string \<Rightarrow> string \<Rightarrow> string res"
  s3_download :: "string \<Rightarrow> bool \<Rightarrow> string \<Rightarrow> string \<Rightarrow> string res"
  azblob_ParseURL :: "string \<Rightarrow> (string \<times> string \<times> string) res"
  azblob_download :: "string \<Rightarrow> string \<Rightarrow> string \<Rightarrow> string \<Rightarrow> string \<Rightarrow> string res"
  stdin :: "(bool \<times> string)"
  IsHash :: "string \<Rightarrow> bool"
  git_List :: "string \<Rightarrow> git_auth option \<Rightarrow> string list res"
  PlainClone :: "string \<Rightarrow> CloneOptions \<Rightarrow> (filesys, unit) act"
  git_Fetch :: "string \<Rightarrow> git_auth option \<Rightarrow> string \<Rightarrow> (filesys, unit) act"
  already_up_to_date :: "err \<Rightarrow> bool"
  git_Head :: "filesys \<Rightarrow> string \<Rightarrow> unit res"
  git_Worktree :: "filesys \<Rightarrow> string \<Rightarrow> unit res"
  git_Checkout :: "string \<Rightarrow> string \<Rightarrow> (filesys, unit) act"

definition getGitAuth :: "context_libs \<Rightarrow> git_auth option" where
  "getGitAuth L =
     (let token = ctx_getenv L ''GIT_TOKEN'';
          username = (if token \<noteq> [] then token else ctx_getenv L ''GIT_USERNAME'');
          password = (if token \<noteq> [] then [] else ctx_getenv L ''GIT_PASSWORD'')
      in if username \<noteq> [] \<or> password \<noteq> [] then Some \<lparr>auth_Username = username, auth_Password = password\<rparr> else None)"

definition getGitPullMethod :: "context_libs \<Rightarrow> string" where
  "getGitPullMethod L = (let m = ctx_getenv L ''GIT_PULL_METHOD'' in if m = ''https'' \<or> m = ''http'' then m else ''https'')"

definition gitRefExists :: "string \<Rightarrow> string list \<Rightarrow> bool" where
  "gitRefExists ref rs = list_ex (\<lambda>r. ref = r) rs"

definition getGitReferenceName :: "context_libs \<Rightarrow> string \<Rightarrow> string \<Rightarrow> string res" where
  "getGitReferenceName L url branch =
     rbind (git_List L url (getGitAuth L)) (\<lambda>rs.
       if gitRefExists (''refs/heads/'' @ branch) rs then Inr (''refs/heads/'' @ branch)
       else if gitRefExists (''refs/tags/'' @ branch) rs then Inr (''refs/tags/'' @ branch)
       else Inl (Msg (''invalid branch: '' @ branch)))"

text \<open>What is cloned, fetched and checked out: the reference for the clone, for the fetch and for the checkout, from the parts of
  the context between \<open>#\<close>\<close>

definition git_refs :: "context_libs \<Rightarrow> string list \<Rightarrow> string \<times> string \<times> string" where
  "git_refs L parts =
     (case parts of
        _ # ref # further \<Rightarrow>
          let fetches = IsHash L ref \<or> \<not> has_prefix ref ''refs/pull/'';
              refName = (if fetches \<and> IsHash L ref then [] else ref);
              fetchRef = (if fetches then ref else []);
              checkoutRef = (if IsHash L ref then ref else [])
          in (refName, fetchRef, case further of c # _ \<Rightarrow> c | [] \<Rightarrow> checkoutRef)
      | _ \<Rightarrow> ([], [], []))"

definition BuildContextDir :: "world \<Rightarrow> string" where
  "BuildContextDir w = KanikoDir (conf w) @ ''/buildcontext/''"

definition git_unpack :: "context_libs \<Rightarrow> string \<Rightarrow> BuildOptions \<Rightarrow> string \<Rightarrow> (world, unit) act" where
  "git_unpack L context opts d =
     (let parts = split_on CHR ''#'' context;
          url = getGitPullMethod L @ ''://'' @ hd parts;
          (refName, fetchRef, checkoutRef) = git_refs L parts
      in sbind (if GitBranch opts \<noteq> [] then sreads (\<lambda>_. getGitReferenceName L url (GitBranch opts)) else sret refName) (\<lambda>ref.
         sthen (on_files (PlainClone L d \<lparr>clone_URL = url, clone_Auth = getGitAuth L, ReferenceName = ref, clone_SingleBranch = GitSingleBranch opts,
                   clone_Submodules = GitRecurseSubmodules opts, clone_InsecureSkipTLS = GitInsecureSkipTLS opts\<rparr>))
        (sthen (swhen (fetchRef \<noteq> [])
                  (sbind (stry (on_files (git_Fetch L d (getGitAuth L) (fetchRef @ '':'' @ fetchRef)))) (\<lambda>r. case r of
                      Inl e \<Rightarrow> if already_up_to_date L e then sret () else sfail e
                    | Inr _ \<Rightarrow> sret ())))
               (swhen (checkoutRef \<noteq> [])
                  (sthen (sreads (\<lambda>w. git_Head L (files w) d))
                  (sthen (sreads (\<lambda>w. git_Worktree L (files w) d)) (on_files (git_Checkout L d checkoutRef))))))))"

subsection \<open>Archives\<close>

definition GetNameAndFilepathFromURI :: "context_libs \<Rightarrow> string \<Rightarrow> (string \<times> string) res" where
  "GetNameAndFilepathFromURI L bucketURI =
     rbind (url_Parse L bucketURI) (\<lambda>(host, path).
       let filePath = trim_prefix path ''/'' in Inr (host, if filePath = [] then ''context.tar.gz'' else filePath))"

definition ContextTar :: string where "ContextTar = ''context.tar.gz''"

definition gcs_unpack :: "host \<Rightarrow> context_libs \<Rightarrow> string \<Rightarrow> string \<Rightarrow> (world, unit) act" where
  "gcs_unpack H L context d =
     sbind (swrap ''getting bucketname and filepath from context'' (sreads (\<lambda>_. GetNameAndFilepathFromURI L context))) (\<lambda>(bucketName, item).
     sbind (sreads (\<lambda>_. gcs_read L bucketName item)) (\<lambda>content.
       let tarPath = join_path [d, ContextTar]
       in sthen (CreateFile tarPath content 384 0 0) (sthen (UnpackCompressedTar H tarPath d) (on_files (os_Remove tarPath)))))"

definition s3_unpack :: "host \<Rightarrow> context_libs \<Rightarrow> string \<Rightarrow> string \<Rightarrow> (world, unit) act" where
  "s3_unpack H L context d =
     sbind (swrap ''getting bucketname and filepath from context'' (sreads (\<lambda>_. GetNameAndFilepathFromURI L context))) (\<lambda>(bucket, item).
       let endpoint = ctx_getenv L ''S3_ENDPOINT''; forcePath = (to_lower (ctx_getenv L ''S3_FORCE_PATH_STYLE'') = ''true'');
           tarPath = join_path [d, ContextTar]
       in sthen (on_files (os_MkdirAll d 488))
         (sthen (on_files (os_Create tarPath []))
         (sbind (sreads (\<lambda>_. s3_download L endpoint (endpoint \<noteq> [] \<and> forcePath) bucket item)) (\<lambda>content.
          sthen (on_files (os_Create tarPath content)) (UnpackCompressedTar H tarPath d)))))"

definition azure_unpack :: "host \<Rightarrow> context_libs \<Rightarrow> string \<Rightarrow> string \<Rightarrow> (world, unit) act" where
  "azure_unpack H L context d =
     (let accountKey = ctx_getenv L ''AZURE_STORAGE_ACCESS_KEY''; tarPath = join_path [d, ContextTar]
      in if accountKey = [] then sfail (Msg ''AZURE_STORAGE_ACCESS_KEY environment variable is not set'')
         else sbind (sreads (\<lambda>_. azblob_ParseURL L context)) (\<lambda>(host, container, blob).
           let accountName = hd (split_on CHR ''.'' host)
           in sthen (CreateTargetTarfile tarPath)
             (sbind (sreads (\<lambda>_. azblob_download L context accountName accountKey container blob)) (\<lambda>content.
              sthen (on_files (os_Create tarPath content))
             (sthen (UnpackCompressedTar H tarPath d) (on_files (os_Remove tarPath)))))))"

definition https_unpack :: "host \<Rightarrow> string \<Rightarrow> string \<Rightarrow> (world, unit) act" where
  "https_unpack H context d =
     (let tarPath = join_path [d, ContextTar]
      in sthen (CreateTargetTarfile tarPath)
        (sbind (sreads (\<lambda>_. http_Get (lib H) context)) (\<lambda>resp.
           if status_code resp \<noteq> 200 then sfail (Msg ''HTTPSTar bad status from server'')
           else sthen (on_files (os_Create tarPath (body resp)))
               (sthen (UnpackCompressedTar H tarPath d) (on_files (os_Remove tarPath))))))"

definition tar_unpack :: "host \<Rightarrow> context_libs \<Rightarrow> string \<Rightarrow> string \<Rightarrow> (world, unit) act" where
  "tar_unpack H L context d =
     sthen (swrap ''unpacking tar from build context'' (on_files (os_MkdirAll d 488)))
       (if context = ''stdin'' then
          (if fst (stdin L) then sfail (Msg ''no data found.. don't forget to add the '--interactive, -i' flag'')
           else sbind (sreads (\<lambda>_. gunzip H (snd (stdin L)))) (\<lambda>tar. sthen (untar_stream H tar d) (sret ())))
        else UnpackCompressedTar H context d)"

definition UnpackTarFromBuildContext :: "host \<Rightarrow> context_libs \<Rightarrow> BuildContext \<Rightarrow> (world, string) act" where
  "UnpackTarFromBuildContext H L c =
     sbind (sgets BuildContextDir) (\<lambda>d. case c of
         Dir context \<Rightarrow> sret context
       | Git context opts \<Rightarrow> sthen (git_unpack L context opts d) (sret d)
       | GCS context \<Rightarrow> sthen (gcs_unpack H L context d) (sret d)
       | S3 context \<Rightarrow> sthen (s3_unpack H L context d) (sret d)
       | AzureBlob context \<Rightarrow> sthen (azure_unpack H L context d) (sret d)
       | HTTPSTar context \<Rightarrow> sthen (https_unpack H context d) (sret d)
       | Tar context \<Rightarrow> sthen (tar_unpack H L context d) (sret d))"

subsection \<open>Contexts and their prefixes\<close>

lemma cut_after_None: "\<not> contains s sep \<Longrightarrow> cut_after sep s = None"
  by (induction s) auto

text \<open>A context with a scheme and no further separator is recognised by its scheme; one without a scheme is refused.\<close>

lemma GetBuildContext_scheme:
  assumes "\<not> contains rest ''://''"
  shows "GetBuildContext (''gs://'' @ rest) opts = Inr (GCS (''gs://'' @ rest))"
    and "GetBuildContext (''s3://'' @ rest) opts = Inr (S3 (''s3://'' @ rest))"
    and "GetBuildContext (''dir://'' @ rest) opts = Inr (Dir rest)"
    and "GetBuildContext (''git://'' @ rest) opts = Inr (Git rest opts)"
    and "GetBuildContext (''tar://'' @ rest) opts = Inr (Tar rest)"
  using assms
  by (simp_all add: GetBuildContext_def has_prefix_def second_part_def cut_after_None)

lemma GetBuildContext_no_scheme: "\<not> contains s ''://'' \<Longrightarrow> \<exists>m. GetBuildContext s opts = Inl (Msg m)"
  by (simp add: GetBuildContext_def cut_after_None Let_def)

subsection \<open>Unpacking keeps the file system well formed\<close>

definition context_libs_ok :: "context_libs \<Rightarrow> bool" where
  "context_libs_ok L \<longleftrightarrow> (\<forall>d x. keeps fs_ok (PlainClone L d x)) \<and> (\<forall>d a r. keeps fs_ok (git_Fetch L d a r)) \<and>
     (\<forall>d c. keeps fs_ok (git_Checkout L d c))"

lemma keeps_contexts [keeps_rules]:
  "keeps world_ok (untar_stream H b d)" "keeps world_ok (CreateTargetTarfile p)" "keeps world_ok (UnpackCompressedTar H p d)"
  unfolding CreateTargetTarfile_def UnpackCompressedTar_def untar_stream_def by (intro keeps_rules)+

lemma keeps_unpacks:
  "keeps world_ok (gcs_unpack H L c d)" "keeps world_ok (s3_unpack H L c d)" "keeps world_ok (azure_unpack H L c d)"
  "keeps world_ok (https_unpack H c d)" "keeps world_ok (tar_unpack H L c d)"
  unfolding gcs_unpack_def s3_unpack_def azure_unpack_def https_unpack_def tar_unpack_def Let_def by (intro keeps_rules)+

lemma keeps_UnpackTarFromBuildContext:
  assumes "context_libs_ok L"
  shows "keeps world_ok (UnpackTarFromBuildContext H L c)"
proof -
  have "keeps fs_ok (PlainClone L d x)" "keeps fs_ok (git_Fetch L d a r)" "keeps fs_ok (git_Checkout L d k)" for d x a r k
    using assms by (auto simp: context_libs_ok_def)
  then have "keeps world_ok (git_unpack L k x d)" for k x d
    unfolding git_unpack_def Let_def by (intro keeps_rules)
  then show ?thesis
    unfolding UnpackTarFromBuildContext_def by (cases c) (auto intro!: keeps_rules keeps_unpacks)
qed

end
