(* ===== verification/Executor_Cmd.thy ===== *)
theory Executor_Cmd
  imports Push Sandbox_Setup Container_Runtime Build_Context
begin

text \<open>
  \<open>cmd/executor/cmd/root.go\<close> without the sandbox: the flags and their defaults, the checks and the paths that are settled
  before a build, and the run of the program: permissions, build, push, teardown and the exit code. The environment, the
  working directory the program is started in and the libraries are the fields of \<open>cmd_env\<close>. Logging and the benchmark file
  are not modelled.
\<close>

subsection \<open>Options\<close>

record ExecutorOptions =
  kopts :: KanikoOptions
  Bucket :: string
  KanikoDir_opt :: string
  SnapshotModeDeprecated :: string
  CustomPlatformDeprecated :: string
  TarPathDeprecated :: string
  ctxSubPath :: string
  force :: bool

text \<open>The options of a command line without flags\<close>

definition addKanikoOptionsFlags :: ExecutorOptions where
  "addKanikoOptionsFlags =
     \<lparr>kopts = \<lparr>Registry = \<lparr>RegistryMaps = [], RegistryMirrors = [], InsecureRegistries = [], SkipTLSVerifyRegistries = [],
          RegistriesCertificates = [], RegistriesClientCertificates = [], SkipDefaultRegistryFallback = False, Insecure = False,
          SkipTLSVerify = False, InsecurePull = False, SkipTLSVerifyPull = False, PushIgnoreImmutableTagErrors = False,
          PushRetry = 0, ImageDownloadRetry = 0\<rparr>,
        CacheOpts = \<lparr>CacheDir = ''/cache'', CacheTTL = 336 * 60 * 60\<rparr>,
        Destinations = [], BuildArgs_opt = [], Labels_opt = [],
        Git = \<lparr>Branch = [], SingleBranch = False, RecurseSubmodules = False, InsecureSkipTLS = False\<rparr>,
        IgnorePaths = [], DockerfilePath = ''Dockerfile'', SrcContext = ''/workspace/'', SnapshotMode = ''full'',
        CustomPlatform = [], TarPath = [], Target = [], CacheRepo = [], DigestFile = [], ImageNameDigestFile = [],
        ImageNameTagDigestFile = [], OCILayoutPath = [], Compression_opt = NoCompression, CompressionLevel = -1,
        ImageFSExtractRetry = 0, SingleSnapshot = False, Reproducible = False, NoPush = False, NoPushCache = False,
        Cache = False, Cleanup = False, CompressedCaching = True, IgnoreVarRun = True, SkipUnusedStages = False,
        RunV2 = False, CacheCopyLayers = False, CacheRunLayers = True, ForceBuildMetadata = False,
        InitialFSUnpacked = False, SkipPushPermissionCheck = False, Sandbox = False\<rparr>,
      Bucket = [], KanikoDir_opt = DefaultKanikoPath, SnapshotModeDeprecated = [], CustomPlatformDeprecated = [],
      TarPathDeprecated = [], ctxSubPath = [], force = False\<rparr>"

record cmd_env =
  LookupEnv :: "string \<Rightarrow> string option"
  DefaultPlatform :: string
  getwd :: string
  cmd_kernel :: kernel
  ctx_libs :: context_libs
  ExitError_code :: "err \<Rightarrow> nat option"

definition Getenv :: "cmd_env \<Rightarrow> string \<Rightarrow> string" where
  "Getenv V k = (case LookupEnv V k of None \<Rightarrow> [] | Some v \<Rightarrow> v)"

definition with_kopts :: "(KanikoOptions \<Rightarrow> KanikoOptions) \<Rightarrow> ExecutorOptions \<Rightarrow> ExecutorOptions" where
  "with_kopts f x = x\<lparr>kopts := f (kopts x)\<rparr>"

definition with_registry :: "(RegistryOptions \<Rightarrow> RegistryOptions) \<Rightarrow> ExecutorOptions \<Rightarrow> ExecutorOptions" where
  "with_registry f = with_kopts (\<lambda>k. k\<lparr>Registry := f (Registry k)\<rparr>)"

definition checkNoDeprecatedFlags :: "ExecutorOptions \<Rightarrow> ExecutorOptions" where
  "checkNoDeprecatedFlags x =
     with_kopts (\<lambda>k. k\<lparr>CustomPlatform := (if CustomPlatformDeprecated x \<noteq> [] then CustomPlatformDeprecated x else CustomPlatform k),
       SnapshotMode := (if SnapshotModeDeprecated x \<noteq> [] then SnapshotModeDeprecated x else SnapshotMode k),
       TarPath := (if TarPathDeprecated x \<noteq> [] then TarPathDeprecated x else TarPath k)\<rparr>) x"

text \<open>\<open>Set\<close> on the registry map; its error is dropped, what it changed before failing stays.\<close>

definition set_map :: "string \<Rightarrow> RegistryOptions \<Rightarrow> RegistryOptions" where
  "set_map v r = r\<lparr>RegistryMaps := snd (multiKeyMultiValueArg_Set v (RegistryMaps r))\<rparr>"

definition DefaultRegistry :: string where "DefaultRegistry = ''index.docker.io''"

definition env_flags :: "cmd_env \<Rightarrow> ExecutorOptions \<Rightarrow> ExecutorOptions" where
  "env_flags V x =
     (let x1 = (case LookupEnv V ''KANIKO_REGISTRY_MIRROR'' of None \<Rightarrow> x
                | Some v \<Rightarrow> with_registry (\<lambda>r. r\<lparr>RegistryMirrors := snd (multiArg_Set v (RegistryMirrors r))\<rparr>) x);
          x2 = (case LookupEnv V ''KANIKO_NO_PUSH'' of None \<Rightarrow> x1
                | Some v \<Rightarrow> with_kopts (\<lambda>k. k\<lparr>NoPush := (case parse_bool v of Inl _ \<Rightarrow> False | Inr b \<Rightarrow> b)\<rparr>) x1);
          x3 = (case LookupEnv V ''KANIKO_REGISTRY_MAP'' of None \<Rightarrow> x2 | Some v \<Rightarrow> with_registry (set_map v) x2)
      in with_registry (\<lambda>r. fold (\<lambda>target. set_map (DefaultRegistry @ ''='' @ target)) (RegistryMirrors r) r) x3)"

definition validateFlags :: "cmd_env \<Rightarrow> registry \<Rightarrow> ExecutorOptions \<Rightarrow> ExecutorOptions res" where
  "validateFlags V R x =
     (let x = env_flags V (checkNoDeprecatedFlags x);
          x = (if CustomPlatform (kopts x) = [] then with_kopts (\<lambda>k. k\<lparr>CustomPlatform := DefaultPlatform V\<rparr>) x else x)
      in case parse_platform R (CustomPlatform (kopts x)) of
           Inl _ \<Rightarrow> Inl (Panic (''Invalid platform '' @ CustomPlatform (kopts x)))
         | Inr _ \<Rightarrow> Inr x)"

definition resolveEnvironmentBuildArgs :: "string list \<Rightarrow> (string \<Rightarrow> string) \<Rightarrow> string list" where
  "resolveEnvironmentBuildArgs arguments resolver =
     map (\<lambda>a. if CHR ''='' \<in> set a then a else a @ ''='' @ resolver a) arguments"

definition cacheFlagsValid :: "KanikoOptions \<Rightarrow> unit res" where
  "cacheFlagsValid k =
     (if Cache k \<and> CacheRepo k = [] \<and> NoPush k
      then Inl (Msg ''if using cache with --no-push, specify cache repo with --cache-repo'') else Inr ())"

subsection \<open>Paths\<close>

definition isURL :: "string \<Rightarrow> bool" where
  "isURL path = (has_prefix path ''http://'' \<or> has_prefix path ''https://'')"

definition shdSkip :: "string \<Rightarrow> bool" where
  "shdSkip path = (path = [] \<or> isURL path \<or> is_abs path)"

text \<open>\<open>filepath.Abs\<close>, and the name the system calls see for a relative path\<close>

definition filepath_Abs :: "string \<Rightarrow> string \<Rightarrow> string" where
  "filepath_Abs wd p = (if is_abs p then clean p else join_path [wd, p])"

definition in_wd :: "string \<Rightarrow> string \<Rightarrow> string" where
  "in_wd wd p = (if is_abs p \<or> p = [] then p else wd @ ''/'' @ p)"

definition resolve_path :: "string \<Rightarrow> string \<Rightarrow> string" where
  "resolve_path wd p = (if shdSkip p then p else filepath_Abs wd p)"

definition resolveRelativePaths :: "string \<Rightarrow> KanikoOptions \<Rightarrow> KanikoOptions" where
  "resolveRelativePaths wd k =
     k\<lparr>DockerfilePath := resolve_path wd (DockerfilePath k), SrcContext := resolve_path wd (SrcContext k),
       CacheOpts := (CacheOpts k)\<lparr>CacheDir := resolve_path wd (CacheDir (CacheOpts k))\<rparr>, TarPath := resolve_path wd (TarPath k),
       DigestFile := resolve_path wd (DigestFile k), ImageNameDigestFile := resolve_path wd (ImageNameDigestFile k),
       ImageNameTagDigestFile := resolve_path wd (ImageNameTagDigestFile k)\<rparr>"

subsection \<open>State\<close>

record exec_state =
  ebox :: box
  enet :: net
  eout :: outbox
  eopts :: ExecutorOptions

definition on_box :: "(box, 'a) act \<Rightarrow> (exec_state, 'a) act" where
  "on_box m s = (case m (ebox s) of (r, b) \<Rightarrow> (r, s\<lparr>ebox := b\<rparr>))"

definition on_ewld :: "(world, 'a) act \<Rightarrow> (exec_state, 'a) act" where
  "on_ewld m = on_box (in_box m)"

definition ewld :: "exec_state \<Rightarrow> world" where
  "ewld s = sworld (sbx (ebox s))"

definition set_opts :: "(ExecutorOptions \<Rightarrow> ExecutorOptions) \<Rightarrow> (exec_state, unit) act" where
  "set_opts f = smodify (\<lambda>s. s\<lparr>eopts := f (eopts s)\<rparr>)"

definition empty_context :: FileContext where
  "empty_context = \<lparr>Root = [], ExcludedFiles = [], Matches = (\<lambda>_ _. Inr False)\<rparr>"

subsection \<open>Before the build\<close>

text \<open>The variable \<open>DOCKER_CONFIG\<close> that \<open>checkKanikoDir\<close> sets is for the credential helpers.\<close>

definition checkKanikoDir :: "string \<Rightarrow> (world, unit) act" where
  "checkKanikoDir d =
     (if d \<noteq> DefaultKanikoPath
      then sthen (CopyDir DefaultKanikoPath d empty_context (-1) (-1) 384 True) (on_files (os_RemoveAll DefaultKanikoPath))
      else sret ())"

definition config_DockerfilePath :: "world \<Rightarrow> string" where
  "config_DockerfilePath w = KanikoDir (conf w) @ ''/Dockerfile''"

definition copyDockerfile :: "string \<Rightarrow> (world, string) act" where
  "copyDockerfile path =
     sbind (sgets config_DockerfilePath) (\<lambda>dest.
     sthen (swrap ''copying dockerfile'' (CopyFile path dest empty_context (-1) (-1) 384 True))
    (sthen (sbind (sgets (\<lambda>w. FilepathExists (files w) (path @ ''.dockerignore''))) (\<lambda>ex.
              swhen ex (swrap ''copying Dockerfile.dockerignore''
                (sthen (CopyFile (path @ ''.dockerignore'') (dest @ ''.dockerignore'') empty_context (-1) (-1) 384 True) (sret ())))))
           (sret dest)))"

definition resolveDockerfilePath :: "string \<Rightarrow> KanikoOptions \<Rightarrow> (world, string) act" where
  "resolveDockerfilePath wd k =
     (let p = DockerfilePath k; q = join_path [SrcContext k, p]
      in if isURL p then sret p
         else sbind (sgets files) (\<lambda>fs.
           if FilepathExists fs (in_wd wd p) then copyDockerfile (filepath_Abs wd p)
           else if FilepathExists fs (in_wd wd q) then copyDockerfile (filepath_Abs wd q)
           else sfail (Msg ''please provide a valid path to a Dockerfile within the build context with --dockerfile'')))"

definition resolveSourceContext :: "cmd_env \<Rightarrow> host \<Rightarrow> ExecutorOptions \<Rightarrow> (world, string) act" where
  "resolveSourceContext V H x =
     (let src = SrcContext (kopts x); g = KanikoOptions.Git (kopts x)
      in if src = [] \<and> Bucket x = []
         then sfail (Msg ''please specify a path to the build context with the --context flag or a bucket with the --bucket flag'')
         else if src \<noteq> [] \<and> \<not> contains src ''://'' then sret src
         else
           let context = (if Bucket x = [] then src else if \<not> contains (Bucket x) ''://'' then ''gs://'' @ Bucket x else Bucket x)
           in sbind (sreads (\<lambda>_. GetBuildContext context \<lparr>GitBranch = Branch g, GitSingleBranch = SingleBranch g,
                       GitRecurseSubmodules = RecurseSubmodules g, GitInsecureSkipTLS = InsecureSkipTLS g\<rparr>)) (\<lambda>c.
              sbind (UnpackTarFromBuildContext H (ctx_libs V) c) (\<lambda>d.
                if ctxSubPath x = [] then sret d
                else let sub = join_path [d, ctxSubPath x]
                     in sbind (sgets (\<lambda>w. os_Stat (files w) (in_wd (getwd V) sub))) (\<lambda>st. case st of
                          Inl e \<Rightarrow> if is_not_exist e then sfail e else sret sub
                        | Inr _ \<Rightarrow> sret sub))))"

definition add_ignores :: "KanikoOptions \<Rightarrow> world \<Rightarrow> world" where
  "add_ignores k w =
     fold (\<lambda>p. AddToDefaultIgnoreList (entry p False)) (IgnorePaths k)
       (if IgnoreVarRun k then AddToDefaultIgnoreList (entry ''/var/run'' False) w else w)"

definition check_destinations :: "KanikoOptions \<Rightarrow> unit res" where
  "check_destinations k =
     (if Destinations k = [] \<and> ImageNameDigestFile k \<noteq> [] then Inl (Msg ''you must provide --destination if setting ImageNameDigestFile'')
      else if Destinations k = [] \<and> ImageNameTagDigestFile k \<noteq> [] then Inl (Msg ''you must provide --destination if setting ImageNameTagDigestFile'')
      else Inr ())"

text \<open>\<open>PersistentPreRunE\<close>. The result is the exit code if the sandbox was entered in a copy of the program that has ended.\<close>

definition prepare_options :: "cmd_env \<Rightarrow> host \<Rightarrow> (exec_state, unit) act" where
  "prepare_options V H =
     sthen (set_opts (with_kopts (\<lambda>k. k\<lparr>BuildArgs_opt := resolveEnvironmentBuildArgs (BuildArgs_opt k) (Getenv V)\<rparr>)))
    (sthen (sreads (\<lambda>s. if \<not> NoPush (kopts (eopts s)) \<and> Destinations (kopts (eopts s)) = []
                        then Inl (Msg ''you must provide --destination, or use --no-push'') else Inr ()))
    (sthen (swrap ''cache flags invalid'' (sreads (\<lambda>s. cacheFlagsValid (kopts (eopts s)))))
    (sbind (sgets eopts) (\<lambda>x.
     sbind (swrap ''error resolving source context'' (on_ewld (resolveSourceContext V H x))) (\<lambda>src.
     sthen (set_opts (with_kopts (\<lambda>k. k\<lparr>SrcContext := src\<rparr>)))
    (sbind (sgets (\<lambda>s. kopts (eopts s))) (\<lambda>k.
     sbind (swrap ''error resolving dockerfile path'' (on_ewld (resolveDockerfilePath (getwd V) k))) (\<lambda>p.
     sthen (set_opts (with_kopts (\<lambda>k. k\<lparr>DockerfilePath := p\<rparr>)))
    (sthen (sreads (\<lambda>s. check_destinations (kopts (eopts s))))
           (sbind (sgets (\<lambda>s. kopts (eopts s))) (\<lambda>k. on_ewld (smodify (add_ignores k)))))))))))))"

definition PreRun :: "cmd_env \<Rightarrow> registry \<Rightarrow> host \<Rightarrow> (exec_state, nat option) act" where
  "PreRun V R H =
     sbind (sreads (\<lambda>s. validateFlags V R (eopts s))) (\<lambda>x.
     sthen (set_opts (\<lambda>_. x))
    (sthen (sbind (sgets (\<lambda>s. if KanikoDir_opt x \<noteq> DefaultKanikoPath then KanikoDir_opt x else KanikoDir (conf (ewld s)))) (\<lambda>d.
              on_ewld (checkKanikoDir d)))
    (sbind (if Sandbox (kopts x) then on_box (setupSandbox (cmd_kernel V)) else sret None) (\<lambda>ended. case ended of
         Some code \<Rightarrow> sret (Some code)
       | None \<Rightarrow> sthen (prepare_options V H) (sret None)))))"

subsection \<open>The run\<close>

definition checkContained :: "cmd_env \<Rightarrow> filesys \<Rightarrow> bool" where
  "checkContained V fs \<longleftrightarrow> GetContainerRuntime fs (Getenv V) 0 0 \<noteq> RuntimeNotFound"

text \<open>What the sandbox found out about the kernel's file systems, for the commands that run in it\<close>

definition sandboxed :: "box \<Rightarrow> executor \<Rightarrow> executor" where
  "sandboxed b E = E\<lparr>ex_host := (ex_host E)\<lparr>kernel_fs_bound := KernelFSBindMounted b, proc_self_stub := SandboxProcSelfStub (sbx b)\<rparr>\<rparr>"

definition build_image :: "executor \<Rightarrow> arrays \<Rightarrow> (exec_state, image option) act" where
  "build_image E h s =
     (case DoBuild (sandboxed (ebox s) E) (kopts (eopts s)) h (ewld s, enet s) of (r, w, n) \<Rightarrow>
        (r, s\<lparr>ebox := (ebox s)\<lparr>sbx := (sbx (ebox s))\<lparr>sworld := w\<rparr>\<rparr>, enet := n\<rparr>))"

definition on_push :: "(push_site, 'a) act \<Rightarrow> (exec_state, 'a) act" where
  "on_push m s =
     (case m (ewld s, eout s) of (r, w, b) \<Rightarrow> (r, s\<lparr>ebox := (ebox s)\<lparr>sbx := (sbx (ebox s))\<lparr>sworld := w\<rparr>\<rparr>, eout := b\<rparr>))"

definition before_build :: "cmd_env \<Rightarrow> executor \<Rightarrow> pusher \<Rightarrow> (exec_state, unit) act" where
  "before_build V E P =
     sthen (sreads (\<lambda>s. if \<not> checkContained V (files (ewld s)) \<and> \<not> force (eopts s)
              then Inl (Msg ''kaniko should only be run inside of a container, run with the --force flag if you are sure you want to continue'')
              else Inr ()))
    (sbind (sgets (\<lambda>s. kopts (eopts s))) (\<lambda>k.
     sthen (swhen (\<not> NoPush k \<or> CacheRepo k \<noteq> []) (swrap ''error checking push permissions'' (on_push (CheckPushPermissions P (ex_registry E) k))))
           (set_opts (with_kopts (resolveRelativePaths (getwd V))))))"

definition after_build :: "executor \<Rightarrow> pusher \<Rightarrow> image option \<Rightarrow> (exec_state, unit) act" where
  "after_build E P img =
     (case img of
        None \<Rightarrow> sfail (Panic ''nil pointer dereference'')
      | Some img \<Rightarrow>
          sbind (sgets (\<lambda>s. kopts (eopts s))) (\<lambda>k.
          sthen (swrap ''error pushing image'' (on_push (DoPush P (ex_registry E) img k)))
                (swhen (Sandbox k) (on_box teardownSandboxIfActive))))"

definition run_steps :: "cmd_env \<Rightarrow> executor \<Rightarrow> pusher \<Rightarrow> arrays \<Rightarrow> (exec_state, unit) act" where
  "run_steps V E P h = sthen (before_build V E P) (sbind (swrap ''error building image'' (build_image E h)) (after_build E P))"

text \<open>The exit code, and the state when the program ends; every exit tears the sandbox down.\<close>

definition exit_with :: "cmd_env \<Rightarrow> err \<Rightarrow> exec_state \<Rightarrow> nat \<times> exec_state" where
  "exit_with V e s = (case ExitError_code V e of None \<Rightarrow> 1 | Some c \<Rightarrow> c, snd (on_box teardownSandboxIfActive s))"

definition Run :: "cmd_env \<Rightarrow> executor \<Rightarrow> pusher \<Rightarrow> arrays \<Rightarrow> exec_state \<Rightarrow> nat \<times> exec_state" where
  "Run V E P h s = (case run_steps V E P h s of (Inr _, t) \<Rightarrow> (0, t) | (Inl e, t) \<Rightarrow> exit_with V e t)"

subsection \<open>Flags and paths\<close>

text \<open>A value of \<open>KANIKO_NO_PUSH\<close> that is not a boolean switches pushing on, even against \<open>--no-push\<close>.\<close>

lemma registry_keeps_NoPush [simp]: "NoPush (kopts (with_registry f x)) = NoPush (kopts x)"
  by (simp add: with_registry_def with_kopts_def)

lemma invalid_no_push_pushes:
  "LookupEnv V ''KANIKO_NO_PUSH'' = Some v \<Longrightarrow> \<not> is_ok (parse_bool v) \<Longrightarrow> \<not> NoPush (kopts (env_flags V x))"
  by (auto simp: env_flags_def Let_def with_kopts_def split: option.split sum.splits)

text \<open>Once the paths are resolved, the working directory no longer matters to them; the path of the OCI layout is left as it is.\<close>

lemma resolved_path: "is_abs wd \<Longrightarrow> shdSkip (resolve_path wd p)"
proof -
  assume "is_abs wd"
  then have "is_abs (join_path [wd, p])" using join_path_is_abs_path [of wd p] by auto
  then show ?thesis by (simp add: resolve_path_def shdSkip_def filepath_Abs_def del: join_path.simps)
qed

lemma relative_paths_settled:
  assumes "is_abs wd"
  shows "resolveRelativePaths wd' (resolveRelativePaths wd k) = resolveRelativePaths wd k"
    and "OCILayoutPath (resolveRelativePaths wd k) = OCILayoutPath k"
proof -
  have "resolve_path wd' (resolve_path wd p) = resolve_path wd p" for p
    using resolved_path [OF assms, of p] by (simp add: resolve_path_def [of wd'])
  then show "resolveRelativePaths wd' (resolveRelativePaths wd k) = resolveRelativePaths wd k"
    by (simp add: resolveRelativePaths_def)
qed (simp add: resolveRelativePaths_def)

subsection \<open>What an exit code says\<close>

text \<open>The permission check changes neither the disk nor what was written to registries.\<close>

definition same_site :: "push_site \<Rightarrow> push_site \<Rightarrow> bool" where
  "same_site s t \<longleftrightarrow> fst t = fst s \<and> writes (snd t) = writes (snd s)"

lemma check_keeps_site: "keeps (same_site s) (check_targets P R opts checked ds)"
proof (induction ds arbitrary: checked)
  case (Cons d ds)
  have "keeps (same_site s) (send_check P r)" for r by (auto simp: keeps_def same_site_def send_check_def Let_def)
  with Cons show ?case by (auto intro!: keeps_rules)
qed simp

lemma check_on_push:
  assumes "swhen b (swrap m (on_push (CheckPushPermissions P R k))) s = (r, t)"
  shows "ebox t = ebox s \<and> enet t = enet s \<and> eopts t = eopts s \<and> writes (eout t) = writes (eout s)"
proof -
  have "same_site (ewld s, eout s) (snd (CheckPushPermissions P R k (ewld s, eout s)))"
    unfolding CheckPushPermissions_def by (rule keepsD [OF check_keeps_site]) (simp add: same_site_def)
  then show ?thesis using assms
    by (cases b) (auto simp: swhen_def swrap_def on_push_def sret_def ewld_def same_site_def split: prod.splits)
qed

definition built :: "cmd_env \<Rightarrow> executor \<Rightarrow> arrays \<Rightarrow> exec_state \<Rightarrow> image option res" where
  "built V E h s =
     fst (DoBuild (sandboxed (ebox s) E) (resolveRelativePaths (getwd V) (kopts (eopts s))) h (ewld s, enet s))"

lemma before_build_result:
  assumes "before_build V E P s = (r, t)"
  shows "writes (eout t) = writes (eout s)"
    and "r = Inr u \<Longrightarrow> ebox t = ebox s \<and> enet t = enet s \<and> kopts (eopts t) = resolveRelativePaths (getwd V) (kopts (eopts s))"
proof -
  let ?k = "kopts (eopts s)"
  obtain r1 s1 where s1: "swhen (\<not> NoPush ?k \<or> CacheRepo ?k \<noteq> []) (swrap ''error checking push permissions''
      (on_push (CheckPushPermissions P (ex_registry E) ?k))) s = (r1, s1)" by (metis surj_pair)
  note c = check_on_push [OF s1]
  show "writes (eout t) = writes (eout s)"
    using assms s1 c unfolding before_build_def
    by (cases r1) (auto simp: sthen_def sbind_def sreads_def sgets_def set_opts_def smodify_def split: if_splits)
  show "ebox t = ebox s \<and> enet t = enet s \<and> kopts (eopts t) = resolveRelativePaths (getwd V) ?k" if "r = Inr u"
    using assms s1 c that unfolding before_build_def
    by (cases r1) (auto simp: sthen_def sbind_def sreads_def sgets_def set_opts_def smodify_def with_kopts_def split: if_splits)
qed

lemma teardown_eout: "eout (snd (on_box m s)) = eout s"
  by (simp add: on_box_def split: prod.split)

lemma after_build_carries:
  assumes "after_build E P i s = (Inr (), t)"
  shows "\<exists>img ws. i = Some img \<and> writes (eout t) = writes (eout s) @ ws \<and> carried P (ex_registry E) (kopts (eopts s)) img ws"
proof -
  let ?k = "kopts (eopts s)"
  from assms obtain img s1 where img: "i = Some img" and s1: "on_push (DoPush P (ex_registry E) img ?k) s = (Inr (), s1)"
    and t: "swhen (Sandbox ?k) (on_box teardownSandboxIfActive) s1 = (Inr (), t)"
    by (auto simp: after_build_def act_Inr split: option.splits)
  from s1 obtain w b where p: "DoPush P (ex_registry E) img ?k (ewld s, eout s) = (Inr (), w, b)" and "eout s1 = b"
    by (auto simp: on_push_def split: prod.splits)
  moreover have "eout t = eout s1"
    using t teardown_eout [of teardownSandboxIfActive s1] by (cases "Sandbox ?k") (auto simp: swhen_def sret_def)
  ultimately show ?thesis using DoPush_carries [OF p] img by auto
qed


subsection \<open>Examples\<close>

definition demo_kernel :: kernel where
  "demo_kernel = \<lparr>bind_mount = (\<lambda>_ _. Inr ()), hostRand = Inr [], env_userns = ''skip'', uid = 0, gid = 0,
     try_reexec = (\<lambda>_ _. Exited 0)\<rparr>"

definition demo_context_libs :: context_libs where
  "demo_context_libs = \<lparr>ctx_getenv = (\<lambda>_. []), url_Parse = (\<lambda>_. Inr ([], [])), gcs_read = (\<lambda>_ _. Inr []),
     s3_download = (\<lambda>_ _ _ _. Inr []), azblob_ParseURL = (\<lambda>_. Inr ([], [], [])), azblob_download = (\<lambda>_ _ _ _ _. Inr []),
     stdin = (True, []), IsHash = (\<lambda>_. False), git_List = (\<lambda>_ _. Inr []), PlainClone = (\<lambda>_ _. sret ()),
     git_Fetch = (\<lambda>_ _ _. sret ()), already_up_to_date = (\<lambda>_. False), git_Head = (\<lambda>_ _. Inr ()), git_Worktree = (\<lambda>_ _. Inr ()),
     git_Checkout = (\<lambda>_ _. sret ())\<rparr>"

definition demo_env :: cmd_env where
  "demo_env = \<lparr>LookupEnv = (\<lambda>_. None), DefaultPlatform = ''linux/amd64'', getwd = ''/'', cmd_kernel = demo_kernel,
     ctx_libs = demo_context_libs, ExitError_code = (\<lambda>_. None)\<rparr>"

definition demo_exec_state :: exec_state where
  "demo_exec_state = \<lparr>ebox = \<lparr>sbx = \<lparr>sworld = fst demo_site, SandboxProcSelfStub = False\<rparr>, KernelFSBindMounted = False,
       binds = [], unmounts = [], activeSandboxPath = [], teardown_done = False\<rparr>,
     enet = snd demo_site, eout = demo_outbox,
     eopts = addKanikoOptionsFlags\<lparr>kopts := push_options\<lparr>DockerfilePath := ''Dockerfile''\<rparr>, force := True\<rparr>\<rparr>"


end
