(* ===== verification/Spec2Isabelle.thy ===== *)
theory Spec2Isabelle
  imports Layered_Map Resolve_Paths Layer_Changes Dockerfile Command_Props Composite_Cache Warm_Cache Executor_Cmd
begin

text \<open>
  kaniko builds a container image from a Dockerfile without a daemon. The executor unpacks the base image of a stage
  over its own root file system (or, in sandbox mode, below a build root of its own), runs the instructions there one by one, takes a snapshot of
  the file system after each one that may change it, turns what changed into a layer, and pushes the image. This
  development models the program's own Go code and proves what makes its parts correct. Paths below are relative to
  \<open>src/\<close>.

  \<^bold>\<open>How the parts interact.\<close> \<open>cmd/executor/cmd/root.go\<close> settles the options, fetches the build context
  (\<open>pkg/buildcontext\<close>), checks push permissions, calls \<open>DoBuild\<close> (\<open>pkg/executor/build.go\<close>) and \<open>DoPush\<close>
  (\<open>pkg/executor/push.go\<close>) and chooses the exit code. \<open>DoBuild\<close> parses the Dockerfile into stages
  (\<open>pkg/dockerfile\<close>), fetches base images (\<open>pkg/image\<close>) and unpacks them (\<open>pkg/util/fs_util.go\<close>), runs the commands
  (\<open>pkg/commands\<close>), asks the layer cache (\<open>pkg/cache\<close>) under composite keys (\<open>pkg/executor/composite_cache.go\<close>), and
  takes snapshots (\<open>pkg/snapshot\<close>). The snapshotter keeps the hashes of all files in a layered map, resolves the files
  a command names (\<open>pkg/filesystem\<close>) and writes the changed files and whiteouts to a tar (\<open>pkg/util/tar_util.go\<close>). What they all share is
  the file system and the ignore list of \<open>pkg/util/fs_util.go\<close>.

  \<^bold>\<open>Theories.\<close>

  \<^item> \<open>Kaniko_Prelude\<close>: errors, results, Go maps, actions on a state (\<open>sbind\<close>, \<open>sfold\<close>, \<open>smap\<close>), the predicate \<open>keeps\<close> for
    invariants that also hold after a failure, with its rules in the collection \<open>keeps_rules\<close>.
  \<^item> \<open>Go_Strings\<close>, \<open>Go_Filepath\<close>: the parts of Go's \<open>strings\<close>, \<open>strconv\<close> and \<open>path/filepath\<close> in use; paths as lists of
    components (\<open>abs_path\<close>, \<open>comps_ok\<close>) and what \<open>Clean\<close>, \<open>Join\<close>, \<open>Dir\<close>, \<open>Base\<close> and \<open>Rel\<close> do on them.
  \<^item> \<open>Os_Files\<close>, \<open>Os_Write\<close>, \<open>Os_Temp\<close>: the file system (\<open>filesys\<close>: directory entries to inode numbers to inodes), the kernel's path
    resolution, and the system calls the program makes; the invariant \<open>fs_ok\<close> and that every call keeps it.
  \<^item> \<open>Ignore_List\<close>: the process-wide state \<open>world\<close> (\<open>pkg/config\<close> and the variables of \<open>pkg/util/fs_util.go\<close>), the
    ignore list, \<open>ParentDirectories\<close>, and \<open>ResolvePathInRoot\<close> with \<open>securejoin\<close>.
  \<^item> \<open>Layered_Map\<close> (\<open>pkg/snapshot/layered_map.go\<close>), \<open>Resolve_Paths\<close> (\<open>pkg/filesystem/resolve.go\<close>), \<open>Tar_Util\<close>
    (\<open>pkg/util/tar_util.go\<close> and the hashers of \<open>pkg/util/util.go\<close>), \<open>Snapshot\<close> (\<open>pkg/snapshot/snapshot.go\<close>).
  \<^item> \<open>Fs_Ops\<close>: the part of \<open>pkg/util/fs_util.go\<close> that changes files: extraction, copying, deletion. \<open>Layer_Roundtrip\<close>
    composes it with \<open>Snapshot\<close>: the tar of a snapshot, unpacked, brings the files back; \<open>Layer_Changes\<close> adds the scans: the
    layer between two scans turns the file system of the first into that of the second.
  \<^item> \<open>Command_Util\<close> (\<open>pkg/util/command_util.go\<close>, \<open>groupids_fallback.go\<close>, \<open>syscall_credentials.go\<close>), \<open>Sandbox_Proc\<close>
    (\<open>sandbox_proc_resolve.go\<close>, \<open>sandbox_kernel_fs.go\<close>), \<open>Container_Runtime\<close> (\<open>pkg/util/proc\<close>), \<open>Transport\<close> (\<open>transport_util.go\<close>).
  \<^item> \<open>Kaniko_Options\<close> (\<open>pkg/config\<close>), \<open>Build_Args\<close> and \<open>Dockerfile\<close> (\<open>pkg/dockerfile\<close>, \<open>pkg/config/stage.go\<close>).
  \<^item> \<open>Image_Config\<close> (the state a command changes, with Go's slices that share arrays), \<open>Proot_Provision\<close> (\<open>pkg/proot\<close>,
    \<open>pkg/commands/proot_provision.go\<close>), \<open>Commands\<close> (\<open>pkg/commands\<close>: one \<open>exec_\<close> definition per instruction, joined in
    \<open>ExecuteCommand\<close>) and \<open>Command_Props\<close>.
  \<^item> \<open>Image_Source\<close> (\<open>pkg/image\<close>, \<open>pkg/cache/cache.go\<close>, the retries of \<open>pkg/util/util.go\<close>), \<open>Composite_Cache\<close>
    (\<open>pkg/executor/composite_cache.go\<close>), \<open>Warm_Cache\<close> (\<open>pkg/cache/warm.go\<close>, \<open>cmd/warmer\<close>).
  \<^item> \<open>Path_Trie\<close>, \<open>Stage_Deps\<close>, \<open>Stage_Build\<close>, \<open>Do_Build\<close>, \<open>Stage_Props\<close> (\<open>pkg/executor/build.go\<close>: deduplication of paths, dependencies
    between stages, one stage, the whole build, and what holds of the image), \<open>Push\<close> (\<open>pkg/executor/push.go\<close>).
  \<^item> \<open>Build_Context\<close> (\<open>pkg/buildcontext\<close>), \<open>Sandbox_Setup\<close> and \<open>Executor_Cmd\<close> (\<open>cmd/executor/cmd/root.go\<close>).

  \<^bold>\<open>Conventions.\<close> A Go function that returns an error is a function into a sum; one that also changes state is an action, a
  function from the state to a result and the new state, so that a failure half way shows what it leaves behind. A panic is an
  error of its own. Error texts keep their constant parts and the names they mention. A Go map is an association list in insertion order; where Go's random order
  would show, the theorems speak of sets or of the sorted list. The process runs as root in the directory \<open>/\<close>, so permission
  bits are data, and numeric owners are refused only by a user namespace. Modification times are what the program sets. A tar
  stream is the list of its entries.

  \<^bold>\<open>Interfaces.\<close> The locale \<open>file_image\<close> states what the snapshotter relies on in a record of files and hashes and is
  interpreted for the layered map (\<open>lmap\<close>); \<open>docker_commands\<close> is the contract of \<open>DockerCommand\<close>, interpreted for
  \<open>ExecuteCommand\<close> (\<open>dc\<close>); \<open>layer_cache\<close> is \<open>cache.LayerCache\<close>, interpreted for the registry and for the OCI layout
  (\<open>registry_cache\<close>, \<open>layout_cache\<close>). The inductive predicate \<open>lm_reach\<close> gives the states that any sequence of calls
  on a layered map reaches.

  \<^bold>\<open>What is shown.\<close>

  \<^item> Layers: the layered map refines the merge of its layers; a full scan records exactly the visible file system, and a second
    scan finds nothing; whiteouts cover exactly what was deleted; parents come before their children in the tar; writing
    a layer and unpacking it restores files, directories, symbolic and hard links and removes what was whited out; the layer
    between two scans, unpacked over the first file system, gives the second.
  \<^item> Confinement: paths resolved in a sandbox, copy destinations and the files saved for later stages stay below the root; deleting
    the file system between stages spares everything ignored; wiping a sandbox touches nothing else.
  \<^item> State: every operation, a single command and a whole build keep the file system well formed, also on failure.
  \<^item> Stages: numbering, the target and saved stages; skipping unused stages loses none that is needed; dependencies on files
    are complete; names resolve to the last stage of that name.
  \<^item> Values: precedence of build arguments, ranges of owners and modes, matching of the ignore list on components.
  \<^item> Caches: lookup and upload agree on keys; a pushed layer is found again; hits are fresh; a failed warm-up leaves no trace.
  \<^item> Network and result: exit code 0 means delivered to every destination; permissions are checked for all of them; mirrors and
    TLS settings are the configured ones; retries stop at the first success.
  \<^item> Loops: those of path resolution end; \<open>ParentDirectories\<close> is shown to end for paths below the root, and for those only.

  \<^bold>\<open>Bounds and fuel.\<close> The kernel follows at most 40 symbolic links (\<open>kernel_links\<close>), \<open>EvalSymlinks\<close> and \<open>securejoin\<close> at
  most 255: limits of the real system. Where a Go loop shortens its argument, the fuel is that length (or one
  more): \<open>match_fuel\<close> consumes at least a character of the pattern per turn, \<open>glob_fuel\<close>, \<open>mkdir_all\<close>, \<open>climb\<close> and
  \<open>ancestor_loop\<close> go up one directory per turn, and tree walks go down at most \<open>depth\<close> levels, the length of the longest path. The loop of \<open>ParentDirectories\<close>,
  which need not end, is a \<open>partial_function\<close> into options, and its divergence reaches the callers as the error \<open>Hang\<close>.

  \<^bold>\<open>Parameters.\<close> Code outside the repository is an argument: the Dockerfile parser and the shell lexer of BuildKit, the
  registry client, readers and writers of tarballs and OCI layouts, hash functions, compression, user databases, HTTP,
  git and cloud clients, certificate parsing, and the processes a \<open>RUN\<close> starts (any change that keeps the file system well formed).
  What a theorem needs of them is a hypothesis, and its witness instantiates it.

  \<^bold>\<open>Not modelled.\<close> Timing, logging and the benchmark file (no effect on the image), the choice of credential helpers
  (\<open>pkg/creds\<close>: configuration of external libraries), signal handling and delays between retries, the cgo variant of the
  group lookup, the embedded binaries, program entry points and version output, test doubles and generated mocks, the
  integration harness and development tools. Uploads of layers to the cache run in goroutines that only read a finished
  tar and whose errors are logged: a stage lists them, and \<open>Push\<close> models each upload.
\<close>

end
